(* ===== verification/Prelude.thy ===== *)
theory Prelude
  imports Main "HOL-Library.Word" "HOL-Library.Sublist"
begin

unbundle bit_operations_syntax

text \<open>
  Shared vocabulary of the development: machine words, C strings, the libc string
  functions the sources call, and the generic list and option lemmas the component
  theories use.

  A C string or a \<^verbatim>\<open>std::string\<close> is a \<^typ>\<open>string\<close>. A C string ends at its first
  NUL byte (\<open>c_str\<close>); the functions below that model libc routines take the characters
  before the terminator.
\<close>

type_synonym u32 = "32 word"

named_theorems str_simps \<open>equations of the string functions\<close>

abbreviation NUL :: char where
  "NUL \<equiv> CHR 0x00"

text \<open>The bytes of a buffer that a C reader sees: everything before the first NUL.\<close>

definition c_str :: "string \<Rightarrow> string" where
  "c_str s = takeWhile (\<lambda>c. c \<noteq> NUL) s"

lemma c_str_no_NUL [simp]: "NUL \<notin> set (c_str s)"
  by (auto simp: c_str_def dest: set_takeWhileD)

lemma c_str_id: "NUL \<notin> set s \<Longrightarrow> c_str s = s"
  unfolding c_str_def by (auto simp: takeWhile_eq_all_conv)

lemma c_str_append_NUL: "NUL \<notin> set s \<Longrightarrow> c_str (s @ NUL # t) = s"
  unfolding c_str_def by (subst takeWhile_append2) auto

text \<open>
  \<open>strchr_split c s\<close> is the result of \<^verbatim>\<open>strchr(s, c)\<close>: \<open>None\<close> for a null pointer, and
  otherwise the text before the found character and the text after it.
\<close>

fun strchr_split :: "char \<Rightarrow> string \<Rightarrow> (string \<times> string) option" where
  "strchr_split c [] = None"
| "strchr_split c (x # xs) =
     (if x = c then Some ([], xs)
      else (case strchr_split c xs of None \<Rightarrow> None | Some (a, b) \<Rightarrow> Some (x # a, b)))"

lemma strchr_split_None [simp]: "strchr_split c s = None \<longleftrightarrow> c \<notin> set s"
  by (induction s) (auto split: option.splits)

lemma strchr_split_absent [simp]: "c \<notin> set s \<Longrightarrow> strchr_split c s = None"
  by simp

lemma strchr_split_SomeD:
  "strchr_split c s = Some (a, b) \<Longrightarrow> s = a @ c # b \<and> c \<notin> set a"
  by (induction s arbitrary: a) (auto split: if_splits option.splits)

lemma strchr_split_append [simp]:
  "c \<notin> set a \<Longrightarrow> strchr_split c (a @ c # b) = Some (a, b)"
  by (induction a) auto

lemma strchr_split_length [termination_simp]:
  "strchr_split c s = Some (a, b) \<Longrightarrow> length b < length s"
  "Some (a, b) = strchr_split c s \<Longrightarrow> length b < length s"
  by (auto dest!: strchr_split_SomeD[OF sym] strchr_split_SomeD)

text \<open>
  \<^verbatim>\<open>strncmp\<close> compares at most \<open>n\<close> bytes as unsigned characters and stops at a NUL; the
  end of a list is its terminator.
\<close>

fun strncmp :: "string \<Rightarrow> string \<Rightarrow> nat \<Rightarrow> int" where
  "strncmp a b 0 = 0"
| "strncmp [] [] (Suc n) = 0"
| "strncmp [] (y # ys) (Suc n) = - int (of_char y)"
| "strncmp (x # xs) [] (Suc n) = int (of_char x)"
| "strncmp (x # xs) (y # ys) (Suc n) =
     (if x \<noteq> y then int (of_char x) - int (of_char y)
      else if x = NUL then 0
      else strncmp xs ys n)"

text \<open>\<^verbatim>\<open>android::base::StartsWith\<close>.\<close>

definition starts_with :: "string \<Rightarrow> string \<Rightarrow> bool" where
  "starts_with s pre = prefix pre s"

lemma starts_with_code [simp]: "starts_with s pre \<longleftrightarrow> take (length pre) s = pre"
  unfolding starts_with_def by (metis append_eq_conv_conj prefix_def take_is_prefix)

text \<open>\<^verbatim>\<open>isspace\<close> in the C locale.\<close>

definition isspace :: "char \<Rightarrow> bool" where
  "isspace c = (c = CHR '' '' \<or> c = CHR 0x09 \<or> c = CHR 0x0A \<or> c = CHR 0x0B
     \<or> c = CHR 0x0C \<or> c = CHR 0x0D)"

text \<open>Splitting at every occurrence of a character, and its inverse.\<close>

fun split_on :: "char \<Rightarrow> string \<Rightarrow> string list" where
  "split_on c s =
     (case strchr_split c s of None \<Rightarrow> [s] | Some (a, b) \<Rightarrow> a # split_on c b)"

declare split_on.simps [simp del]

fun join_with :: "char \<Rightarrow> string list \<Rightarrow> string" where
  "join_with c [] = []"
| "join_with c [s] = s"
| "join_with c (s # ss) = s @ c # join_with c ss"

lemma join_with_Cons: "ss \<noteq> [] \<Longrightarrow> join_with c (s # ss) = s @ c # join_with c ss"
  by (cases ss) auto

lemma split_on_nonempty [simp]: "split_on c s \<noteq> []"
  by (subst split_on.simps) (auto split: option.splits)

lemma split_on_no_sep: "c \<notin> set s \<Longrightarrow> split_on c s = [s]"
  by (subst split_on.simps) (auto split: option.splits dest: strchr_split_SomeD)

lemma split_on_sep: "c \<notin> set a \<Longrightarrow> split_on c (a @ c # b) = a # split_on c b"
  by (subst split_on.simps) simp

theorem join_split_on [simp]: "join_with c (split_on c s) = s"
proof (induction c s rule: split_on.induct)
  case (1 c s)
  show ?case
  proof (cases "strchr_split c s")
    case None
    then show ?thesis by (simp add: split_on_no_sep)
  next
    case (Some ab)
    obtain a b where ab: "ab = (a, b)" by (cases ab)
    with Some have s: "s = a @ c # b" "c \<notin> set a"
      by (auto dest: strchr_split_SomeD)
    have "join_with c (split_on c b) = b"
      using 1 Some ab by simp
    with s show ?thesis by (simp add: split_on_sep join_with_Cons)
  qed
qed

lemma split_on_no_sep_parts: "x \<in> set (split_on c s) \<Longrightarrow> c \<notin> set x"
proof (induction c s rule: split_on.induct)
  case (1 c s)
  show ?case
  proof (cases "strchr_split c s")
    case None
    with 1(2) show ?thesis by (simp add: split_on_no_sep)
  next
    case (Some ab)
    obtain a b where ab: "ab = (a, b)" by (cases ab)
    with Some have s: "s = a @ c # b" "c \<notin> set a"
      by (auto dest: strchr_split_SomeD)
    with 1 Some ab show ?thesis by (auto simp: split_on_sep)
  qed
qed

lemma join_with_inj:
  assumes "\<forall>x \<in> set xs. c \<notin> set x" "\<forall>x \<in> set ys. c \<notin> set x" "xs \<noteq> []" "ys \<noteq> []"
    and "join_with c xs = join_with c ys"
  shows "xs = ys"
proof -
  have split_join: "zs \<noteq> [] \<Longrightarrow> \<forall>x \<in> set zs. c \<notin> set x \<Longrightarrow> split_on c (join_with c zs) = zs" for zs
  proof (induction zs)
    case (Cons z zs)
    then show ?case
      by (cases zs) (auto simp: split_on_no_sep split_on_sep)
  qed simp
  show ?thesis
    using assms split_join by metis
qed

end
