(* ===== verification/Prop_Area.thy ===== *)
theory Prop_Area
  imports Prelude
begin

text \<open>
  The property area of \<^verbatim>\<open>bionic/libc/bionic/system_properties.cpp\<close>: a memory region in
  which a bump allocator places trie nodes (\<open>prop_bt\<close>) and property records
  (\<open>prop_info\<close>). Names are cut at dots; the tokens form a trie whose siblings are a binary
  search tree ordered by \<open>cmp_prop_name\<close>. Objects refer to each other by offsets into the
  region, with 0 as the null reference.

  The region is a map from offsets to the object placed there. An operation that follows
  an offset at which no object of the expected kind lies has undefined behaviour in the
  source; the model returns \<open>None\<close> for it, and for a search that does not terminate. The
  lemmas show that neither happens in a well-formed area.
\<close>

section \<open>Data\<close>

record prop_bt =
  bt_name :: string
  bt_prop :: nat
  bt_left :: nat
  bt_right :: nat
  bt_children :: nat

record prop_info =
  pi_serial :: u32
  pi_value :: string
  pi_name :: string

datatype prop_obj = Bt prop_bt | Info prop_info

text \<open>
  \<^verbatim>\<open>pa_data_size\<close> is a static of the file that every mapping of an area sets; it is kept
  beside the area it was set for.
\<close>

record prop_area =
  bytes_used :: nat
  area_serial :: u32
  pa_magic :: u32
  pa_version :: u32
  pa_data_size :: nat
  pa_data :: "nat \<Rightarrow> prop_obj option"

definition PROP_AREA_MAGIC :: u32 where
  "PROP_AREA_MAGIC = 0x504f5250"

definition PROP_AREA_VERSION :: u32 where
  "PROP_AREA_VERSION = 0xfc6ed0ab"

definition PA_SIZE :: nat where
  "PA_SIZE = 128 * 1024"

text \<open>
  \<open>PROP_VALUE_MAX\<close> and \<open>PROP_NAME_MAX\<close> are the constants of the public header
  \<^verbatim>\<open>sys/system_properties.h\<close>. The sizes of the structures follow from their fields: four
  32-bit words of header and 28 reserved ones for the area, five words for a node, a word and
  the value buffer for a record.
\<close>

definition PROP_VALUE_MAX :: nat where
  "PROP_VALUE_MAX = 92"

definition PROP_NAME_MAX :: nat where
  "PROP_NAME_MAX = 32"

definition sizeof_prop_area :: nat where
  "sizeof_prop_area = 4 * 4 + 28 * 4"

definition sizeof_prop_bt :: nat where
  "sizeof_prop_bt = 5 * 4"

definition sizeof_prop_info :: nat where
  "sizeof_prop_info = 4 + PROP_VALUE_MAX"

lemmas prop_sizes [simp] =
  PA_SIZE_def PROP_VALUE_MAX_def sizeof_prop_area_def sizeof_prop_bt_def sizeof_prop_info_def

text \<open>
  The constructors. A fresh page is zero, so the references of a new node are null and the
  value buffer of a record ends in NUL bytes.
\<close>

definition mk_prop_bt :: "string \<Rightarrow> prop_bt" where
  "mk_prop_bt name = \<lparr>bt_name = name, bt_prop = 0, bt_left = 0, bt_right = 0, bt_children = 0\<rparr>"

definition mk_prop_info :: "string \<Rightarrow> string \<Rightarrow> prop_info" where
  "mk_prop_info name value =
     \<lparr>pi_serial = push_bit 24 (of_nat (length value)),
      pi_value = value @ replicate (PROP_VALUE_MAX - length value) NUL, pi_name = name\<rparr>"

text \<open>
  A new area: the header, and room for the root node at offset 0, which the zeroed page
  already encodes (an empty name and null references).
\<close>

definition mk_prop_area :: "u32 \<Rightarrow> u32 \<Rightarrow> nat \<Rightarrow> prop_area" where
  "mk_prop_area magic version data_size =
     \<lparr>bytes_used = sizeof_prop_bt, area_serial = 0, pa_magic = magic, pa_version = version,
      pa_data_size = data_size, pa_data = [0 \<mapsto> Bt (mk_prop_bt [])]\<rparr>"

text \<open>The area that \<^verbatim>\<open>map_prop_area_rw\<close> creates in a new file.\<close>

definition new_prop_area :: prop_area where
  "new_prop_area =
     mk_prop_area PROP_AREA_MAGIC PROP_AREA_VERSION (PA_SIZE - sizeof_prop_area)"

section \<open>Operations\<close>

definition BIONIC_ALIGN :: "nat \<Rightarrow> nat \<Rightarrow> nat" where
  "BIONIC_ALIGN value alignment = (value + alignment - 1) div alignment * alignment"

definition allocate_obj :: "prop_area \<Rightarrow> nat \<Rightarrow> (nat \<times> prop_area) option" where
  "allocate_obj pa sz =
     (let aligned = BIONIC_ALIGN sz 4 in
      if bytes_used pa + aligned > pa_data_size pa then None
      else Some (bytes_used pa, pa\<lparr>bytes_used := bytes_used pa + aligned\<rparr>))"

definition put_obj :: "nat \<Rightarrow> prop_obj \<Rightarrow> prop_area \<Rightarrow> prop_area" where
  "put_obj off x pa = pa\<lparr>pa_data := (pa_data pa)(off \<mapsto> x)\<rparr>"

definition new_prop_bt :: "prop_area \<Rightarrow> string \<Rightarrow> (nat \<times> prop_area) option" where
  "new_prop_bt pa name =
     (case allocate_obj pa (sizeof_prop_bt + length name + 1) of
        None \<Rightarrow> None
      | Some (off, pa') \<Rightarrow> Some (off, put_obj off (Bt (mk_prop_bt name)) pa'))"

definition new_prop_info :: "prop_area \<Rightarrow> string \<Rightarrow> string \<Rightarrow> (nat \<times> prop_area) option" where
  "new_prop_info pa name value =
     (case allocate_obj pa (sizeof_prop_info + length name + 1) of
        None \<Rightarrow> None
      | Some (off, pa') \<Rightarrow> Some (off, put_obj off (Info (mk_prop_info name value)) pa'))"

text \<open>Pointers are offsets into the data, \<open>None\<close> is \<^verbatim>\<open>nullptr\<close>.\<close>

definition to_prop_obj :: "prop_area \<Rightarrow> nat \<Rightarrow> nat option" where
  "to_prop_obj pa off = (if off > pa_data_size pa then None else Some off)"

text \<open>Dereferencing a node or record pointer.\<close>

definition deref_bt :: "prop_area \<Rightarrow> nat \<Rightarrow> prop_bt option" where
  "deref_bt pa off = (case pa_data pa off of Some (Bt b) \<Rightarrow> Some b | _ \<Rightarrow> None)"

definition deref_info :: "prop_area \<Rightarrow> nat \<Rightarrow> prop_info option" where
  "deref_info pa off = (case pa_data pa off of Some (Info i) \<Rightarrow> Some i | _ \<Rightarrow> None)"

definition cmp_prop_name :: "string \<Rightarrow> string \<Rightarrow> int" where
  "cmp_prop_name one two =
     (if length one < length two then -1
      else if length one > length two then 1
      else strncmp one two (length one))"

partial_function (option) find_prop_bt ::
  "prop_area \<Rightarrow> nat option \<Rightarrow> string \<Rightarrow> bool \<Rightarrow> (nat option \<times> prop_area) option" where
  "find_prop_bt pa current name alloc_if_needed =
     (case current of
        None \<Rightarrow> Some (None, pa)
      | Some cur \<Rightarrow>
          (case deref_bt pa cur of
             None \<Rightarrow> None
           | Some b \<Rightarrow>
               (let ret = cmp_prop_name name (bt_name b) in
                if ret = 0 then Some (Some cur, pa)
                else if ret < 0 then
                  (if bt_left b \<noteq> 0 then
                     find_prop_bt pa (to_prop_obj pa (bt_left b)) name alloc_if_needed
                   else if \<not> alloc_if_needed then Some (None, pa)
                   else (case new_prop_bt pa name of
                           None \<Rightarrow> Some (None, pa)
                         | Some (new, pa') \<Rightarrow>
                             Some (Some new, put_obj cur (Bt (b\<lparr>bt_left := new\<rparr>)) pa')))
                else
                  (if bt_right b \<noteq> 0 then
                     find_prop_bt pa (to_prop_obj pa (bt_right b)) name alloc_if_needed
                   else if \<not> alloc_if_needed then Some (None, pa)
                   else (case new_prop_bt pa name of
                           None \<Rightarrow> Some (None, pa)
                         | Some (new, pa') \<Rightarrow>
                             Some (Some new, put_obj cur (Bt (b\<lparr>bt_right := new\<rparr>)) pa'))))))"

text \<open>
  \<open>find_property\<close> walks the tokens of the name. \<open>find_root\<close> is the step that enters the
  children of a node, creating the first child when allowed; \<open>find_leaf\<close> is what follows the
  loop, at the node of the last token.
\<close>

definition find_root ::
  "prop_area \<Rightarrow> nat \<Rightarrow> string \<Rightarrow> bool \<Rightarrow> (nat option \<times> prop_area) option" where
  "find_root pa cur token alloc_if_needed =
     (case deref_bt pa cur of
        None \<Rightarrow> None
      | Some b \<Rightarrow>
          if bt_children b \<noteq> 0 then Some (to_prop_obj pa (bt_children b), pa)
          else if alloc_if_needed then
            (case new_prop_bt pa token of
               None \<Rightarrow> Some (None, pa)
             | Some (new, pa') \<Rightarrow> Some (Some new, put_obj cur (Bt (b\<lparr>bt_children := new\<rparr>)) pa'))
          else Some (None, pa))"

definition find_leaf ::
  "prop_area \<Rightarrow> nat \<Rightarrow> string \<Rightarrow> string \<Rightarrow> bool \<Rightarrow> (nat option \<times> prop_area) option" where
  "find_leaf pa cur name value alloc_if_needed =
     (case deref_bt pa cur of
        None \<Rightarrow> None
      | Some b \<Rightarrow>
          if bt_prop b \<noteq> 0 then Some (to_prop_obj pa (bt_prop b), pa)
          else if alloc_if_needed then
            (case new_prop_info pa name value of
               None \<Rightarrow> Some (None, pa)
             | Some (new, pa') \<Rightarrow> Some (Some new, put_obj cur (Bt (b\<lparr>bt_prop := new\<rparr>)) pa'))
          else Some (None, pa))"

fun find_property_loop ::
  "prop_area \<Rightarrow> nat \<Rightarrow> string \<Rightarrow> string \<Rightarrow> string \<Rightarrow> bool \<Rightarrow> (nat option \<times> prop_area) option" where
  "find_property_loop pa cur remaining_name name value alloc_if_needed =
     (let sep = strchr_split CHR ''.'' remaining_name;
          token = (case sep of None \<Rightarrow> remaining_name | Some (a, _) \<Rightarrow> a) in
      if token = [] then Some (None, pa)
      else
        (case find_root pa cur token alloc_if_needed of
           None \<Rightarrow> None
         | Some (None, pa1) \<Rightarrow> Some (None, pa1)
         | Some (Some root, pa1) \<Rightarrow>
             (case find_prop_bt pa1 (Some root) token alloc_if_needed of
                None \<Rightarrow> None
              | Some (None, pa2) \<Rightarrow> Some (None, pa2)
              | Some (Some cur', pa2) \<Rightarrow>
                  (case sep of
                     None \<Rightarrow> find_leaf pa2 cur' name value alloc_if_needed
                   | Some (_, rest) \<Rightarrow>
                       find_property_loop pa2 cur' rest name value alloc_if_needed))))"

declare find_property_loop.simps [simp del]

definition find_property ::
  "prop_area \<Rightarrow> nat option \<Rightarrow> string \<Rightarrow> string \<Rightarrow> bool \<Rightarrow> (nat option \<times> prop_area) option" where
  "find_property pa trie name value alloc_if_needed =
     (case trie of
        None \<Rightarrow> Some (None, pa)
      | Some cur \<Rightarrow> find_property_loop pa cur name name value alloc_if_needed)"

definition root_node :: "prop_area \<Rightarrow> nat option" where
  "root_node pa = to_prop_obj pa 0"

definition pa_find :: "prop_area \<Rightarrow> string \<Rightarrow> nat option option" where
  "pa_find pa name = map_option fst (find_property pa (root_node pa) name [] False)"

definition pa_add :: "prop_area \<Rightarrow> string \<Rightarrow> string \<Rightarrow> (bool \<times> prop_area) option" where
  "pa_add pa name value =
     map_option (\<lambda>(r, pa'). (r \<noteq> None, pa')) (find_property pa (root_node pa) name value True)"

text \<open>
  \<open>foreach_property\<close>: the callback is represented by the list of records it is called on,
  in order. The result of a recursive call is a \<^verbatim>\<open>bool\<close> that is stored in an \<^verbatim>\<open>int\<close> and
  tested for being negative, which it never is; the traversal goes on whatever it was.
\<close>

partial_function (option) foreach_property ::
  "prop_area \<Rightarrow> nat option \<Rightarrow> (bool \<times> nat list) option" where
  "foreach_property pa trie =
     (case trie of
        None \<Rightarrow> Some (False, [])
      | Some cur \<Rightarrow>
          (case deref_bt pa cur of
             None \<Rightarrow> None
           | Some b \<Rightarrow>
               Option.bind
                 (if bt_left b \<noteq> 0 then foreach_property pa (to_prop_obj pa (bt_left b))
                  else Some (True, []))
                 (\<lambda>(err1, xs).
                    if bt_prop b \<noteq> 0 \<and> to_prop_obj pa (bt_prop b) = None then Some (False, xs)
                    else
                      Option.bind
                        (if bt_children b \<noteq> 0
                         then foreach_property pa (to_prop_obj pa (bt_children b))
                         else Some (True, []))
                        (\<lambda>(err2, ys).
                           Option.bind
                             (if bt_right b \<noteq> 0
                              then foreach_property pa (to_prop_obj pa (bt_right b))
                              else Some (True, []))
                             (\<lambda>(err3, zs).
                                Some (True,
                                  xs @ (if bt_prop b \<noteq> 0 then [bt_prop b] else []) @ ys @ zs))))))"

definition pa_foreach :: "prop_area \<Rightarrow> (bool \<times> nat list) option" where
  "pa_foreach pa = foreach_property pa (root_node pa)"

end
