(* ===== verification/Prop_Trie.thy ===== *)
theory Prop_Trie
  imports Prop_Area "HOL-Library.Multiset"
begin

text \<open>
  The abstract value of a property area: search trees of tries, with the offsets at which
  their nodes lie. \<open>name_order\<close> states what the trees need of the comparison of names, and
  the laws of search, insertion and update are proved from it once; \<open>cmp_prop_name\<close> is the
  instance the property area uses. \<open>isrep\<close> says that a region holds a tree.
\<close>

section \<open>Tries of search trees\<close>

text \<open>A node: its offset, its name, the offset of its property (0 for none), the left
  siblings, the children, the right siblings.\<close>

datatype 'k ptree = Lf | Nd nat 'k nat "'k ptree" "'k ptree" "'k ptree"

fun tsearch :: "('k \<Rightarrow> 'k \<Rightarrow> int) \<Rightarrow> 'k ptree \<Rightarrow> 'k \<Rightarrow> (nat \<times> nat \<times> 'k ptree) option" where
  "tsearch cmp Lf k = None"
| "tsearch cmp (Nd off nm p l c r) k =
     (if cmp k nm = 0 then Some (off, p, c)
      else if cmp k nm < 0 then tsearch cmp l k
      else tsearch cmp r k)"

fun tinsert :: "('k \<Rightarrow> 'k \<Rightarrow> int) \<Rightarrow> 'k ptree \<Rightarrow> 'k \<Rightarrow> nat \<Rightarrow> 'k ptree" where
  "tinsert cmp Lf k n = Nd n k 0 Lf Lf Lf"
| "tinsert cmp (Nd off nm p l c r) k n =
     (if cmp k nm = 0 then Nd off nm p l c r
      else if cmp k nm < 0 then Nd off nm p (tinsert cmp l k n) c r
      else Nd off nm p l c (tinsert cmp r k n))"

fun tupdate :: "('k \<Rightarrow> 'k \<Rightarrow> int) \<Rightarrow> 'k ptree \<Rightarrow> 'k \<Rightarrow> nat \<Rightarrow> 'k ptree \<Rightarrow> 'k ptree" where
  "tupdate cmp Lf k p' c' = Lf"
| "tupdate cmp (Nd off nm p l c r) k p' c' =
     (if cmp k nm = 0 then Nd off nm p' l c' r
      else if cmp k nm < 0 then Nd off nm p (tupdate cmp l k p' c') c r
      else Nd off nm p l c (tupdate cmp r k p' c'))"

fun tkeys :: "'k ptree \<Rightarrow> 'k set" where
  "tkeys Lf = {}"
| "tkeys (Nd off nm p l c r) = insert nm (tkeys l \<union> tkeys r)"

fun torder :: "('k \<Rightarrow> 'k \<Rightarrow> int) \<Rightarrow> ('k \<Rightarrow> bool) \<Rightarrow> 'k ptree \<Rightarrow> bool" where
  "torder cmp ok Lf = True"
| "torder cmp ok (Nd off nm p l c r) =
     (ok nm \<and> (\<forall>x \<in> tkeys l. cmp x nm < 0) \<and> (\<forall>x \<in> tkeys r. cmp nm x < 0)
      \<and> torder cmp ok l \<and> torder cmp ok c \<and> torder cmp ok r)"

text \<open>Looking a path of tokens up: the offset of the property there, 0 when there is none.\<close>

fun tlookup :: "('k \<Rightarrow> 'k \<Rightarrow> int) \<Rightarrow> 'k ptree \<Rightarrow> 'k list \<Rightarrow> nat" where
  "tlookup cmp t [] = 0"
| "tlookup cmp t (k # ks) =
     (case tsearch cmp t k of
        None \<Rightarrow> 0
      | Some (off, p, c) \<Rightarrow> if ks = [] then p else tlookup cmp c ks)"

text \<open>The offsets a tree occupies.\<close>

definition plist :: "nat \<Rightarrow> nat list" where
  "plist p = (if p = 0 then [] else [p])"

fun offs :: "'k ptree \<Rightarrow> nat list" where
  "offs Lf = []"
| "offs (Nd off nm p l c r) = off # plist p @ offs l @ offs c @ offs r"

text \<open>The nodes of one level, and the properties of a whole tree in the order a traversal
  meets them.\<close>

fun tlevel :: "'k ptree \<Rightarrow> (nat \<times> 'k \<times> nat \<times> 'k ptree) set" where
  "tlevel Lf = {}"
| "tlevel (Nd off nm p l c r) = insert (off, nm, p, c) (tlevel l \<union> tlevel r)"

fun tprops :: "'k ptree \<Rightarrow> nat list" where
  "tprops Lf = []"
| "tprops (Nd off nm p l c r) = tprops l @ plist p @ tprops c @ tprops r"

lemma plist_0 [simp]: "plist 0 = []"
  by (simp add: plist_def)

lemma set_plist [simp]: "set (plist p) = (if p = 0 then {} else {p})"
  by (simp add: plist_def)

lemma distinct_plist [simp]: "distinct (plist p)"
  by (simp add: plist_def)

lemma tlevel_size: "(off, k, p, c) \<in> tlevel t \<Longrightarrow> size c < size t"
  by (induction t) auto

lemma set_tprops: "set (tprops t) = (\<Union>(off, k, p, c) \<in> tlevel t. set (plist p) \<union> set (tprops c))"
  by (induction t) (auto split: if_splits)

lemma tprops_nonzero: "p \<in> set (tprops t) \<Longrightarrow> p \<noteq> 0"
  by (induction t) (auto split: if_splits)

lemma tprops_offs: "set (tprops t) \<subseteq> set (offs t)"
  by (induction t) auto

lemma distinct_tprops: "distinct (offs t) \<Longrightarrow> distinct (tprops t)"
proof (induction t)
  case (Nd off nm p l c r)
  then show ?case using tprops_offs[of l] tprops_offs[of c] tprops_offs[of r] by auto
qed simp

lemma tsearch_offs:
  "tsearch cmp t k = Some (off, p, c) \<Longrightarrow>
     \<exists>R. mset (offs t) = mset (off # plist p @ offs c @ R)
       \<and> (\<forall>p' c'. mset (offs (tupdate cmp t k p' c')) = mset (off # plist p' @ offs c' @ R))"
proof (induction t)
  case (Nd off' nm p' l c' r)
  consider "cmp k nm = 0" | "cmp k nm < 0" | "cmp k nm > 0" by linarith
  then show ?case
  proof cases
    case 1
    with Nd.prems show ?thesis
      by (intro exI[of _ "offs l @ offs r"]) (auto simp: ac_simps)
  next
    case 2
    with Nd.prems Nd.IH(1) obtain R where "mset (offs l) = mset (off # plist p @ offs c @ R)"
      "\<forall>p' c'. mset (offs (tupdate cmp l k p' c')) = mset (off # plist p' @ offs c' @ R)" by auto
    with 2 show ?thesis
      by (intro exI[of _ "off' # plist p' @ offs c' @ offs r @ R"]) (auto simp: ac_simps)
  next
    case 3
    with Nd.prems Nd.IH(3) obtain R where "mset (offs r) = mset (off # plist p @ offs c @ R)"
      "\<forall>p' c'. mset (offs (tupdate cmp r k p' c')) = mset (off # plist p' @ offs c' @ R)" by auto
    with 3 show ?thesis
      by (intro exI[of _ "off' # plist p' @ offs c' @ offs l @ R"]) (auto simp: ac_simps)
  qed
qed simp

lemma tsearch_offs_sub:
  "tsearch cmp t k = Some (off, p, c) \<Longrightarrow> set (off # plist p @ offs c) \<subseteq> set (offs t)"
  by (auto dest!: tsearch_offs mset_eq_setD)

lemma mset_offs_tinsert:
  "tsearch cmp t k = None \<Longrightarrow> mset (offs (tinsert cmp t k n)) = mset (n # offs t)"
  by (induction t) (auto split: if_splits simp: ac_simps)

lemma set_offs_tinsert:
  "tsearch cmp t k = None \<Longrightarrow> set (offs (tinsert cmp t k n)) = insert n (set (offs t))"
  by (drule mset_offs_tinsert[of _ _ _ n]) (metis list.set(2) mset_eq_setD)

lemma distinct_offs_tinsert:
  "tsearch cmp t k = None \<Longrightarrow> distinct (offs (tinsert cmp t k n)) \<longleftrightarrow> distinct (n # offs t)"
  by (rule mset_eq_imp_distinct_iff) (rule mset_offs_tinsert)

lemma tkeys_tupdate [simp]: "tkeys (tupdate cmp t k p c) = tkeys t"
  by (induction t) auto

section \<open>The contract of the comparison\<close>

locale name_order =
  fixes cmp :: "'k \<Rightarrow> 'k \<Rightarrow> int" and ok :: "'k \<Rightarrow> bool"
  assumes cmp_zero: "ok a \<Longrightarrow> ok b \<Longrightarrow> cmp a b = 0 \<longleftrightarrow> a = b"
    and cmp_swap: "ok a \<Longrightarrow> ok b \<Longrightarrow> cmp a b < 0 \<longleftrightarrow> 0 < cmp b a"
    and cmp_trans: "ok a \<Longrightarrow> ok b \<Longrightarrow> ok c \<Longrightarrow> cmp a b < 0 \<Longrightarrow> cmp b c < 0 \<Longrightarrow> cmp a c < 0"
begin

lemma cmp_refl [simp]: "ok a \<Longrightarrow> cmp a a = 0"
  using cmp_zero by blast

lemma tkeys_ok: "torder cmp ok t \<Longrightarrow> x \<in> tkeys t \<Longrightarrow> ok x"
  by (induction t) auto

lemma tkeys_tinsert:
  "ok k \<Longrightarrow> torder cmp ok t \<Longrightarrow> tkeys (tinsert cmp t k n) = insert k (tkeys t)"
  by (induction t) (auto simp: cmp_zero)

lemma torder_tinsert: "ok k \<Longrightarrow> torder cmp ok t \<Longrightarrow> torder cmp ok (tinsert cmp t k n)"
proof (induction t)
  case (Nd off nm p l c r)
  have "cmp nm k < 0" if "cmp k nm \<noteq> 0" "\<not> cmp k nm < 0"
    using that cmp_swap[of nm k] Nd.prems by auto
  with Nd show ?case by (auto simp: tkeys_tinsert)
qed simp

lemma torder_tupdate:
  "torder cmp ok t \<Longrightarrow> torder cmp ok c' \<Longrightarrow> torder cmp ok (tupdate cmp t k p' c')"
  by (induction t) auto

lemma tsearch_torder:
  "torder cmp ok t \<Longrightarrow> tsearch cmp t k = Some (off, p, c) \<Longrightarrow> torder cmp ok c"
  by (induction t) (auto split: if_splits)

lemma tsearch_tinsert:
  "ok k \<Longrightarrow> ok x \<Longrightarrow> torder cmp ok t \<Longrightarrow> tsearch cmp t k = None \<Longrightarrow>
     tsearch cmp (tinsert cmp t k n) x = (if x = k then Some (n, 0, Lf) else tsearch cmp t x)"
proof (induction t)
  case Lf
  then show ?case using cmp_zero[of x k] by auto
next
  case (Nd off nm p l c r)
  then show ?case using cmp_zero[of x nm] cmp_zero[of k nm] by (auto split: if_splits)
qed

lemma tsearch_tupdate:
  "ok k \<Longrightarrow> ok x \<Longrightarrow> torder cmp ok t \<Longrightarrow> tsearch cmp t k = Some (off, p, c) \<Longrightarrow>
     tsearch cmp (tupdate cmp t k p' c') x
       = (if x = k then Some (off, p', c') else tsearch cmp t x)"
proof (induction t)
  case (Nd off' nm p' l c' r)
  then show ?case using cmp_zero[of x nm] cmp_zero[of k nm] by (auto split: if_splits)
qed simp

text \<open>Every node of a level is found by its name, and nothing else is.\<close>

lemma tlevel_tkeys: "(off, k, p, c) \<in> tlevel t \<Longrightarrow> k \<in> tkeys t"
  by (induction t) auto

lemma tsearch_tlevel:
  "torder cmp ok t \<Longrightarrow> ok k \<Longrightarrow> tsearch cmp t k = Some (off, p, c) \<longleftrightarrow> (off, k, p, c) \<in> tlevel t"
proof (induction t)
  case (Nd off' nm q l e r)
  have "(off, k, p, c) \<notin> tlevel r" if "cmp k nm \<le> 0"
    using that Nd.prems cmp_swap[of nm k] tlevel_tkeys[of off k p c r] by fastforce
  moreover have "(off, k, p, c) \<notin> tlevel l" if "cmp k nm \<ge> 0"
    using that Nd.prems tlevel_tkeys[of off k p c l] by fastforce
  ultimately show ?case
    using Nd cmp_zero[of k nm] by (auto split: if_splits)
qed simp

lemma tlevel_torder: "torder cmp ok t \<Longrightarrow> (off, k, p, c) \<in> tlevel t \<Longrightarrow> ok k \<and> torder cmp ok c"
  by (induction t) auto

text \<open>The properties of a tree are those its paths lead to.\<close>

lemma tprops_tlookup:
  "torder cmp ok t \<Longrightarrow>
     p \<in> set (tprops t) \<longleftrightarrow> p \<noteq> 0 \<and> (\<exists>ks. ks \<noteq> [] \<and> (\<forall>k \<in> set ks. ok k) \<and> tlookup cmp t ks = p)"
proof (induction t rule: measure_induct_rule[of size])
  case (less t)
  have IH: "p \<in> set (tprops c) \<longleftrightarrow>
      p \<noteq> 0 \<and> (\<exists>ks. ks \<noteq> [] \<and> (\<forall>k \<in> set ks. ok k) \<and> tlookup cmp c ks = p)"
    if "(off, k, q, c) \<in> tlevel t" for off k q c
    using less.IH[of c] tlevel_size[OF that] tlevel_torder[OF less.prems that] by auto
  show ?case
  proof
    assume p: "p \<in> set (tprops t)"
    then have p0: "p \<noteq> 0" by (rule tprops_nonzero)
    from p obtain off k q c where n: "(off, k, q, c) \<in> tlevel t" "p = q \<or> p \<in> set (tprops c)"
      by (auto simp: set_tprops[of t] split: if_splits)
    have k: "ok k" "tsearch cmp t k = Some (off, q, c)"
      using n less.prems tlevel_torder tsearch_tlevel by blast+
    show "p \<noteq> 0 \<and> (\<exists>ks. ks \<noteq> [] \<and> (\<forall>k \<in> set ks. ok k) \<and> tlookup cmp t ks = p)"
    proof (cases "p = q")
      case True
      with n p0 k show ?thesis by (intro conjI exI[of _ "[k]"]) auto
    next
      case False
      with n IH[OF n(1)] obtain ks where "ks \<noteq> []" "\<forall>k \<in> set ks. ok k" "tlookup cmp c ks = p" by auto
      with n p0 k show ?thesis by (intro conjI exI[of _ "k # ks"]) auto
    qed
  next
    assume "p \<noteq> 0 \<and> (\<exists>ks. ks \<noteq> [] \<and> (\<forall>k \<in> set ks. ok k) \<and> tlookup cmp t ks = p)"
    then obtain ks0 where p: "p \<noteq> 0" and ks0: "ks0 \<noteq> []" "\<forall>k \<in> set ks0. ok k" "tlookup cmp t ks0 = p"
      by blast
    then obtain k ks where ks: "ok k" "\<forall>k \<in> set ks. ok k" "tlookup cmp t (k # ks) = p"
      by (cases ks0) auto
    then obtain off q c where f: "tsearch cmp t k = Some (off, q, c)"
      using p by (cases "tsearch cmp t k") auto
    then have lv: "(off, k, q, c) \<in> tlevel t" using tsearch_tlevel less.prems ks(1) by blast
    have "p = q \<or> p \<in> set (tprops c)"
      using p ks f IH[OF lv] by (auto split: if_splits)
    with lv p show "p \<in> set (tprops t)" by (subst set_tprops) force
  qed
qed

end

section \<open>The comparison of the property area\<close>

definition name_ok :: "string \<Rightarrow> bool" where
  "name_ok s = (s \<noteq> [] \<and> NUL \<notin> set s \<and> CHR ''.'' \<notin> set s)"

lemma strncmp_eq_length_zero:
  "length a = length b \<Longrightarrow> NUL \<notin> set a \<Longrightarrow> strncmp a b (length a) = 0 \<longleftrightarrow> a = b"
proof (induction a b rule: list_induct2)
  case (Cons x xs y ys)
  have "x \<noteq> y \<Longrightarrow> (of_char x :: nat) \<noteq> of_char y" by simp
  with Cons show ?case by auto
qed simp

lemma strncmp_swap: "strncmp a b n = - strncmp b a n"
  by (induction a b n rule: strncmp.induct) auto

lemma strncmp_trans:
  "length a = n \<Longrightarrow> length b = n \<Longrightarrow> length c = n \<Longrightarrow>
     NUL \<notin> set a \<Longrightarrow> NUL \<notin> set b \<Longrightarrow> NUL \<notin> set c \<Longrightarrow>
     strncmp a b n < 0 \<Longrightarrow> strncmp b c n < 0 \<Longrightarrow> strncmp a c n < 0"
proof (induction n arbitrary: a b c)
  case (Suc n)
  then obtain x xs y ys z zs where abc: "a = x # xs" "b = y # ys" "c = z # zs"
    by (metis length_Suc_conv)
  have "(of_char u :: nat) \<noteq> of_char v" if "u \<noteq> v" for u v :: char
    using that by simp
  then have neq: "u = v" if "(of_char u :: nat) = of_char v" for u v :: char
    using that by blast
  show ?case
  proof (cases "x = y \<and> y = z")
    case True
    with Suc.prems abc have "strncmp xs zs n < 0"
      by (intro Suc.IH[of xs ys zs]) auto
    with True Suc.prems abc show ?thesis by (auto split: if_splits)
  next
    case False
    from Suc.prems abc have "x = y \<or> (of_char x :: nat) < of_char y"
      and "y = z \<or> (of_char y :: nat) < of_char z"
      by (auto split: if_splits)
    with False have "(of_char x :: nat) < of_char z" by force
    then show ?thesis using abc by auto
  qed
qed simp

interpretation pn: name_order cmp_prop_name name_ok
proof
  fix a b c :: string
  assume ok: "name_ok a" "name_ok b"
  show "cmp_prop_name a b = 0 \<longleftrightarrow> a = b"
    using ok strncmp_eq_length_zero[of a b] by (auto simp: cmp_prop_name_def name_ok_def)
  show "cmp_prop_name a b < 0 \<longleftrightarrow> 0 < cmp_prop_name b a"
    using strncmp_swap[of a b "length a"] by (auto simp: cmp_prop_name_def)
  assume "name_ok c" "cmp_prop_name a b < 0" "cmp_prop_name b c < 0"
  then show "cmp_prop_name a c < 0"
    using ok strncmp_trans[of a "length a" b c]
    by (auto simp: cmp_prop_name_def name_ok_def split: if_splits)
qed

abbreviation "bsearch \<equiv> tsearch cmp_prop_name"
abbreviation "binsert \<equiv> tinsert cmp_prop_name"
abbreviation "bupdate \<equiv> tupdate cmp_prop_name"
abbreviation "border \<equiv> torder cmp_prop_name name_ok"
abbreviation "plookup \<equiv> tlookup cmp_prop_name"

section \<open>Trees in a region\<close>

fun isrep :: "(nat \<Rightarrow> prop_obj option) \<Rightarrow> nat \<Rightarrow> string ptree \<Rightarrow> bool" where
  "isrep d off Lf = (off = 0)"
| "isrep d off (Nd a nm p l c r) =
     (off = a \<and> a \<noteq> 0
      \<and> (\<exists>b. d a = Some (Bt b) \<and> bt_name b = nm \<and> bt_prop b = p
           \<and> isrep d (bt_left b) l \<and> isrep d (bt_children b) c \<and> isrep d (bt_right b) r)
      \<and> (p \<noteq> 0 \<longrightarrow> (\<exists>i. d p = Some (Info i))))"

lemma isrep_frame: "(\<And>x. x \<in> set (offs t) \<Longrightarrow> d' x = d x) \<Longrightarrow> isrep d' off t = isrep d off t"
  by (induction t arbitrary: off) auto

lemma isrep_0 [simp]: "isrep d 0 t \<longleftrightarrow> t = Lf"
  by (cases t) auto

lemma isrep_tsearch:
  "isrep d off t \<Longrightarrow> bsearch t k = Some (a, p, c) \<Longrightarrow>
     a \<noteq> 0 \<and> (\<exists>b. d a = Some (Bt b) \<and> bt_prop b = p \<and> isrep d (bt_children b) c)
     \<and> (p \<noteq> 0 \<longrightarrow> (\<exists>i. d p = Some (Info i)))"
  by (induction t arbitrary: off) (auto split: if_splits)

text \<open>Replacing the property and the children of one node.\<close>

lemma isrep_tupdate:
  assumes "isrep d off t" "bsearch t k = Some (a, p, c)" "distinct (offs t)"
    and same: "\<And>x. x \<in> set (offs t) \<Longrightarrow> x \<noteq> a \<Longrightarrow> x \<notin> set (offs c) \<Longrightarrow> d' x = d x"
    and node: "d a = Some (Bt b)" "d' a = Some (Bt b')" "bt_name b' = bt_name b"
      "bt_left b' = bt_left b" "bt_right b' = bt_right b"
    and new: "bt_prop b' = p'" "isrep d' (bt_children b') c'" "p' \<noteq> 0 \<Longrightarrow> \<exists>i. d' p' = Some (Info i)"
  shows "isrep d' off (bupdate t k p' c')"
  using assms(1-3) same
proof (induction t arbitrary: off)
  case (Nd a' nm q l e r)
  have dis: "distinct (a' # plist q @ offs l @ offs e @ offs r)" using Nd.prems(3) by simp
  consider "cmp_prop_name k nm = 0" | "cmp_prop_name k nm < 0" | "cmp_prop_name k nm > 0"
    by linarith
  then show ?case
  proof cases
    case 1
    with Nd.prems have eq: "a' = a" "q = p" "e = c" by auto
    have "isrep d' (bt_left b) l \<longleftrightarrow> isrep d (bt_left b) l"
      by (rule isrep_frame) (use dis eq Nd.prems(4) in auto)
    moreover have "isrep d' (bt_right b) r \<longleftrightarrow> isrep d (bt_right b) r"
      by (rule isrep_frame) (use dis eq Nd.prems(4) in auto)
    ultimately show ?thesis using 1 eq Nd.prems(1) node new by auto
  next
    case 2
    then have f: "bsearch l k = Some (a, p, c)" using Nd.prems by simp
    note sub = tsearch_offs_sub[OF f]
    from Nd.prems(1) obtain b0 where b0: "d a' = Some (Bt b0)" "bt_name b0 = nm" "bt_prop b0 = q"
      "isrep d (bt_left b0) l" "isrep d (bt_children b0) e" "isrep d (bt_right b0) r" by auto
    have "isrep d' (bt_left b0) (bupdate l k p' c')"
      by (rule Nd.IH(1)) (use b0 f dis Nd.prems(4) in auto)
    moreover have "isrep d' (bt_children b0) e \<longleftrightarrow> isrep d (bt_children b0) e"
      by (rule isrep_frame, rule Nd.prems(4)) (use dis sub in auto)
    moreover have "isrep d' (bt_right b0) r \<longleftrightarrow> isrep d (bt_right b0) r"
      by (rule isrep_frame, rule Nd.prems(4)) (use dis sub in auto)
    moreover have "d' a' = d a'" by (rule Nd.prems(4)) (use dis sub in auto)
    moreover have "q \<noteq> 0 \<Longrightarrow> d' q = d q"
      by (rule Nd.prems(4)) (use dis sub in \<open>auto split: if_splits\<close>)
    ultimately show ?thesis using 2 b0 Nd.prems(1) by auto
  next
    case 3
    then have f: "bsearch r k = Some (a, p, c)" using Nd.prems by simp
    note sub = tsearch_offs_sub[OF f]
    from Nd.prems(1) obtain b0 where b0: "d a' = Some (Bt b0)" "bt_name b0 = nm" "bt_prop b0 = q"
      "isrep d (bt_left b0) l" "isrep d (bt_children b0) e" "isrep d (bt_right b0) r" by auto
    have "isrep d' (bt_right b0) (bupdate r k p' c')"
      by (rule Nd.IH(3)) (use b0 f dis Nd.prems(4) in auto)
    moreover have "isrep d' (bt_children b0) e \<longleftrightarrow> isrep d (bt_children b0) e"
      by (rule isrep_frame, rule Nd.prems(4)) (use dis sub in auto)
    moreover have "isrep d' (bt_left b0) l \<longleftrightarrow> isrep d (bt_left b0) l"
      by (rule isrep_frame, rule Nd.prems(4)) (use dis sub in auto)
    moreover have "d' a' = d a'" by (rule Nd.prems(4)) (use dis sub in auto)
    moreover have "q \<noteq> 0 \<Longrightarrow> d' q = d q"
      by (rule Nd.prems(4)) (use dis sub in \<open>auto split: if_splits\<close>)
    ultimately show ?thesis using 3 b0 Nd.prems(1) by auto
  qed
qed simp

end
