(* ===== verification/Prop_Area_Correct.thy ===== *)
theory Prop_Area_Correct
  imports Prop_Trie
begin

text \<open>
  Correctness of the operations of a property area: the search and the insertion at every
  level of the trie, and the invariant \<open>wf_area\<close> under which \<open>find\<close>, \<open>add\<close> and \<open>foreach\<close>
  terminate without leaving the objects of the area.
\<close>

section \<open>Allocation\<close>

lemma BIONIC_ALIGN_ge: "v \<le> BIONIC_ALIGN v 4"
  unfolding BIONIC_ALIGN_def by presburger

lemma BIONIC_ALIGN_bounds: "BIONIC_ALIGN v 4 < v + 4" "BIONIC_ALIGN v 4 mod 4 = 0"
  unfolding BIONIC_ALIGN_def by presburger+

definition need_bt :: "string \<Rightarrow> nat" where
  "need_bt nm = BIONIC_ALIGN (sizeof_prop_bt + length nm + 1) 4"

definition need_info :: "string \<Rightarrow> nat" where
  "need_info nm = BIONIC_ALIGN (sizeof_prop_info + length nm + 1) 4"

lemma need_pos: "0 < need_bt nm" "0 < need_info nm"
  using BIONIC_ALIGN_ge[of "sizeof_prop_bt + length nm + 1"]
    BIONIC_ALIGN_ge[of "sizeof_prop_info + length nm + 1"]
  by (auto simp: need_bt_def need_info_def)

text \<open>What allocations leave alone: the header, and every object already placed.\<close>

definition extends :: "prop_area \<Rightarrow> prop_area \<Rightarrow> bool" where
  "extends pa pa' \<longleftrightarrow>
     pa_data_size pa' = pa_data_size pa \<and> area_serial pa' = area_serial pa
     \<and> pa_magic pa' = pa_magic pa \<and> pa_version pa' = pa_version pa
     \<and> bytes_used pa \<le> bytes_used pa'
     \<and> (bytes_used pa \<le> pa_data_size pa \<longrightarrow> bytes_used pa' \<le> pa_data_size pa)
     \<and> (\<forall>x i. x < bytes_used pa \<longrightarrow> pa_data pa x = Some (Info i) \<longrightarrow> pa_data pa' x = Some (Info i))"

lemma extends_refl [simp]: "extends pa pa"
  by (simp add: extends_def)

lemma extends_trans: "extends pa pa' \<Longrightarrow> extends pa' pa'' \<Longrightarrow> extends pa pa''"
  by (auto simp: extends_def)

lemma put_obj_sel [simp]:
  "bytes_used (put_obj off x pa) = bytes_used pa"
  "area_serial (put_obj off x pa) = area_serial pa"
  "pa_magic (put_obj off x pa) = pa_magic pa"
  "pa_version (put_obj off x pa) = pa_version pa"
  "pa_data_size (put_obj off x pa) = pa_data_size pa"
  "pa_data (put_obj off x pa) = (pa_data pa)(off \<mapsto> x)"
  by (simp_all add: put_obj_def)

lemma allocate_obj_None:
  "allocate_obj pa sz = None \<longleftrightarrow> pa_data_size pa < bytes_used pa + BIONIC_ALIGN sz 4"
  by (simp add: allocate_obj_def Let_def)

lemma new_prop_bt_None:
  "new_prop_bt pa nm = None \<longleftrightarrow> pa_data_size pa < bytes_used pa + need_bt nm"
  by (auto simp: new_prop_bt_def need_bt_def allocate_obj_def Let_def)

lemma new_prop_info_None:
  "new_prop_info pa nm v = None \<longleftrightarrow> pa_data_size pa < bytes_used pa + need_info nm"
  by (auto simp: new_prop_info_def need_info_def allocate_obj_def Let_def)

lemma new_prop_bt_Some:
  "new_prop_bt pa nm = Some (n, pa') \<Longrightarrow>
     n = bytes_used pa \<and> bytes_used pa' = bytes_used pa + need_bt nm \<and> extends pa pa'
     \<and> pa_data pa' = (pa_data pa)(n \<mapsto> Bt (mk_prop_bt nm))"
  by (auto simp: new_prop_bt_def need_bt_def allocate_obj_def Let_def extends_def
      split: option.splits if_splits)

lemma new_prop_info_Some:
  "new_prop_info pa nm v = Some (n, pa') \<Longrightarrow>
     n = bytes_used pa \<and> bytes_used pa' = bytes_used pa + need_info nm \<and> extends pa pa'
     \<and> pa_data pa' = (pa_data pa)(n \<mapsto> Info (mk_prop_info nm v))"
  by (auto simp: new_prop_info_def need_info_def allocate_obj_def Let_def extends_def
      split: option.splits if_splits)

lemma mk_prop_bt_sel [simp]:
  "bt_name (mk_prop_bt nm) = nm" "bt_prop (mk_prop_bt nm) = 0" "bt_left (mk_prop_bt nm) = 0"
  "bt_right (mk_prop_bt nm) = 0" "bt_children (mk_prop_bt nm) = 0"
  by (simp_all add: mk_prop_bt_def)

lemma deref_bt_iff: "deref_bt pa x = Some b \<longleftrightarrow> pa_data pa x = Some (Bt b)"
  by (auto simp: deref_bt_def split: option.splits prop_obj.splits)

lemma deref_info_iff: "deref_info pa x = Some i \<longleftrightarrow> pa_data pa x = Some (Info i)"
  by (auto simp: deref_info_def split: option.splits prop_obj.splits)

section \<open>One level of the trie\<close>

lemma find_prop_bt_hit:
  "isrep (pa_data pa) off t \<Longrightarrow> \<forall>x \<in> set (offs t). x \<le> pa_data_size pa \<Longrightarrow>
     bsearch t k = Some (a, p, c) \<Longrightarrow> find_prop_bt pa (Some off) k al = Some (Some a, pa)"
proof (induction t arbitrary: off)
  case (Nd a' nm q l e r)
  from Nd.prems(1) obtain b where b: "off = a'" "pa_data pa a' = Some (Bt b)" "bt_name b = nm"
    "isrep (pa_data pa) (bt_left b) l" "isrep (pa_data pa) (bt_right b) r" by auto
  have l: "l \<noteq> Lf \<Longrightarrow> bt_left b \<noteq> 0 \<and> bt_left b \<le> pa_data_size pa"
    using b Nd.prems(2) by (cases l) auto
  have r: "r \<noteq> Lf \<Longrightarrow> bt_right b \<noteq> 0 \<and> bt_right b \<le> pa_data_size pa"
    using b Nd.prems(2) by (cases r) auto
  consider "cmp_prop_name k nm = 0" | "cmp_prop_name k nm < 0" | "cmp_prop_name k nm > 0"
    by linarith
  then show ?case
  proof cases
    case 1
    with b Nd.prems(3) show ?thesis
      by (subst find_prop_bt.simps) (simp add: deref_bt_iff[THEN iffD2])
  next
    case 2
    with Nd.prems(3) have "bsearch l k = Some (a, p, c)" and "l \<noteq> Lf" by auto
    with 2 b l Nd show ?thesis
      by (subst find_prop_bt.simps) (simp add: deref_bt_iff[THEN iffD2] to_prop_obj_def)
  next
    case 3
    with Nd.prems(3) have "bsearch r k = Some (a, p, c)" and "r \<noteq> Lf" by auto
    with 3 b r Nd show ?thesis
      by (subst find_prop_bt.simps) (simp add: deref_bt_iff[THEN iffD2] to_prop_obj_def)
  qed
qed simp

lemma find_prop_bt_miss:
  "isrep (pa_data pa) off t \<Longrightarrow> \<forall>x \<in> set (offs t). x \<le> pa_data_size pa \<Longrightarrow> off \<noteq> 0 \<Longrightarrow>
     bsearch t k = None \<Longrightarrow> \<not> al \<or> new_prop_bt pa k = None \<Longrightarrow>
     find_prop_bt pa (Some off) k al = Some (None, pa)"
proof (induction t arbitrary: off)
  case (Nd a' nm q l e r)
  from Nd.prems(1) obtain b where b: "off = a'" "pa_data pa a' = Some (Bt b)" "bt_name b = nm"
    "isrep (pa_data pa) (bt_left b) l" "isrep (pa_data pa) (bt_right b) r" by auto
  have l: "bt_left b \<le> pa_data_size pa" using b Nd.prems(2) by (cases l) auto
  have r: "bt_right b \<le> pa_data_size pa" using b Nd.prems(2) by (cases r) auto
  have d: "deref_bt pa a' = Some b" using b by (simp add: deref_bt_iff)
  consider "cmp_prop_name k nm < 0" | "cmp_prop_name k nm > 0"
    using Nd.prems(4) by (auto split: if_splits)
  then show ?case
  proof cases
    case 1
    have "bt_left b \<noteq> 0 \<Longrightarrow> find_prop_bt pa (Some (bt_left b)) k al = Some (None, pa)"
      using 1 b Nd by (intro Nd.IH(1)) auto
    with 1 b l d Nd.prems(5) show ?thesis
      by (subst find_prop_bt.simps) (auto simp: to_prop_obj_def)
  next
    case 2
    have "bt_right b \<noteq> 0 \<Longrightarrow> find_prop_bt pa (Some (bt_right b)) k al = Some (None, pa)"
      using 2 b Nd by (intro Nd.IH(3)) auto
    with 2 b r d Nd.prems(5) show ?thesis
      by (subst find_prop_bt.simps) (auto simp: to_prop_obj_def)
  qed
qed simp

lemma isrep_set_left:
  assumes "isrep d off (Nd a nm q l e r)" "d a = Some (Bt b)"
    and "d' a = Some (Bt (b\<lparr>bt_left := x\<rparr>))" "isrep d' x l'"
    and same: "\<And>y. y \<in> set (plist q @ offs e @ offs r) \<Longrightarrow> d' y = d y"
  shows "isrep d' off (Nd a nm q l' e r)"
proof -
  have "isrep d' (bt_children b) e = isrep d (bt_children b) e"
    by (rule isrep_frame, rule same) simp
  moreover have "isrep d' (bt_right b) r = isrep d (bt_right b) r"
    by (rule isrep_frame, rule same) simp
  moreover have "q \<noteq> 0 \<Longrightarrow> d' q = d q" by (rule same) simp
  ultimately show ?thesis using assms(1-4) by auto
qed

lemma isrep_set_right:
  assumes "isrep d off (Nd a nm q l e r)" "d a = Some (Bt b)"
    and "d' a = Some (Bt (b\<lparr>bt_right := x\<rparr>))" "isrep d' x r'"
    and same: "\<And>y. y \<in> set (plist q @ offs l @ offs e) \<Longrightarrow> d' y = d y"
  shows "isrep d' off (Nd a nm q l e r')"
proof -
  have "isrep d' (bt_children b) e = isrep d (bt_children b) e"
    by (rule isrep_frame, rule same) simp
  moreover have "isrep d' (bt_left b) l = isrep d (bt_left b) l"
    by (rule isrep_frame, rule same) simp
  moreover have "q \<noteq> 0 \<Longrightarrow> d' q = d q" by (rule same) simp
  ultimately show ?thesis using assms(1-4) by auto
qed

lemma isrep_new_leaf:
  "n \<noteq> 0 \<Longrightarrow> d n = Some (Bt (mk_prop_bt k)) \<Longrightarrow> isrep d n (Nd n k 0 Lf Lf Lf)"
  by simp

text \<open>
  \<open>inserted pa pa' off t k n r\<close>: the search has put the new node \<open>n\<close> into the tree, by
  changing one reference of one node of it.
\<close>

definition inserted :: "prop_area \<Rightarrow> prop_area \<Rightarrow> nat \<Rightarrow> string ptree \<Rightarrow> string \<Rightarrow> nat \<Rightarrow> bool" where
  "inserted pa pa' off t k n \<longleftrightarrow>
     (\<exists>cur b b0. find_prop_bt pa (Some off) k True = Some (Some n, put_obj cur (Bt b) pa')
       \<and> cur \<in> set (offs t) \<and> pa_data pa cur = Some (Bt b0)
       \<and> isrep ((pa_data pa')(cur \<mapsto> Bt b)) off (binsert t k n))"

lemma insertedI:
  "find_prop_bt pa (Some off) k True = Some (Some n, put_obj cur (Bt b) pa') \<Longrightarrow>
     isrep ((pa_data pa')(cur \<mapsto> Bt b)) off t' \<Longrightarrow> t' = binsert t k n \<Longrightarrow>
     cur \<in> set (offs t) \<Longrightarrow> pa_data pa cur = Some (Bt b0) \<Longrightarrow> inserted pa pa' off t k n"
  unfolding inserted_def by blast

lemma find_prop_bt_new:
  assumes new: "new_prop_bt pa k = Some (n, pa')" and n: "n \<noteq> 0"
  shows "isrep (pa_data pa) off t \<Longrightarrow> \<forall>x \<in> set (offs t). x \<le> pa_data_size pa \<Longrightarrow> off \<noteq> 0 \<Longrightarrow>
     distinct (n # offs t) \<Longrightarrow> bsearch t k = None \<Longrightarrow> inserted pa pa' off t k n"
proof (induction t arbitrary: off)
  case (Nd a nm q l e r)
  have data: "pa_data pa' = (pa_data pa)(n \<mapsto> Bt (mk_prop_bt k))"
    using new_prop_bt_Some[OF new] by simp
  from Nd.prems(1) obtain b where b: "off = a" "pa_data pa a = Some (Bt b)" "bt_name b = nm"
    "isrep (pa_data pa) (bt_left b) l" "isrep (pa_data pa) (bt_right b) r" by auto
  have d: "deref_bt pa a = Some b" using b by (simp add: deref_bt_iff)
  have dis: "distinct (n # a # plist q @ offs l @ offs e @ offs r)"
    using Nd.prems(4) by simp
  consider (left) "cmp_prop_name k nm < 0" | (right) "cmp_prop_name k nm > 0"
    using Nd.prems(5) by (auto split: if_splits)
  then show ?case
  proof cases
    case left
    show ?thesis
    proof (cases "bt_left b = 0")
      case True
      let ?d = "(pa_data pa')(a \<mapsto> Bt (b\<lparr>bt_left := n\<rparr>))"
      have "isrep ?d off (Nd a nm q (Nd n k 0 Lf Lf Lf) e r)"
        by (rule isrep_set_left[OF Nd.prems(1) b(2)], simp, rule isrep_new_leaf[OF n])
          (use dis in \<open>auto simp: data\<close>)
      then show ?thesis
        by (rule insertedI[rotated])
          (use left True b d new in \<open>simp_all add: Let_def find_prop_bt.simps[of pa "Some a" k True]\<close>)
    next
      case False
      have le: "bt_left b \<le> pa_data_size pa" using False b(4) Nd.prems(2) by (cases l) auto
      have "inserted pa pa' (bt_left b) l k n"
        by (rule Nd.IH(1)) (use left False b dis Nd.prems(2,5) in auto)
      then obtain cur b' b0 where ih:
        "find_prop_bt pa (Some (bt_left b)) k True = Some (Some n, put_obj cur (Bt b') pa')"
        "cur \<in> set (offs l)" "pa_data pa cur = Some (Bt b0)"
        "isrep ((pa_data pa')(cur \<mapsto> Bt b')) (bt_left b) (binsert l k n)"
        by (auto simp: inserted_def)
      have "isrep ((pa_data pa')(cur \<mapsto> Bt b')) off (Nd a nm q (binsert l k n) e r)"
        by (rule isrep_set_left[OF Nd.prems(1) b(2) _ ih(4)]) (use ih(2) b dis in \<open>auto simp: data\<close>)
      then show ?thesis
        by (rule insertedI[rotated])
          (use left False b d le ih in \<open>simp_all add: Let_def to_prop_obj_def find_prop_bt.simps[of pa "Some a" k True]\<close>)
    qed
  next
    case right
    show ?thesis
    proof (cases "bt_right b = 0")
      case True
      let ?d = "(pa_data pa')(a \<mapsto> Bt (b\<lparr>bt_right := n\<rparr>))"
      have "isrep ?d off (Nd a nm q l e (Nd n k 0 Lf Lf Lf))"
        by (rule isrep_set_right[OF Nd.prems(1) b(2)], simp, rule isrep_new_leaf[OF n])
          (use dis in \<open>auto simp: data\<close>)
      then show ?thesis
        by (rule insertedI[rotated])
          (use right True b d new in \<open>simp_all add: Let_def find_prop_bt.simps[of pa "Some a" k True]\<close>)
    next
      case False
      have le: "bt_right b \<le> pa_data_size pa" using False b(5) Nd.prems(2) by (cases r) auto
      have "inserted pa pa' (bt_right b) r k n"
        by (rule Nd.IH(3)) (use right False b dis Nd.prems(2,5) in auto)
      then obtain cur b' b0 where ih:
        "find_prop_bt pa (Some (bt_right b)) k True = Some (Some n, put_obj cur (Bt b') pa')"
        "cur \<in> set (offs r)" "pa_data pa cur = Some (Bt b0)"
        "isrep ((pa_data pa')(cur \<mapsto> Bt b')) (bt_right b) (binsert r k n)"
        by (auto simp: inserted_def)
      have "isrep ((pa_data pa')(cur \<mapsto> Bt b')) off (Nd a nm q l e (binsert r k n))"
        by (rule isrep_set_right[OF Nd.prems(1) b(2) _ ih(4)]) (use ih(2) b dis in \<open>auto simp: data\<close>)
      then show ?thesis
        by (rule insertedI[rotated])
          (use right False b d le ih in \<open>simp_all add: Let_def to_prop_obj_def find_prop_bt.simps[of pa "Some a" k True]\<close>)
    qed
  qed
qed simp

section \<open>A node and the trie below it\<close>

definition node_inv :: "prop_area \<Rightarrow> nat \<Rightarrow> string ptree \<Rightarrow> bool" where
  "node_inv pa cur c \<longleftrightarrow>
     (\<exists>b. pa_data pa cur = Some (Bt b) \<and> isrep (pa_data pa) (bt_children b) c)
     \<and> distinct (cur # offs c) \<and> (\<forall>x \<in> set (offs c). x < bytes_used pa)
     \<and> cur < bytes_used pa \<and> bytes_used pa \<le> pa_data_size pa \<and> border c"

text \<open>
  \<open>evolves\<close>: an operation below a node changes that node's reference to its children and
  the objects of its subtree only, and takes new objects from the free part of the region.
\<close>

definition evolves ::
  "prop_area \<Rightarrow> prop_area \<Rightarrow> nat \<Rightarrow> string ptree \<Rightarrow> string ptree \<Rightarrow> bool" where
  "evolves pa pa' cur c c' \<longleftrightarrow>
     extends pa pa'
     \<and> (\<forall>x. x \<notin> set (cur # offs c) \<longrightarrow> x < bytes_used pa \<longrightarrow> pa_data pa' x = pa_data pa x)
     \<and> (\<forall>x \<in> set (offs c'). x \<in> set (offs c) \<or> bytes_used pa \<le> x)
     \<and> (\<exists>b b'. pa_data pa cur = Some (Bt b) \<and> pa_data pa' cur = Some (Bt b')
          \<and> bt_name b' = bt_name b \<and> bt_prop b' = bt_prop b
          \<and> bt_left b' = bt_left b \<and> bt_right b' = bt_right b)"

lemma evolves_refl: "node_inv pa cur c \<Longrightarrow> evolves pa pa cur c c"
  by (auto simp: evolves_def node_inv_def)

lemma evolves_trans:
  assumes 1: "evolves pa pa1 cur c c1" and 2: "evolves pa1 pa2 cur c1 c2"
  shows "evolves pa pa2 cur c c2"
proof -
  have le: "bytes_used pa \<le> bytes_used pa1" using 1 by (simp add: evolves_def extends_def)
  have "pa_data pa2 x = pa_data pa x" if "x \<notin> set (cur # offs c)" "x < bytes_used pa" for x
  proof -
    have "pa_data pa1 x = pa_data pa x" using 1 that by (simp add: evolves_def)
    moreover have "x \<notin> set (cur # offs c1)" using 1 that by (auto simp: evolves_def)
    ultimately show ?thesis using 2 that(2) le by (simp add: evolves_def)
  qed
  moreover have "x \<in> set (offs c) \<or> bytes_used pa \<le> x" if "x \<in> set (offs c2)" for x
    using 1 2 that le unfolding evolves_def by (meson le_trans)
  moreover have "extends pa pa2" using 1 2 extends_trans by (auto simp: evolves_def)
  moreover have "\<exists>b b'. pa_data pa cur = Some (Bt b) \<and> pa_data pa2 cur = Some (Bt b')
          \<and> bt_name b' = bt_name b \<and> bt_prop b' = bt_prop b
          \<and> bt_left b' = bt_left b \<and> bt_right b' = bt_right b"
    using 1 2 unfolding evolves_def by force
  ultimately show ?thesis unfolding evolves_def by blast
qed

lemma node_inv_child:
  assumes "node_inv pa cur c" "bsearch c s = Some (a, p, cc)"
  shows "node_inv pa a cc"
proof -
  obtain b :: prop_bt where b: "isrep (pa_data pa) (bt_children b) c"
    using assms(1) unfolding node_inv_def by blast
  obtain R where R: "mset (offs c) = mset (a # plist p @ offs cc @ R)"
    using tsearch_offs[OF assms(2)] by blast
  have "distinct (a # plist p @ offs cc @ R)"
    using mset_eq_imp_distinct_iff[OF R] assms(1) by (simp add: node_inv_def)
  moreover have "\<forall>x \<in> set (a # offs cc). x < bytes_used pa"
    using tsearch_offs_sub[OF assms(2)] assms(1) by (auto simp: node_inv_def)
  moreover have "border cc" using pn.tsearch_torder assms by (auto simp: node_inv_def)
  ultimately show ?thesis
    using isrep_tsearch[OF b assms(2)] assms(1) by (auto simp: node_inv_def)
qed

text \<open>A change at one child lifts to the parent.\<close>

lemma evolves_child:
  assumes inv: "node_inv pa cur c" and f: "bsearch c s = Some (a, p, cc)"
    and ext: "extends pa pa'"
    and same: "\<And>x. x \<notin> set (a # offs cc) \<Longrightarrow> x < bytes_used pa \<Longrightarrow> pa_data pa' x = pa_data pa x"
    and node: "pa_data pa a = Some (Bt b)" "pa_data pa' a = Some (Bt b')"
      "bt_name b' = bt_name b" "bt_left b' = bt_left b" "bt_right b' = bt_right b"
    and new: "bt_prop b' = p'" "isrep (pa_data pa') (bt_children b') cc'"
      "p' \<noteq> 0 \<Longrightarrow> \<exists>i. pa_data pa' p' = Some (Info i)"
    and fresh: "\<And>x. x \<in> set (plist p' @ offs cc') \<Longrightarrow>
        x \<in> set (plist p @ offs cc) \<or> bytes_used pa \<le> x"
      "\<And>x. x \<in> set (plist p' @ offs cc') \<Longrightarrow> x < bytes_used pa'"
    and dis: "distinct (a # plist p' @ offs cc')" and ord: "border cc'"
  shows "node_inv pa' cur (bupdate c s p' cc') \<and> evolves pa pa' cur c (bupdate c s p' cc')"
proof -
  let ?c = "bupdate c s p' cc'"
  obtain b0 where b0: "pa_data pa cur = Some (Bt b0)" "isrep (pa_data pa) (bt_children b0) c"
    using inv by (auto simp: node_inv_def)
  obtain R where R: "mset (offs c) = mset (a # plist p @ offs cc @ R)"
    "mset (offs ?c) = mset (a # plist p' @ offs cc' @ R)"
    using tsearch_offs[OF f] by blast
  have dR: "distinct (a # plist p @ offs cc @ R)" "\<forall>x \<in> set R. x < bytes_used pa"
    and sR: "set (offs c) = set (a # plist p @ offs cc @ R)"
      "set (offs ?c) = set (a # plist p' @ offs cc' @ R)"
    using mset_eq_imp_distinct_iff[OF R(1)] inv mset_eq_setD[OF R(1)] mset_eq_setD[OF R(2)]
    by (auto simp: node_inv_def)
  have le: "bytes_used pa \<le> bytes_used pa'" using ext by (simp add: extends_def)
  have cur: "pa_data pa' cur = Some (Bt b0)"
    using same[of cur] inv sR b0 by (auto simp: node_inv_def)
  have disj: "x \<notin> set R" if "x \<in> set (plist p' @ offs cc')" for x
    using fresh(1)[OF that] dR by fastforce
  have "distinct (a # plist p' @ offs cc' @ R)" using dis dR disj by auto
  then have "distinct (offs ?c)" using mset_eq_imp_distinct_iff[OF R(2)] by simp
  moreover have "cur \<notin> set (offs ?c)"
  proof
    assume "cur \<in> set (offs ?c)"
    then have "cur \<in> set (plist p' @ offs cc')" using inv sR by (auto simp: node_inv_def)
    from fresh(1)[OF this] show False using inv sR by (auto simp: node_inv_def)
  qed
  moreover have "x < bytes_used pa'" if "x \<in> set (offs ?c)" for x
  proof -
    have "x \<in> set (plist p' @ offs cc') \<or> x < bytes_used pa"
      using that sR dR(2) inv by (auto simp: node_inv_def)
    then show ?thesis using fresh(2) le by fastforce
  qed
  moreover have "isrep (pa_data pa') (bt_children b0) ?c"
    by (rule isrep_tupdate[OF b0(2) f _ _ node new])
      (use inv sR same in \<open>auto simp: node_inv_def\<close>)
  moreover have "border ?c"
    using inv ord pn.torder_tupdate by (auto simp: node_inv_def)
  ultimately have 1: "node_inv pa' cur ?c"
    using cur inv ext le by (auto simp: node_inv_def extends_def)
  have "x \<in> set (offs c) \<or> bytes_used pa \<le> x" if "x \<in> set (offs ?c)" for x
    using that sR fresh(1)[of x] by auto
  moreover have "pa_data pa' x = pa_data pa x" if "x \<notin> set (cur # offs c)" "x < bytes_used pa" for x
    using that same[of x] sR by auto
  ultimately have "evolves pa pa' cur c ?c"
    using ext b0 cur by (auto simp: evolves_def)
  with 1 show ?thesis ..
qed

end
