(* ===== verification/Prop_Area_Spec.thy ===== *)
theory Prop_Area_Spec
  imports Prop_Area_Correct
begin

text \<open>
  What a property area promises: \<open>find\<close> and \<open>add\<close> against the lookup of the abstract trie,
  the invariant of the whole area, and its view as a map from names to property records.
\<close>

section \<open>One token\<close>

text \<open>The part of the loop of \<open>find_property\<close> that goes from a node to the child of a token.\<close>

definition find_token ::
  "prop_area \<Rightarrow> nat \<Rightarrow> string \<Rightarrow> bool \<Rightarrow> (nat option \<times> prop_area) option" where
  "find_token pa cur token al =
     (case find_root pa cur token al of
        None \<Rightarrow> None
      | Some (None, pa1) \<Rightarrow> Some (None, pa1)
      | Some (Some root, pa1) \<Rightarrow> find_prop_bt pa1 (Some root) token al)"

lemma find_property_loop_last:
  assumes "k \<noteq> []" "CHR ''.'' \<notin> set k"
  shows "find_property_loop pa cur k name value al =
    (case find_token pa cur k al of
       None \<Rightarrow> None
     | Some (None, pa2) \<Rightarrow> Some (None, pa2)
     | Some (Some cur', pa2) \<Rightarrow> find_leaf pa2 cur' name value al)"
  using assms
  by (simp add: find_property_loop.simps[of pa cur k] find_token_def Let_def
      split: option.splits prod.splits)

lemma find_property_loop_more:
  assumes "k \<noteq> []" "CHR ''.'' \<notin> set k"
  shows "find_property_loop pa cur (k @ CHR ''.'' # rest) name value al =
    (case find_token pa cur k al of
       None \<Rightarrow> None
     | Some (None, pa2) \<Rightarrow> Some (None, pa2)
     | Some (Some cur', pa2) \<Rightarrow> find_property_loop pa2 cur' rest name value al)"
  using assms
  by (simp add: find_property_loop.simps[of pa cur "k @ CHR ''.'' # rest"] find_token_def Let_def
      split: option.splits prod.splits)

lemma node_inv_root:
  assumes "node_inv pa cur c"
  obtains b where "deref_bt pa cur = Some b" "isrep (pa_data pa) (bt_children b) c"
    "bt_children b = 0 \<longleftrightarrow> c = Lf" "bt_children b \<le> pa_data_size pa"
    "\<forall>x \<in> set (offs c). x \<le> pa_data_size pa"
proof -
  obtain b where b: "pa_data pa cur = Some (Bt b)" "isrep (pa_data pa) (bt_children b) c"
    using assms unfolding node_inv_def by blast
  have 1: "\<forall>x \<in> set (offs c). x \<le> pa_data_size pa" using assms by (auto simp: node_inv_def)
  moreover have "bt_children b = 0 \<longleftrightarrow> c = Lf" "bt_children b \<le> pa_data_size pa"
    using b(2) 1 by (cases c; auto)+
  ultimately show thesis using that b by (simp add: deref_bt_iff)
qed

lemma find_token_hit:
  assumes inv: "node_inv pa cur c" and f: "bsearch c s = Some (a, p, cc)"
  shows "find_token pa cur s al = Some (Some a, pa)"
proof -
  from inv obtain b where b: "deref_bt pa cur = Some b" "isrep (pa_data pa) (bt_children b) c"
    "bt_children b = 0 \<longleftrightarrow> c = Lf" "bt_children b \<le> pa_data_size pa"
    "\<forall>x \<in> set (offs c). x \<le> pa_data_size pa" by (rule node_inv_root)
  have "find_prop_bt pa (Some (bt_children b)) s al = Some (Some a, pa)"
    using find_prop_bt_hit[OF b(2,5) f] .
  then show ?thesis
    using b f by (auto simp: find_token_def find_root_def to_prop_obj_def)
qed

lemma find_token_miss:
  assumes inv: "node_inv pa cur c" and f: "bsearch c s = None"
    and "\<not> al \<or> new_prop_bt pa s = None"
  shows "find_token pa cur s al = Some (None, pa)"
proof -
  from inv obtain b where b: "deref_bt pa cur = Some b" "isrep (pa_data pa) (bt_children b) c"
    "bt_children b = 0 \<longleftrightarrow> c = Lf" "bt_children b \<le> pa_data_size pa"
    "\<forall>x \<in> set (offs c). x \<le> pa_data_size pa" by (rule node_inv_root)
  have "bt_children b \<noteq> 0 \<Longrightarrow> find_prop_bt pa (Some (bt_children b)) s al = Some (None, pa)"
    using find_prop_bt_miss[OF b(2,5) _ f assms(3)] .
  then show ?thesis
    using b f assms(3) by (auto simp: find_token_def find_root_def to_prop_obj_def)
qed

text \<open>A node allocated for a new token, hung under \<open>cur\<close> or under one of its children.\<close>

lemma evolves_new_node:
  assumes inv: "node_inv pa cur c" and new: "new_prop_bt pa s = Some (n, pa')"
    and f: "bsearch c s = None" and ok: "name_ok s"
    and at: "at \<in> set (cur # offs c)" and b0: "pa_data pa at = Some (Bt b0)"
    and rep: "isrep ((pa_data pa')(at \<mapsto> Bt b)) (bt_children bc) (binsert c s n)"
    and cur: "((pa_data pa')(at \<mapsto> Bt b)) cur = Some (Bt bc)"
    and same: "bt_name bc = bt_name bcur" "bt_prop bc = bt_prop bcur" "bt_left bc = bt_left bcur"
      "bt_right bc = bt_right bcur" "pa_data pa cur = Some (Bt bcur)"
  shows "evolves pa (put_obj at (Bt b) pa') cur c (binsert c s n)
       \<and> node_inv (put_obj at (Bt b) pa') cur (binsert c s n)"
proof -
  note new' = new_prop_bt_Some[OF new]
  have n: "n = bytes_used pa" "bytes_used pa' = bytes_used pa + need_bt s" "extends pa pa'"
    and data: "pa_data pa' = (pa_data pa)(n \<mapsto> Bt (mk_prop_bt s))" using new' by auto
  have setc: "set (offs (binsert c s n)) = insert n (set (offs c))" by (rule set_offs_tinsert[OF f])
  have disc: "distinct (offs (binsert c s n)) \<longleftrightarrow> distinct (n # offs c)"
    by (rule distinct_offs_tinsert[OF f])
  have ext: "extends pa (put_obj at (Bt b) pa')"
    using n(3) b0 by (auto simp: extends_def)
  have fr: "pa_data (put_obj at (Bt b) pa') x = pa_data pa x"
    if "x \<notin> set (cur # offs c)" "x < bytes_used pa" for x
    using that at n(1) data by auto
  have "evolves pa (put_obj at (Bt b) pa') cur c (binsert c s n)"
    unfolding evolves_def using ext fr setc n(1) cur same by auto
  moreover have "border (binsert c s n)"
    using pn.torder_tinsert ok inv by (auto simp: node_inv_def)
  then have "node_inv (put_obj at (Bt b) pa') cur (binsert c s n)"
    unfolding node_inv_def
    using inv rep cur setc disc n need_pos(1)[of s]
    by (auto simp: node_inv_def extends_def)
  ultimately show ?thesis ..
qed

lemma find_token_new:
  assumes inv: "node_inv pa cur c" and f: "bsearch c s = None" and ok: "name_ok s"
    and new: "new_prop_bt pa s = Some (n, pa')"
  obtains pa1 where "find_token pa cur s True = Some (Some n, pa1)"
    "evolves pa pa1 cur c (binsert c s n)" "node_inv pa1 cur (binsert c s n)"
    "bytes_used pa1 = bytes_used pa + need_bt s"
proof -
  from inv obtain b where b: "deref_bt pa cur = Some b" "isrep (pa_data pa) (bt_children b) c"
    "bt_children b = 0 \<longleftrightarrow> c = Lf" "bt_children b \<le> pa_data_size pa"
    "\<forall>x \<in> set (offs c). x \<le> pa_data_size pa" by (rule node_inv_root)
  note new' = new_prop_bt_Some[OF new]
  have n: "n = bytes_used pa" "n \<noteq> 0" "n \<noteq> cur" "n \<notin> set (offs c)"
    using new' inv by (auto simp: node_inv_def)
  have dcur: "pa_data pa cur = Some (Bt b)" using b(1) by (simp add: deref_bt_iff)
  show thesis
  proof (cases "c = Lf")
    case True
    let ?b = "b\<lparr>bt_children := n\<rparr>"
    have "find_root pa cur s True = Some (Some n, put_obj cur (Bt ?b) pa')"
      using True b new by (simp add: find_root_def)
    moreover have "find_prop_bt (put_obj cur (Bt ?b) pa') (Some n) s al
        = Some (Some n, put_obj cur (Bt ?b) pa')" for al
      using n new' ok by (subst find_prop_bt.simps) (simp add: deref_bt_def)
    ultimately have "find_token pa cur s True = Some (Some n, put_obj cur (Bt ?b) pa')"
      by (simp add: find_token_def)
    moreover have "evolves pa (put_obj cur (Bt ?b) pa') cur c (binsert c s n)
       \<and> node_inv (put_obj cur (Bt ?b) pa') cur (binsert c s n)"
      by (rule evolves_new_node[OF inv new f ok _ dcur, where bc = ?b and bcur = b])
        (use True n new' dcur in auto)
    ultimately show ?thesis using that new' by simp
  next
    case False
    have "inserted pa pa' (bt_children b) c s n"
      using find_prop_bt_new[OF new n(2) b(2,5)] False b(3) n inv f by (auto simp: node_inv_def)
    then obtain at b' b0 where ins:
      "find_prop_bt pa (Some (bt_children b)) s True = Some (Some n, put_obj at (Bt b') pa')"
      "at \<in> set (offs c)" "pa_data pa at = Some (Bt b0)"
      "isrep ((pa_data pa')(at \<mapsto> Bt b')) (bt_children b) (binsert c s n)"
      unfolding inserted_def by blast
    have "find_token pa cur s True = Some (Some n, put_obj at (Bt b') pa')"
      using ins(1) False b by (simp add: find_token_def find_root_def to_prop_obj_def)
    moreover have "evolves pa (put_obj at (Bt b') pa') cur c (binsert c s n)
       \<and> node_inv (put_obj at (Bt b') pa') cur (binsert c s n)"
      by (rule evolves_new_node[OF inv new f ok _ ins(3,4), where bcur = b])
        (use ins(2) n new' dcur inv in \<open>auto simp: node_inv_def\<close>)
    ultimately show ?thesis using that new' by simp
  qed
qed

section \<open>Lookup of a path\<close>

definition tokens_ok :: "string list \<Rightarrow> bool" where
  "tokens_ok ks \<longleftrightarrow> ks \<noteq> [] \<and> (\<forall>k \<in> set ks. name_ok k)"

lemma tokens_ok_Cons:
  "tokens_ok (k # ks) \<longleftrightarrow> k \<noteq> [] \<and> name_ok k \<and> CHR ''.'' \<notin> set k \<and> (ks = [] \<or> tokens_ok ks)"
  by (auto simp: tokens_ok_def name_ok_def)

lemma plookup_Lf [simp]: "plookup Lf ks = 0"
  by (cases ks) auto

lemma plookup_binsert:
  "name_ok s \<Longrightarrow> border c \<Longrightarrow> bsearch c s = None \<Longrightarrow> \<forall>k \<in> set ks. name_ok k \<Longrightarrow>
     plookup (binsert c s n) ks = plookup c ks"
  by (cases ks) (auto simp: pn.tsearch_tinsert)

lemma plookup_bupdate:
  "name_ok s \<Longrightarrow> border c \<Longrightarrow> bsearch c s = Some (a, p, cc) \<Longrightarrow> \<forall>k \<in> set ks. name_ok k \<Longrightarrow>
     plookup (bupdate c s p' cc') ks =
       (case ks of [] \<Rightarrow> 0
        | k # ks' \<Rightarrow> if k = s then (if ks' = [] then p' else plookup cc' ks') else plookup c ks)"
  by (cases ks) (auto simp: pn.tsearch_tupdate)

lemma find_leaf_at:
  assumes inv: "node_inv pa cur c" and f: "bsearch c s = Some (a, p, cc)"
  obtains b where "deref_bt pa a = Some b" "bt_prop b = p" "p \<le> pa_data_size pa"
    "isrep (pa_data pa) (bt_children b) cc"
proof -
  obtain b0 :: prop_bt where b0: "isrep (pa_data pa) (bt_children b0) c"
    using inv unfolding node_inv_def by blast
  have "p \<le> pa_data_size pa"
    using tsearch_offs_sub[OF f] inv by (auto simp: node_inv_def split: if_splits)
  then show thesis using isrep_tsearch[OF b0 f] that by (auto simp: deref_bt_iff)
qed

lemma find_loop_lookup:
  "node_inv pa cur c \<Longrightarrow> tokens_ok ks \<Longrightarrow>
     find_property_loop pa cur (join_with CHR ''.'' ks) name value False
       = Some (if plookup c ks = 0 then None else Some (plookup c ks), pa)"
proof (induction ks arbitrary: cur c)
  case (Cons k ks)
  have k: "k \<noteq> []" "CHR ''.'' \<notin> set k" and ks: "ks \<noteq> [] \<Longrightarrow> tokens_ok ks"
    using Cons.prems(2) by (auto simp: tokens_ok_Cons)
  show ?case
  proof (cases "bsearch c k")
    case None
    have "find_token pa cur k False = Some (None, pa)"
      using find_token_miss[OF Cons.prems(1) None] by simp
    with None k show ?thesis
      by (cases "ks = []") (simp_all add: join_with_Cons find_property_loop_last find_property_loop_more)
  next
    case (Some node)
    then obtain a p cc where f: "bsearch c k = Some (a, p, cc)" by (cases node) auto
    have t: "find_token pa cur k False = Some (Some a, pa)"
      using find_token_hit[OF Cons.prems(1) f] .
    show ?thesis
    proof (cases "ks = []")
      case True
      obtain b where "deref_bt pa a = Some b" "bt_prop b = p" "p \<le> pa_data_size pa"
        using find_leaf_at[OF Cons.prems(1) f] by metis
      then show ?thesis
        using True f t k by (simp add: find_property_loop_last find_leaf_def to_prop_obj_def)
    next
      case False
      have "find_property_loop pa a (join_with CHR ''.'' ks) name value False
          = Some (if plookup cc ks = 0 then None else Some (plookup cc ks), pa)"
        using Cons.IH[OF node_inv_child[OF Cons.prems(1) f] ks[OF False]] .
      then show ?thesis
        using False f t k by (simp add: join_with_Cons find_property_loop_more)
    qed
  qed
qed (simp add: tokens_ok_def)

section \<open>Insertion of a path\<close>

definition need :: "string list \<Rightarrow> string \<Rightarrow> nat" where
  "need ks name = sum_list (map need_bt ks) + need_info name"

text \<open>What an insertion of the path \<open>ks\<close> below \<open>cur\<close> has done when it returns \<open>r\<close>.\<close>

definition added :: "prop_area \<Rightarrow> prop_area \<Rightarrow> nat \<Rightarrow> string ptree \<Rightarrow> string ptree \<Rightarrow>
    string list \<Rightarrow> nat option \<Rightarrow> prop_info \<Rightarrow> bool" where
  "added pa pa' cur c c' ks r i \<longleftrightarrow>
     evolves pa pa' cur c c' \<and> node_inv pa' cur c'
     \<and> (\<forall>ks'. (\<forall>k \<in> set ks'. name_ok k) \<longrightarrow>
          plookup c' ks' = (case r of Some n \<Rightarrow> if ks' = ks then n else plookup c ks'
                                     | None \<Rightarrow> plookup c ks'))
     \<and> (plookup c ks \<noteq> 0 \<longrightarrow> r = Some (plookup c ks) \<and> pa' = pa)
     \<and> (plookup c ks = 0 \<longrightarrow>
          (case r of Some n \<Rightarrow> n \<noteq> 0 \<and> bytes_used pa \<le> n \<and> pa_data pa' n = Some (Info i)
                   | None \<Rightarrow> pa_data_size pa < bytes_used pa + need ks (pi_name i)))"

lemma find_leaf_add:
  assumes inv: "node_inv pa cur c" and f: "bsearch c s = Some (a, p, cc)" and ok: "name_ok s"
  obtains r pa' c' where "find_leaf pa a name v True = Some (r, pa')"
    "added pa pa' cur c c' [s] r (mk_prop_info name v)"
    "r = None \<Longrightarrow> pa_data_size pa < bytes_used pa + need [] name"
proof -
  obtain b where b: "deref_bt pa a = Some b" "bt_prop b = p" "p \<le> pa_data_size pa"
    "isrep (pa_data pa) (bt_children b) cc" by (rule find_leaf_at[OF inv f])
  have p: "plookup c [s] = p" using f by simp
  have ord: "border c" using inv by (simp add: node_inv_def)
  consider (old) "p \<noteq> 0" | (full) "p = 0" "new_prop_info pa name v = None"
    | (new) n pa1 where "p = 0" "new_prop_info pa name v = Some (n, pa1)" by fastforce
  then show thesis
  proof cases
    case old
    with b have "find_leaf pa a name v True = Some (Some p, pa)"
      by (simp add: find_leaf_def to_prop_obj_def)
    moreover have "added pa pa cur c c [s] (Some p) (mk_prop_info name v)"
      using old p inv by (auto simp: added_def evolves_refl)
    ultimately show ?thesis by (rule that) simp
  next
    case full
    with b have "find_leaf pa a name v True = Some (None, pa)"
      by (simp add: find_leaf_def)
    moreover have "added pa pa cur c c [s] None (mk_prop_info name v)"
      using full p inv new_prop_info_None[of pa name v]
      by (auto simp: added_def evolves_refl need_def mk_prop_info_def)
    ultimately show ?thesis
      by (rule that) (use full new_prop_info_None[of pa name v] in \<open>simp add: need_def\<close>)
  next
    case new
    let ?pa = "put_obj a (Bt (b\<lparr>bt_prop := n\<rparr>)) pa1" and ?c = "bupdate c s n cc"
    note new' = new_prop_info_Some[OF new(2)]
    have r: "find_leaf pa a name v True = Some (Some n, ?pa)"
      using b new by (simp add: find_leaf_def)
    have ci: "node_inv pa a cc" by (rule node_inv_child[OF inv f])
    then have a: "a < bytes_used pa" "a \<notin> set (offs cc)" "distinct (offs cc)" "border cc"
      and cb: "\<forall>x \<in> set (offs cc). x < bytes_used pa" by (auto simp: node_inv_def)
    have da: "pa_data pa a = Some (Bt b)" using b by (simp add: deref_bt_iff)
    have n: "n \<noteq> 0" "n \<noteq> a" "n \<notin> set (offs cc)" using new' a cb by auto
    have "isrep (pa_data ?pa) (bt_children b) cc = isrep (pa_data pa) (bt_children b) cc"
      by (rule isrep_frame) (use new' a n in auto)
    then have "node_inv ?pa cur ?c \<and> evolves pa ?pa cur c ?c"
      using b new' a n da cb need_pos(2)[of name]
      by (intro evolves_child[OF inv f _ _ da, where b' = "b\<lparr>bt_prop := n\<rparr>"]) (auto simp: extends_def)
    moreover have "pa_data ?pa n = Some (Info (mk_prop_info name v))" using new' n by simp
    ultimately have "added pa ?pa cur c ?c [s] (Some n) (mk_prop_info name v)"
      using p new(1) n(1) new' f plookup_bupdate[OF ok ord f]
      by (auto simp: added_def split: list.splits)
    with r show ?thesis by (rule that) simp
  qed
qed

text \<open>
  Lifting an insertion below a child to its parent, and an insertion that followed the
  creation of a node.
\<close>

lemma added_child:
  assumes inv: "node_inv pa cur c" and f: "bsearch c k = Some (a, p, cc)" and ok: "name_ok k"
    and ks: "ks \<noteq> []" and add: "added pa pa' a cc cc' ks r i"
  shows "added pa pa' cur c (bupdate c k p cc') (k # ks) r i"
proof -
  have ord: "border c" using inv by (simp add: node_inv_def)
  have ev: "evolves pa pa' a cc cc'" and ni: "node_inv pa' a cc'"
    using add by (auto simp: added_def)
  obtain b b' where b: "pa_data pa a = Some (Bt b)" "pa_data pa' a = Some (Bt b')"
    "bt_name b' = bt_name b" "bt_left b' = bt_left b" "bt_right b' = bt_right b"
    "bt_prop b' = bt_prop b"
    using ev unfolding evolves_def by blast
  obtain b1 where b1: "deref_bt pa a = Some b1" "bt_prop b1 = p" by (rule find_leaf_at[OF inv f])
  obtain R where R: "mset (offs c) = mset (a # plist p @ offs cc @ R)"
    using tsearch_offs[OF f] by blast
  have dp: "distinct (a # plist p @ offs cc @ R)"
    using mset_eq_imp_distinct_iff[OF R] inv by (simp add: node_inv_def)
  have pp: "p < bytes_used pa" if "p \<noteq> 0"
    using tsearch_offs_sub[OF f] inv that by (auto simp: node_inv_def)
  have pc: "p \<notin> set (offs cc')" if "p \<noteq> 0"
    using that ev dp pp by (auto simp: evolves_def)
  have le: "bytes_used pa \<le> bytes_used pa'" using ev by (simp add: evolves_def extends_def)
  obtain b0 :: prop_bt where b0: "isrep (pa_data pa) (bt_children b0) c"
    using inv unfolding node_inv_def by blast
  have ip: "\<exists>i. pa_data pa' p = Some (Info i)" if "p \<noteq> 0"
    using isrep_tsearch[OF b0 f] that pp ev unfolding evolves_def extends_def by blast
  have "node_inv pa' cur (bupdate c k p cc') \<and> evolves pa pa' cur c (bupdate c k p cc')"
    by (rule evolves_child[OF inv f _ _ b(1-5)])
      (use ev ni b b1 dp pp pc le ip in \<open>auto simp: evolves_def node_inv_def deref_bt_iff split: if_splits\<close>)
  then show ?thesis
    using add ks f plookup_bupdate[OF ok ord f]
    by (auto simp: added_def need_def split: list.splits option.splits)
qed

lemma added_trans:
  assumes inv: "node_inv pa cur c" and ev: "evolves pa pa1 cur c c1"
    and same: "\<And>ks'. \<forall>k \<in> set ks'. name_ok k \<Longrightarrow> plookup c1 ks' = plookup c ks'"
    and zero: "plookup c ks = 0" and ok: "tokens_ok ks"
    and room: "bytes_used pa1 \<le> bytes_used pa + need_bt (hd ks)"
    and add: "added pa1 pa' cur c1 c' ks r i"
    and part: "r = None \<Longrightarrow> pa_data_size pa1 < bytes_used pa1 + need (tl ks) (pi_name i)"
  shows "added pa pa' cur c c' ks r i"
proof -
  have oks: "\<forall>k \<in> set ks. name_ok k" using ok by (simp add: tokens_ok_def)
  have z1: "plookup c1 ks = 0" using same[OF oks] zero by simp
  have le: "bytes_used pa \<le> bytes_used pa1" "pa_data_size pa1 = pa_data_size pa"
    using ev by (auto simp: evolves_def extends_def)
  have ne: "need ks (pi_name i) = need_bt (hd ks) + need (tl ks) (pi_name i)"
    using ok by (cases ks) (auto simp: need_def tokens_ok_def)
  have "evolves pa pa' cur c c'" using evolves_trans[OF ev] add by (simp add: added_def)
  then show ?thesis
    using add same zero z1 le room part ne
    by (auto simp: added_def split: option.splits)
qed

text \<open>The loop of \<open>find_property\<close> when it may allocate.\<close>

lemma find_below:
  assumes inv: "node_inv pa cur c" and f: "bsearch c k = Some (a, p, cc)"
    and tok: "tokens_ok (k # ks)"
    and IH: "\<And>pa cur c. node_inv pa cur c \<Longrightarrow> tokens_ok ks \<Longrightarrow>
      \<exists>r pa' c'. find_property_loop pa cur (join_with CHR ''.'' ks) name v True = Some (r, pa')
        \<and> added pa pa' cur c c' ks r (mk_prop_info name v)"
  obtains r pa' c' where
    "(if ks = [] then find_leaf pa a name v True
      else find_property_loop pa a (join_with CHR ''.'' ks) name v True) = Some (r, pa')"
    "added pa pa' cur c c' (k # ks) r (mk_prop_info name v)"
    "r = None \<Longrightarrow> pa_data_size pa < bytes_used pa + need ks name"
proof (cases "ks = []")
  case True
  have ok: "name_ok k" using tok by (simp add: tokens_ok_Cons)
  obtain r pa' c' where "find_leaf pa a name v True = Some (r, pa')"
    "added pa pa' cur c c' [k] r (mk_prop_info name v)"
    "r = None \<Longrightarrow> pa_data_size pa < bytes_used pa + need [] name"
    by (rule find_leaf_add[OF inv f ok, of name v]) auto
  with True show ?thesis using that by simp
next
  case False
  then have ok: "name_ok k" "tokens_ok ks" using tok by (auto simp: tokens_ok_Cons)
  obtain r pa' cc' where r: "find_property_loop pa a (join_with CHR ''.'' ks) name v True = Some (r, pa')"
    and add: "added pa pa' a cc cc' ks r (mk_prop_info name v)"
    using IH[OF node_inv_child[OF inv f] ok(2)] by blast
  have "r = None \<Longrightarrow> pa_data_size pa < bytes_used pa + need ks name"
    using add by (cases "plookup cc ks = 0") (auto simp: added_def mk_prop_info_def)
  with r False show ?thesis
    using that added_child[OF inv f ok(1) False add] by simp
qed

lemma find_property_loop_step:
  assumes "k \<noteq> []" "CHR ''.'' \<notin> set k"
  shows "find_property_loop pa cur (join_with CHR ''.'' (k # ks)) name v al =
    (case find_token pa cur k al of
       None \<Rightarrow> None
     | Some (None, pa2) \<Rightarrow> Some (None, pa2)
     | Some (Some cur', pa2) \<Rightarrow>
         if ks = [] then find_leaf pa2 cur' name v al
         else find_property_loop pa2 cur' (join_with CHR ''.'' ks) name v al)"
  using assms
  by (cases "ks = []")
    (simp_all add: join_with_Cons find_property_loop_last find_property_loop_more
      cong: option.case_cong)

lemma find_loop_add:
  "node_inv pa cur c \<Longrightarrow> tokens_ok ks \<Longrightarrow>
     \<exists>r pa' c'. find_property_loop pa cur (join_with CHR ''.'' ks) name v True = Some (r, pa')
       \<and> added pa pa' cur c c' ks r (mk_prop_info name v)"
proof (induction ks arbitrary: pa cur c)
  case Nil
  then show ?case by (simp add: tokens_ok_def)
next
  case (Cons k ks)
  note inv = Cons.prems(1)
  have k: "k \<noteq> []" "CHR ''.'' \<notin> set k" "name_ok k" using Cons.prems(2) by (auto simp: tokens_ok_Cons)
  have ord: "border c" using inv by (simp add: node_inv_def)
  note step = find_property_loop_step[OF k(1,2), of pa cur ks name v True]
  consider (hit) a p cc where "bsearch c k = Some (a, p, cc)"
    | (full) "bsearch c k = None" "new_prop_bt pa k = None"
    | (new) n pa' where "bsearch c k = None" "new_prop_bt pa k = Some (n, pa')"
    by (cases "bsearch c k"; cases "new_prop_bt pa k") auto
  then show ?case
  proof cases
    case hit
    show ?thesis
      by (rule find_below[OF inv hit Cons.prems(2) Cons.IH])
        (auto simp: step find_token_hit[OF inv hit])
  next
    case full
    have "find_token pa cur k True = Some (None, pa)"
      using find_token_miss[OF inv full(1)] full(2) by simp
    moreover have "added pa pa cur c c (k # ks) None (mk_prop_info name v)"
      using full new_prop_bt_None[of pa k] inv by (simp add: added_def evolves_refl need_def)
    ultimately show ?thesis using step by auto
  next
    case new
    obtain pa1 where pa1: "find_token pa cur k True = Some (Some n, pa1)"
      "evolves pa pa1 cur c (binsert c k n)" "node_inv pa1 cur (binsert c k n)"
      "bytes_used pa1 = bytes_used pa + need_bt k"
      by (rule find_token_new[OF inv new(1) k(3) new(2)])
    have f1: "bsearch (binsert c k n) k = Some (n, 0, Lf)"
      using pn.tsearch_tinsert[OF k(3) k(3) ord new(1)] by simp
    show ?thesis
    proof (rule find_below[OF pa1(3) f1 Cons.prems(2) Cons.IH])
      fix r pa' c'
      assume r: "(if ks = [] then find_leaf pa1 n name v True
         else find_property_loop pa1 n (join_with CHR ''.'' ks) name v True) = Some (r, pa')"
        and add: "added pa1 pa' cur (binsert c k n) c' (k # ks) r (mk_prop_info name v)"
        and none: "r = None \<Longrightarrow> pa_data_size pa1 < bytes_used pa1 + need ks name"
      have "added pa pa' cur c c' (k # ks) r (mk_prop_info name v)"
        by (rule added_trans[OF inv pa1(2) _ _ Cons.prems(2) _ add])
          (use new pa1 none plookup_binsert[OF k(3) ord new(1)] in \<open>auto simp: mk_prop_info_def\<close>)
      then show ?thesis using r step pa1(1) by auto
    qed
  qed
qed

end
