(* ===== verification/Prop_Area_Map.thy ===== *)
theory Prop_Area_Map
  imports Prop_Area_Spec
begin

text \<open>
  A whole property area and its view as a map from names to property records. A valid name
  is a dot-separated sequence of non-empty tokens without NUL; the names that the property
  service accepts are of this kind.
\<close>

section \<open>The invariant\<close>

definition names_inv :: "prop_area \<Rightarrow> string ptree \<Rightarrow> bool" where
  "names_inv pa c \<longleftrightarrow>
     (\<forall>ks. tokens_ok ks \<longrightarrow> plookup c ks \<noteq> 0 \<longrightarrow>
        (\<exists>i. pa_data pa (plookup c ks) = Some (Info i) \<and> pi_name i = join_with CHR ''.'' ks))"

text \<open>The root node has no siblings and no property.\<close>

definition root_inv :: "prop_area \<Rightarrow> bool" where
  "root_inv pa \<longleftrightarrow>
     (\<exists>b. pa_data pa 0 = Some (Bt b) \<and> bt_left b = 0 \<and> bt_right b = 0 \<and> bt_prop b = 0)"

definition area_trie :: "prop_area \<Rightarrow> string ptree \<Rightarrow> bool" where
  "area_trie pa c \<longleftrightarrow> node_inv pa 0 c \<and> names_inv pa c \<and> root_inv pa"

definition wf_area :: "prop_area \<Rightarrow> bool" where
  "wf_area pa \<longleftrightarrow> (\<exists>c. area_trie pa c)"

definition tokens :: "string \<Rightarrow> string list" where
  "tokens n = split_on CHR ''.'' n"

definition valid_name :: "string \<Rightarrow> bool" where
  "valid_name n \<longleftrightarrow> tokens_ok (tokens n)"

text \<open>The record stored under a name.\<close>

definition area_map :: "prop_area \<Rightarrow> string \<Rightarrow> prop_info option" where
  "area_map pa name =
     (case pa_find pa name of Some (Some off) \<Rightarrow> deref_info pa off | _ \<Rightarrow> None)"

lemma join_tokens [simp]: "join_with CHR ''.'' (tokens n) = n"
  by (simp add: tokens_def)

lemma tokens_inj: "tokens n = tokens m \<longleftrightarrow> n = m"
  by (metis join_tokens)

lemma tokens_join: "tokens_ok ks \<Longrightarrow> tokens (join_with CHR ''.'' ks) = ks"
proof -
  assume ks: "tokens_ok ks"
  have "\<forall>x \<in> set ks. CHR ''.'' \<notin> set x" using ks by (auto simp: tokens_ok_def name_ok_def)
  moreover have "\<forall>x \<in> set (tokens (join_with CHR ''.'' ks)). CHR ''.'' \<notin> set x"
    unfolding tokens_def using split_on_no_sep_parts by blast
  ultimately show ?thesis
    using ks by (intro join_with_inj) (auto simp: tokens_ok_def tokens_def)
qed

lemma area_trie_root:
  assumes "area_trie pa c"
  shows "node_inv pa 0 c" "root_node pa = Some 0"
  using assms by (auto simp: area_trie_def root_node_def to_prop_obj_def)

lemma pa_find_trie:
  assumes "area_trie pa c" "valid_name n"
  shows "pa_find pa n =
    Some (if plookup c (tokens n) = 0 then None else Some (plookup c (tokens n)))"
proof -
  have "find_property_loop pa 0 (join_with CHR ''.'' (tokens n)) n [] False
      = Some (if plookup c (tokens n) = 0 then None else Some (plookup c (tokens n)), pa)"
    using find_loop_lookup[OF area_trie_root(1)[OF assms(1)]] assms(2) unfolding valid_name_def by blast
  then show ?thesis
    using area_trie_root(2)[OF assms(1)] by (simp add: pa_find_def find_property_def)
qed

lemma area_map_trie:
  assumes "area_trie pa c" "valid_name n"
  shows "area_map pa n = (if plookup c (tokens n) = 0 then None else deref_info pa (plookup c (tokens n)))"
  using pa_find_trie[OF assms] by (simp add: area_map_def)

lemma area_trie_info:
  assumes "area_trie pa c" "valid_name n" "plookup c (tokens n) \<noteq> 0"
  obtains i where "pa_data pa (plookup c (tokens n)) = Some (Info i)" "pi_name i = n"
  using assms by (auto simp: area_trie_def names_inv_def valid_name_def)

lemma area_map_None:
  assumes "area_trie pa c" "valid_name n"
  shows "area_map pa n = None \<longleftrightarrow> plookup c (tokens n) = 0"
proof (cases "plookup c (tokens n) = 0")
  case True
  then show ?thesis using area_map_trie[OF assms] by simp
next
  case False
  from area_trie_info[OF assms False] obtain i
    where "pa_data pa (plookup c (tokens n)) = Some (Info i)" .
  with False area_map_trie[OF assms] show ?thesis by (simp add: deref_info_def)
qed

section \<open>A new area\<close>

lemma wf_new_prop_area: "wf_area new_prop_area"
proof -
  have "area_trie new_prop_area Lf"
    by (simp add: area_trie_def node_inv_def names_inv_def root_inv_def new_prop_area_def mk_prop_area_def)
  then show ?thesis by (auto simp: wf_area_def)
qed

lemma new_prop_area_empty: "valid_name n \<Longrightarrow> area_map new_prop_area n = None"
proof -
  have "area_trie new_prop_area Lf"
    by (simp add: area_trie_def node_inv_def names_inv_def root_inv_def new_prop_area_def mk_prop_area_def)
  then show "valid_name n \<Longrightarrow> ?thesis" using area_map_None by auto
qed

section \<open>Lookup\<close>

lemma pa_find_total:
  assumes "wf_area pa" "valid_name n"
  shows "\<exists>r. pa_find pa n = Some r \<and>
    (case r of None \<Rightarrow> area_map pa n = None
             | Some off \<Rightarrow> \<exists>i. deref_info pa off = Some i \<and> pi_name i = n \<and> area_map pa n = Some i)"
proof -
  from assms(1) obtain c where c: "area_trie pa c" by (auto simp: wf_area_def)
  show ?thesis
  proof (cases "plookup c (tokens n) = 0")
    case True
    then show ?thesis using pa_find_trie[OF c assms(2)] area_map_None[OF c assms(2)] by simp
  next
    case False
    from area_trie_info[OF c assms(2) False] obtain i
      where i: "pa_data pa (plookup c (tokens n)) = Some (Info i)" "pi_name i = n" .
    with False show ?thesis
      using pa_find_trie[OF c assms(2)] area_map_trie[OF c assms(2)] by (simp add: deref_info_iff)
  qed
qed

section \<open>Insertion\<close>

lemma names_inv_added:
  assumes c: "area_trie pa c" and v: "valid_name n"
    and add: "added pa pa' 0 c c' (tokens n) r (mk_prop_info n v)"
  shows "area_trie pa' c'"
proof -
  have "\<exists>i. pa_data pa' (plookup c' ks) = Some (Info i) \<and> pi_name i = join_with CHR ''.'' ks"
    if ks: "tokens_ok ks" "plookup c' ks \<noteq> 0" for ks
  proof (cases "plookup c ks = 0")
    case True
    with ks add have "ks = tokens n" "\<exists>off. r = Some off"
      by (auto simp: added_def tokens_ok_def split: option.splits if_splits)
    with True ks add show ?thesis
      by (auto simp: added_def tokens_ok_def mk_prop_info_def split: if_splits)
  next
    case False
    with ks add have eq: "plookup c' ks = plookup c ks"
      by (auto simp: added_def tokens_ok_def split: option.splits)
    from c ks False obtain i where i: "pa_data pa (plookup c ks) = Some (Info i)"
      "pi_name i = join_with CHR ''.'' ks" by (auto simp: area_trie_def names_inv_def)
    have "plookup c ks < bytes_used pa"
    proof -
      have "plookup c ks \<in> set (tprops c)"
        using pn.tprops_tlookup[of c] c ks(1) False
        by (auto simp: area_trie_def node_inv_def tokens_ok_def)
      then show ?thesis
        using tprops_offs[of c] c by (auto simp: area_trie_def node_inv_def)
    qed
    then show ?thesis
      using i eq add unfolding added_def evolves_def extends_def by metis
  qed
  moreover have "root_inv pa'"
    using c add unfolding area_trie_def root_inv_def added_def evolves_def by force
  ultimately show ?thesis using add by (simp add: area_trie_def names_inv_def added_def)
qed

lemma pa_add_trie:
  assumes c: "area_trie pa c" and n: "valid_name n"
  obtains r pa' c' where "pa_add pa n v = Some (r \<noteq> None, pa')" "area_trie pa' c'"
    "added pa pa' 0 c c' (tokens n) r (mk_prop_info n v)"
proof -
  obtain r pa' c' where r:
    "find_property_loop pa 0 (join_with CHR ''.'' (tokens n)) n v True = Some (r, pa')"
    "added pa pa' 0 c c' (tokens n) r (mk_prop_info n v)"
    using find_loop_add[OF area_trie_root(1)[OF c]] n unfolding valid_name_def by blast
  then have "pa_add pa n v = Some (r \<noteq> None, pa')"
    using area_trie_root(2)[OF c] by (simp add: pa_add_def find_property_def)
  then show thesis using that r names_inv_added[OF c n r(2)] by blast
qed

lemma added_map:
  assumes c: "area_trie pa c" "area_trie pa' c'" and n: "valid_name n" "valid_name m"
    and add: "added pa pa' 0 c c' (tokens n) r (mk_prop_info n v)"
  shows "area_map pa' m =
    (if m = n \<and> r \<noteq> None \<and> area_map pa n = None then Some (mk_prop_info n v) else area_map pa m)"
proof -
  have oks: "\<forall>k \<in> set (tokens m). name_ok k" using n(2) by (auto simp: valid_name_def tokens_ok_def)
  have lk: "plookup c' (tokens m) = (if m = n then (case r of Some x \<Rightarrow> x | None \<Rightarrow> plookup c (tokens m))
      else plookup c (tokens m))"
    using add oks by (auto simp: added_def tokens_inj split: option.splits)
  show ?thesis
  proof (cases "plookup c (tokens m) = 0")
    case True
    then show ?thesis
      using lk add area_map_trie[OF c(2) n(2)] area_map_trie[OF c(1) n(2)] area_map_None[OF c(1) n(1)]
      by (auto simp: added_def deref_info_def split: option.splits)
  next
    case False
    have eq: "plookup c' (tokens m) = plookup c (tokens m)"
      using lk add False by (auto simp: added_def split: option.splits)
    obtain i where i: "pa_data pa (plookup c (tokens m)) = Some (Info i)"
      by (rule area_trie_info[OF c(1) n(2) False])
    have "plookup c (tokens m) \<in> set (offs c)"
      using pn.tprops_tlookup[of c] tprops_offs[of c] c(1) n(2) False
      by (auto simp: area_trie_def node_inv_def valid_name_def tokens_ok_def)
    then have "pa_data pa' (plookup c (tokens m)) = Some (Info i)"
      using i add c(1) unfolding added_def evolves_def extends_def area_trie_def node_inv_def by blast
    then show ?thesis
      using False eq i area_map_trie[OF c(2) n(2)] area_map_trie[OF c(1) n(2)] area_map_None[OF c(1) n(1)]
      by (auto simp: deref_info_def)
  qed
qed

text \<open>An insertion that returns false has changed no property.\<close>

lemma pa_add_spec:
  assumes wf: "wf_area pa" and n: "valid_name n"
  obtains ok pa' where "pa_add pa n v = Some (ok, pa')" "wf_area pa'"
    "\<And>m. valid_name m \<Longrightarrow> area_map pa' m =
       (if m = n \<and> ok \<and> area_map pa n = None then Some (mk_prop_info n v) else area_map pa m)"
    "area_map pa n \<noteq> None \<Longrightarrow> ok \<and> pa' = pa"
    "\<not> ok \<Longrightarrow> pa_data_size pa < bytes_used pa + need (tokens n) n"
    "area_serial pa' = area_serial pa"
proof -
  from wf obtain c where c: "area_trie pa c" by (auto simp: wf_area_def)
  obtain r pa' c' where r: "pa_add pa n v = Some (r \<noteq> None, pa')" "area_trie pa' c'"
    "added pa pa' 0 c c' (tokens n) r (mk_prop_info n v)"
    by (rule pa_add_trie[OF c n])
  show thesis
  proof (rule that[OF r(1)])
    show "wf_area pa'" using r(2) by (auto simp: wf_area_def)
    show "area_serial pa' = area_serial pa"
      using r(3) by (simp add: added_def evolves_def extends_def)
    show "(r \<noteq> None) \<and> pa' = pa" if "area_map pa n \<noteq> None"
      using that area_map_None[OF c n] r(3) by (auto simp: added_def)
    show "pa_data_size pa < bytes_used pa + need (tokens n) n" if "\<not> r \<noteq> None"
      using that r(3) by (auto simp: added_def mk_prop_info_def)
    show "area_map pa' m =
       (if m = n \<and> r \<noteq> None \<and> area_map pa n = None then Some (mk_prop_info n v) else area_map pa m)"
      if "valid_name m" for m
      using added_map[OF c r(2) n that r(3)] .
  qed
qed

section \<open>Traversal\<close>

lemma foreach_property_tree:
  "isrep (pa_data pa) off t \<Longrightarrow> \<forall>x \<in> set (offs t). x \<le> pa_data_size pa \<Longrightarrow> off \<noteq> 0 \<Longrightarrow>
     foreach_property pa (Some off) = Some (True, tprops t)"
proof (induction t arbitrary: off)
  case (Nd a nm p l c r)
  from Nd.prems(1) obtain b where b: "off = a" "deref_bt pa a = Some b" "bt_prop b = p"
    "isrep (pa_data pa) (bt_left b) l" "isrep (pa_data pa) (bt_children b) c"
    "isrep (pa_data pa) (bt_right b) r" by (auto simp: deref_bt_iff)
  have sub: "(if x \<noteq> 0 then foreach_property pa (to_prop_obj pa x) else Some (True, [])) = Some (True, tprops t)"
    if "isrep (pa_data pa) x t" "\<forall>y \<in> set (offs t). y \<le> pa_data_size pa"
      "x \<noteq> 0 \<Longrightarrow> foreach_property pa (Some x) = Some (True, tprops t)" for x t
    using that by (cases t) (auto simp: to_prop_obj_def)
  have "(if bt_left b \<noteq> 0 then foreach_property pa (to_prop_obj pa (bt_left b)) else Some (True, []))
      = Some (True, tprops l)"
    using b Nd.prems(2) by (intro sub Nd.IH(1)) auto
  moreover have "(if bt_children b \<noteq> 0 then foreach_property pa (to_prop_obj pa (bt_children b)) else Some (True, []))
      = Some (True, tprops c)"
    using b Nd.prems(2) by (intro sub Nd.IH(2)) auto
  moreover have "(if bt_right b \<noteq> 0 then foreach_property pa (to_prop_obj pa (bt_right b)) else Some (True, []))
      = Some (True, tprops r)"
    using b Nd.prems(2) by (intro sub Nd.IH(3)) auto
  moreover have "\<not> pa_data_size pa < p" using Nd.prems(2) by (cases "p = 0") auto
  ultimately show ?case
    using b by (subst foreach_property.simps) (simp add: plist_def to_prop_obj_def)
qed simp

lemma pa_foreach_trie:
  assumes "area_trie pa c"
  shows "pa_foreach pa = Some (True, tprops c)"
proof -
  obtain b where b: "deref_bt pa 0 = Some b" "bt_left b = 0" "bt_right b = 0" "bt_prop b = 0"
    using assms by (auto simp: area_trie_def root_inv_def deref_bt_iff)
  have rep: "isrep (pa_data pa) (bt_children b) c"
    using assms b(1) by (auto simp: area_trie_def node_inv_def deref_bt_iff)
  have le: "\<forall>x \<in> set (offs c). x \<le> pa_data_size pa"
    using assms by (auto simp: area_trie_def node_inv_def)
  have "(if bt_children b \<noteq> 0 then foreach_property pa (to_prop_obj pa (bt_children b)) else Some (True, []))
      = Some (True, tprops c)"
    using rep le foreach_property_tree[OF rep le] by (cases c) (auto simp: to_prop_obj_def)
  then show ?thesis
    using b area_trie_root(2)[OF assms]
    by (simp add: pa_foreach_def foreach_property.simps[of pa "Some 0"])
qed

lemma pa_foreach_spec:
  assumes "wf_area pa"
  obtains xs where "pa_foreach pa = Some (True, xs)" "distinct xs"
    "\<And>off. off \<in> set xs \<longleftrightarrow> (\<exists>n. valid_name n \<and> pa_find pa n = Some (Some off))"
proof -
  from assms obtain c where c: "area_trie pa c" by (auto simp: wf_area_def)
  have ord: "border c" and dis: "distinct (offs c)" using c by (auto simp: area_trie_def node_inv_def)
  have "off \<in> set (tprops c) \<longleftrightarrow> (\<exists>n. valid_name n \<and> pa_find pa n = Some (Some off))" for off
  proof
    assume "off \<in> set (tprops c)"
    then obtain ks where "off \<noteq> 0" "tokens_ok ks" "plookup c ks = off"
      using pn.tprops_tlookup[OF ord] by (auto simp: tokens_ok_def)
    then show "\<exists>n. valid_name n \<and> pa_find pa n = Some (Some off)"
      using pa_find_trie[OF c, of "join_with CHR ''.'' ks"] tokens_join[of ks]
      by (intro exI[of _ "join_with CHR ''.'' ks"]) (simp add: valid_name_def)
  next
    assume "\<exists>n. valid_name n \<and> pa_find pa n = Some (Some off)"
    then obtain n where n: "valid_name n" "plookup c (tokens n) = off" "off \<noteq> 0"
      using pa_find_trie[OF c] by (auto split: if_splits)
    then show "off \<in> set (tprops c)"
      using pn.tprops_tlookup[OF ord, of off] by (auto simp: valid_name_def tokens_ok_def)
  qed
  then show thesis using that pa_foreach_trie[OF c] distinct_tprops[OF dis] by blast
qed

section \<open>Updating a record in place\<close>

lemma isrep_put_info:
  "isrep d off t \<Longrightarrow> d x = Some (Info i) \<Longrightarrow> isrep (d(x \<mapsto> Info i')) off t"
  by (induction t arbitrary: off) auto

lemma area_trie_put_info:
  assumes c: "area_trie pa c" and x: "pa_data pa x = Some (Info i)" and nm: "pi_name i' = pi_name i"
  shows "area_trie (put_obj x (Info i') pa) c"
proof -
  have "x \<noteq> 0" using c x by (auto simp: area_trie_def root_inv_def intro: ccontr)
  with assms show ?thesis
    unfolding area_trie_def node_inv_def names_inv_def root_inv_def
    by (auto simp: isrep_put_info)
qed

lemma put_info_map:
  assumes wf: "wf_area pa" and n: "valid_name n" and f: "pa_find pa n = Some (Some x)"
    and i: "deref_info pa x = Some i" and nm: "pi_name i' = pi_name i"
  shows "wf_area (put_obj x (Info i') pa)"
    and "\<And>m. valid_name m \<Longrightarrow>
      area_map (put_obj x (Info i') pa) m = (if m = n then Some i' else area_map pa m)"
proof -
  from wf obtain c where c: "area_trie pa c" by (auto simp: wf_area_def)
  have xd: "pa_data pa x = Some (Info i)" using i by (simp add: deref_info_iff)
  note c' = area_trie_put_info[OF c xd nm]
  then show "wf_area (put_obj x (Info i') pa)" by (auto simp: wf_area_def)
  have x: "plookup c (tokens n) = x" "x \<noteq> 0"
    using pa_find_trie[OF c n] f by (auto split: if_splits)
  have ni: "pi_name i = n"
    using area_trie_info[OF c n] x xd by (metis option.inject prop_obj.inject(2))
  fix m assume m: "valid_name m"
  show "area_map (put_obj x (Info i') pa) m = (if m = n then Some i' else area_map pa m)"
  proof (cases "plookup c (tokens m) = x")
    case True
    then have "m = n" using area_trie_info[OF c m] x(2) xd ni by (metis option.inject prop_obj.inject(2))
    then show ?thesis using area_map_trie[OF c' m] True x by (simp add: deref_info_def)
  next
    case False
    then have "m \<noteq> n" using x by auto
    with False show ?thesis
      using area_map_trie[OF c' m] area_map_trie[OF c m] by (simp add: deref_info_def)
  qed
qed

section \<open>Properties\<close>

lemma valid_name_sample: "valid_name ''ro.x''"
  by code_simp



text \<open>
  C3. Adding a property to a well-formed area always ends and keeps the area well-formed. If
  it reports success, the name now has a record: the new one if it had none, and the old one,
  untouched, otherwise. Every other name keeps its record, and a failed call changes no
  property at all. It fails only when the free space is smaller than what the nodes of all the
  tokens and the record can need.
\<close>

theorem area_add_correct:
  assumes "wf_area pa" "valid_name n"
  shows "\<exists>ok pa'. pa_add pa n v = Some (ok, pa') \<and> wf_area pa' \<and>
    (\<forall>m. valid_name m \<longrightarrow> area_map pa' m =
       (if m = n \<and> ok \<and> area_map pa n = None then Some (mk_prop_info n v) else area_map pa m)) \<and>
    (bytes_used pa + need (tokens n) n \<le> pa_data_size pa \<longrightarrow> ok)"
proof -
  obtain ok pa' where r: "pa_add pa n v = Some (ok, pa')" "wf_area pa'"
    "\<And>m. valid_name m \<Longrightarrow> area_map pa' m =
       (if m = n \<and> ok \<and> area_map pa n = None then Some (mk_prop_info n v) else area_map pa m)"
    "\<not> ok \<Longrightarrow> pa_data_size pa < bytes_used pa + need (tokens n) n"
    using pa_add_spec[OF assms, of v] by metis
  then have "bytes_used pa + need (tokens n) n \<le> pa_data_size pa \<longrightarrow> ok" by (meson not_le)
  with r show ?thesis by blast
qed

theorem area_add_correct_witness:
  "\<exists>ok pa'. pa_add new_prop_area ''ro.x'' ''1'' = Some (ok, pa') \<and> wf_area pa' \<and>
    (\<forall>m. valid_name m \<longrightarrow> area_map pa' m =
       (if m = ''ro.x'' \<and> ok \<and> area_map new_prop_area ''ro.x'' = None
        then Some (mk_prop_info ''ro.x'' ''1'') else area_map new_prop_area m)) \<and>
    (bytes_used new_prop_area + need (tokens ''ro.x'') ''ro.x'' \<le> pa_data_size new_prop_area \<longrightarrow> ok)"
  by (rule area_add_correct[OF wf_new_prop_area valid_name_sample])

text \<open>
  The traversal of a well-formed area calls back once for each record that a lookup of
  some valid name finds, and for nothing else.
\<close>

theorem area_foreach_exact:
  assumes "wf_area pa"
  shows "\<exists>xs. pa_foreach pa = Some (True, xs) \<and> distinct xs \<and>
    set xs = {off. \<exists>n. valid_name n \<and> pa_find pa n = Some (Some off)}"
proof -
  obtain xs where r: "pa_foreach pa = Some (True, xs)" "distinct xs"
    "\<And>off. off \<in> set xs \<longleftrightarrow> (\<exists>n. valid_name n \<and> pa_find pa n = Some (Some off))"
    using pa_foreach_spec[OF assms] by metis
  then show ?thesis by (intro exI[of _ xs]) auto
qed

theorem area_foreach_exact_witness:
  "\<exists>xs. pa_foreach new_prop_area = Some (True, xs) \<and> distinct xs \<and>
    set xs = {off. \<exists>n. valid_name n \<and> pa_find new_prop_area n = Some (Some off)}"
  by (rule area_foreach_exact[OF wf_new_prop_area])

end
