(* ===== verification/Prop_Contexts.thy ===== *)
theory Prop_Contexts
  imports Prop_Area_Map
begin

text \<open>
  Which property area a name belongs to. The property-context files map name prefixes to
  SELinux contexts, and each context has an area of its own. The prefixes are kept in a list
  that is searched from the front; \<open>list_add_after_len\<close> keeps longer prefixes before shorter
  ones and the catch-all \<open>*\<close> last, so that the search finds the longest prefix.
\<close>

section \<open>Lists\<close>

text \<open>
  A mapped area is designated by the file that is mapped and by which of the two mappings of
  the process it is: the one of a context, or the global \<^verbatim>\<open>__system_property_area__\<close>. Mappings
  are shared, so that the contents belong to the file.
\<close>

datatype pa_ptr = Ptr (ptr_file: string) (ptr_global: bool)

record context_node =
  cn_context :: string
  cn_pa :: "pa_ptr option"
  cn_no_access :: bool

text \<open>A prefix node refers to its context node; the contexts of the list are distinct, so the
  context's string stands for the pointer.\<close>

record prefix_node =
  pf_prefix :: string
  pf_context :: string

definition mk_context_node :: "string \<Rightarrow> pa_ptr option \<Rightarrow> context_node" where
  "mk_context_node context pa = \<lparr>cn_context = context, cn_pa = pa, cn_no_access = False\<rparr>"

definition mk_prefix_node :: "string \<Rightarrow> string \<Rightarrow> prefix_node" where
  "mk_prefix_node pre context = \<lparr>pf_prefix = pre, pf_context = context\<rparr>"

text \<open>The first byte of a C string, NUL when it is empty.\<close>

definition first_char :: "string \<Rightarrow> char" where
  "first_char s = (case s of [] \<Rightarrow> NUL | c # _ \<Rightarrow> c)"

fun list_add_after_len :: "prefix_node list \<Rightarrow> string \<Rightarrow> string \<Rightarrow> prefix_node list" where
  "list_add_after_len [] pre context = [mk_prefix_node pre context]"
| "list_add_after_len (x # xs) pre context =
     (if length (pf_prefix x) < length pre \<or> first_char (pf_prefix x) = CHR ''*''
      then mk_prefix_node pre context # x # xs
      else x # list_add_after_len xs pre context)"

fun list_find :: "'a list \<Rightarrow> ('a \<Rightarrow> bool) \<Rightarrow> 'a option" where
  "list_find [] f = None"
| "list_find (x # xs) f = (if f x then Some x else list_find xs f)"

text \<open>The test that \<open>get_prop_area_for_name\<close> makes at each prefix.\<close>

definition prefix_matches :: "string \<Rightarrow> prefix_node \<Rightarrow> bool" where
  "prefix_matches name l \<longleftrightarrow>
     first_char (pf_prefix l) = CHR ''*''
     \<or> strncmp (pf_prefix l) name (length (pf_prefix l)) = 0"

section \<open>Reading a property-context file\<close>

text \<open>
  \<open>read_spec_entry\<close> skips white space and takes a word; the result is the word and the rest
  of the line.
\<close>

definition read_spec_entry :: "string \<Rightarrow> string \<times> string" where
  "read_spec_entry ptr =
     (let p = dropWhile isspace ptr
      in (takeWhile (\<lambda>c. \<not> isspace c) p, dropWhile (\<lambda>c. \<not> isspace c) p))"

lemma read_spec_entry_length:
  assumes "buf \<noteq> []" "read_spec_entry buf = (entry, rest)"
  shows "length rest < length buf"
proof (cases buf)
  case (Cons x xs)
  have "length (dropWhile P ys) \<le> length ys" for P and ys :: string
    by (rule length_dropWhile_le)
  then have le: "length (dropWhile P (dropWhile Q ys)) \<le> length ys" for P Q and ys :: string
    by (meson le_trans)
  show ?thesis
    using assms Cons le[of "\<lambda>c. \<not> isspace c" isspace xs] length_dropWhile_le[of "\<lambda>c. \<not> isspace c" xs]
    by (auto simp: read_spec_entry_def Let_def split: if_splits)
qed (use assms in simp)

function read_spec_loop :: "nat \<Rightarrow> string \<Rightarrow> string list" where
  "read_spec_loop missing buf =
     (if missing = 0 \<or> buf = [] then []
      else let (entry, rest) = read_spec_entry buf in
           if entry = [] then read_spec_loop missing rest
           else entry # read_spec_loop (missing - 1) rest)"
  by pat_completeness auto
termination
  by (relation "measure (\<lambda>(missing, buf). length buf)")
    (auto intro: read_spec_entry_length[OF _ sym])

declare read_spec_loop.simps [simp del]

text \<open>
  The line is a C string; a final newline is removed first. The entries found are returned
  in order, so the number of items is the length of the list.
\<close>

definition read_spec_entries :: "string \<Rightarrow> nat \<Rightarrow> string list" where
  "read_spec_entries line num_args =
     (let line_buf = (if line \<noteq> [] \<and> last line = CHR 0x0A then butlast line else line);
          buf = dropWhile isspace line_buf in
      if buf = [] \<or> hd buf = CHR ''#'' then [] else read_spec_loop num_args buf)"

section \<open>The longest prefix wins\<close>

text \<open>The words of a line: its maximal runs of characters that are not white space.\<close>

fun words_acc :: "string \<Rightarrow> string \<Rightarrow> string list" where
  "words_acc w [] = (if w = [] then [] else [w])"
| "words_acc w (c # cs) =
     (if isspace c then (if w = [] then words_acc [] cs else w # words_acc [] cs)
      else words_acc (w @ [c]) cs)"

abbreviation words :: "string \<Rightarrow> string list" where
  "words \<equiv> words_acc []"

lemma words_space: "isspace c \<Longrightarrow> words (c # cs) = words cs"
  by simp

lemma words_dropWhile: "words (dropWhile isspace s) = words s"
  by (induction s) auto

lemma words_acc_run:
  "w \<noteq> [] \<Longrightarrow> words_acc w s
     = (w @ takeWhile (\<lambda>c. \<not> isspace c) s) # words (dropWhile (\<lambda>c. \<not> isspace c) s)"
  by (induction s arbitrary: w) auto

lemma words_read_spec_entry:
  assumes e: "read_spec_entry s = (entry, rest)"
  shows "words s = (if entry = [] then [] else entry # words rest)" and "entry = [] \<Longrightarrow> rest = []"
proof -
  have ent: "entry = takeWhile (\<lambda>c. \<not> isspace c) (dropWhile isspace s)"
    and rst: "rest = dropWhile (\<lambda>c. \<not> isspace c) (dropWhile isspace s)"
    using e by (simp_all add: read_spec_entry_def Let_def)
  show "words s = (if entry = [] then [] else entry # words rest)"
  proof (cases "dropWhile isspace s")
    case Nil
    then have "entry = []" "words s = []"
      using words_dropWhile[of s] unfolding ent by (simp_all del: dropWhile_eq_Nil_conv)
    then show ?thesis by simp
  next
    case (Cons c cs)
    then have "\<not> isspace c" by (metis dropWhile_eq_Cons_conv)
    then show ?thesis
      using Cons words_dropWhile[of s] words_acc_run[of "[c]" cs] unfolding ent rst by auto
  qed
  show "entry = [] \<Longrightarrow> rest = []"
  proof (cases "dropWhile isspace s")
    case Nil
    then show ?thesis unfolding rst by (simp del: dropWhile_eq_Nil_conv)
  next
    case (Cons c cs)
    then have "\<not> isspace c" by (metis dropWhile_eq_Cons_conv)
    then show "entry = [] \<Longrightarrow> rest = []" using Cons unfolding ent by simp
  qed
qed

lemma read_spec_loop_words: "read_spec_loop n s = take n (words s)"
proof (induction n s rule: read_spec_loop.induct)
  case (1 n s)
  obtain entry rest where e: "read_spec_entry s = (entry, rest)" by fastforce
  note w = words_read_spec_entry[OF e]
  show ?case
  proof (cases "n = 0 \<or> s = []")
    case True
    then show ?thesis by (subst read_spec_loop.simps) auto
  next
    case False
    then show ?thesis
      using 1 e w by (subst read_spec_loop.simps) (cases n, auto)
  qed
qed

text \<open>
  \<open>plist_ok\<close>: the entries before the catch-alls are ordered by decreasing length. The
  property-context files use \<open>*\<close> alone as the catch-all, and no prefix is empty.
\<close>

definition is_star :: "prefix_node \<Rightarrow> bool" where
  "is_star l \<longleftrightarrow> first_char (pf_prefix l) = CHR ''*''"

definition plist_ok :: "prefix_node list \<Rightarrow> bool" where
  "plist_ok xs \<longleftrightarrow>
     (\<exists>ys zs. xs = ys @ zs \<and> (\<forall>y \<in> set ys. \<not> is_star y) \<and> (\<forall>z \<in> set zs. is_star z)
        \<and> sorted_wrt (\<lambda>a b. length (pf_prefix b) \<le> length (pf_prefix a)) ys)
     \<and> (\<forall>x \<in> set xs. pf_prefix x \<noteq> [])"

lemma set_list_add_after_len [simp]:
  "set (list_add_after_len xs pre ctx) = insert (mk_prefix_node pre ctx) (set xs)"
  by (induction xs) auto

lemma list_add_after_len_sorted:
  assumes "sorted_wrt (\<lambda>a b. length (pf_prefix b) \<le> length (pf_prefix a)) ys"
    and "\<forall>y \<in> set ys. \<not> is_star y" "\<forall>z \<in> set zs. is_star z"
  shows "\<exists>us vs. ys = us @ vs \<and> list_add_after_len (ys @ zs) pre ctx = us @ mk_prefix_node pre ctx # vs @ zs
    \<and> (\<forall>u \<in> set us. length pre \<le> length (pf_prefix u)) \<and> (\<forall>v \<in> set vs. length (pf_prefix v) < length pre)"
  using assms
proof (induction ys)
  case Nil
  then show ?case by (cases zs) (auto simp: is_star_def)
next
  case (Cons y ys)
  show ?case
  proof (cases "length (pf_prefix y) < length pre")
    case True
    with Cons.prems show ?thesis
      by (intro exI[of _ "[]"] exI[of _ "y # ys"]) fastforce
  next
    case False
    from Cons obtain us vs where "ys = us @ vs"
      "list_add_after_len (ys @ zs) pre ctx = us @ mk_prefix_node pre ctx # vs @ zs"
      "\<forall>u \<in> set us. length pre \<le> length (pf_prefix u)" "\<forall>v \<in> set vs. length (pf_prefix v) < length pre"
      by auto
    with False Cons.prems show ?thesis
      by (intro exI[of _ "y # us"] exI[of _ vs]) (auto simp: is_star_def)
  qed
qed

lemma plist_ok_add:
  assumes "plist_ok xs" "pre \<noteq> []" "first_char pre = CHR ''*'' \<Longrightarrow> length pre = 1"
  shows "plist_ok (list_add_after_len xs pre ctx)"
proof -
  from assms(1) obtain ys zs where xs: "xs = ys @ zs" "\<forall>y \<in> set ys. \<not> is_star y"
    "\<forall>z \<in> set zs. is_star z" "sorted_wrt (\<lambda>a b. length (pf_prefix b) \<le> length (pf_prefix a)) ys"
    "\<forall>x \<in> set xs. pf_prefix x \<noteq> []" unfolding plist_ok_def by blast
  obtain us vs where uv: "ys = us @ vs"
    "list_add_after_len xs pre ctx = us @ mk_prefix_node pre ctx # vs @ zs"
    "\<forall>u \<in> set us. length pre \<le> length (pf_prefix u)" "\<forall>v \<in> set vs. length (pf_prefix v) < length pre"
    using list_add_after_len_sorted[OF xs(4,2,3), of pre ctx] xs(1) by blast
  have ne: "\<forall>x \<in> set (list_add_after_len xs pre ctx). pf_prefix x \<noteq> []"
    using xs(5) assms(2) by (auto simp: mk_prefix_node_def)
  show ?thesis
  proof (cases "is_star (mk_prefix_node pre ctx)")
    case True
    then have l: "length pre = 1" using assms(3) by (simp add: is_star_def mk_prefix_node_def)
    have "vs = []"
    proof (rule ccontr)
      assume "vs \<noteq> []"
      then obtain v where "v \<in> set vs" by (cases vs) auto
      with uv xs l show False by auto
    qed
    with True uv xs ne show ?thesis unfolding plist_ok_def
      by (intro conjI exI[of _ us] exI[of _ "mk_prefix_node pre ctx # zs"]) (auto simp: sorted_wrt_append)
  next
    case False
    with uv xs ne show ?thesis unfolding plist_ok_def
      by (intro conjI exI[of _ "us @ mk_prefix_node pre ctx # vs"] exI[of _ zs])
        (auto simp: sorted_wrt_append mk_prefix_node_def)
  qed
qed

lemma list_find_SomeD:
  "list_find xs f = Some x \<Longrightarrow>
     \<exists>us vs. xs = us @ x # vs \<and> f x \<and> (\<forall>u \<in> set us. \<not> f u)"
proof (induction xs)
  case (Cons y ys)
  show ?case
  proof (cases "f y")
    case True
    with Cons.prems show ?thesis by (intro exI[of _ "[]"] exI[of _ ys]) auto
  next
    case False
    with Cons obtain us vs where "ys = us @ x # vs \<and> f x \<and> (\<forall>u \<in> set us. \<not> f u)" by auto
    with False show ?thesis by (intro exI[of _ "y # us"] exI[of _ vs]) auto
  qed
qed simp

lemma list_find_None: "list_find xs f = None \<longleftrightarrow> (\<forall>x \<in> set xs. \<not> f x)"
  by (induction xs) auto

lemma strncmp_prefix:
  "NUL \<notin> set p \<Longrightarrow> strncmp p s (length p) = 0 \<longleftrightarrow> prefix p s"
proof (induction p arbitrary: s)
  case (Cons x p)
  show ?case
  proof (cases s)
    case (Cons y ys)
    have "x \<noteq> y \<Longrightarrow> (of_char x :: nat) \<noteq> of_char y" by simp
    with Cons Cons.prems Cons.IH show ?thesis by auto
  next
    case Nil
    have "x \<noteq> NUL" using Cons.prems by auto
    then have "(of_char x :: nat) \<noteq> of_char NUL" using of_char_eq_iff[of x NUL] by blast
    with Nil show ?thesis by auto
  qed
qed simp

lemma plist_ok_find:
  assumes ok: "plist_ok xs" and f: "list_find xs (prefix_matches name) = Some x"
    and y: "y \<in> set xs" "\<not> is_star y" "prefix_matches name y"
  shows "\<not> is_star x \<and> length (pf_prefix y) \<le> length (pf_prefix x)"
proof -
  from ok obtain ys zs where xs: "xs = ys @ zs" "\<forall>y \<in> set ys. \<not> is_star y"
    "\<forall>z \<in> set zs. is_star z" "sorted_wrt (\<lambda>a b. length (pf_prefix b) \<le> length (pf_prefix a)) ys"
    unfolding plist_ok_def by blast
  from list_find_SomeD[OF f] obtain us vs where uv: "xs = us @ x # vs"
    "\<forall>u \<in> set us. \<not> prefix_matches name u" by blast
  have yin: "y \<in> set ys" using y xs by auto
  have yv: "y = x \<or> y \<in> set vs" using y uv by auto
  from uv(1) xs(1) consider (in_ys) vs' where "ys = us @ x # vs'" "vs = vs' @ zs" | (in_zs) "set ys \<subseteq> set us"
    by (auto simp: append_eq_append_conv2 Cons_eq_append_conv append_eq_Cons_conv)
  then show ?thesis
  proof cases
    case in_ys
    have "y = x \<or> y \<in> set vs'" using yv in_ys y(2) xs(3) by auto
    then show ?thesis using in_ys xs(2,4) by (auto simp: sorted_wrt_append)
  next
    case in_zs
    then show ?thesis using yin uv(2) y(3) by auto
  qed
qed

section \<open>Properties\<close>

text \<open>Adding a sequence of prefixes, as the lines of the context files do.\<close>

definition add_prefixes :: "(string \<times> string) list \<Rightarrow> prefix_node list" where
  "add_prefixes es = fold (\<lambda>(pre, ctx) xs. list_add_after_len xs pre ctx) es []"

definition prefix_entry_ok :: "string \<times> string \<Rightarrow> bool" where
  "prefix_entry_ok e \<longleftrightarrow> fst e \<noteq> [] \<and> NUL \<notin> set (fst e) \<and>
     (first_char (fst e) = CHR ''*'' \<longrightarrow> length (fst e) = 1)"

lemma add_prefixes_ok:
  assumes "\<forall>e \<in> set es. prefix_entry_ok e"
  shows "plist_ok (add_prefixes es) \<and> set (add_prefixes es) = (\<lambda>(p, c). mk_prefix_node p c) ` set es"
proof -
  have "plist_ok xs \<Longrightarrow> plist_ok (fold (\<lambda>(pre, ctx) xs. list_add_after_len xs pre ctx) es xs) \<and>
      set (fold (\<lambda>(pre, ctx) xs. list_add_after_len xs pre ctx) es xs) =
        (\<lambda>(p, c). mk_prefix_node p c) ` set es \<union> set xs" for xs
    using assms
  proof (induction es arbitrary: xs)
    case (Cons e es)
    have "plist_ok (list_add_after_len xs (fst e) (snd e))"
      using Cons.prems by (intro plist_ok_add) (auto simp: prefix_entry_ok_def)
    from Cons.IH[OF this] Cons.prems(2) show ?case by (auto simp: split_beta)
  qed simp
  moreover have "plist_ok []" by (simp add: plist_ok_def)
  ultimately show ?thesis by (auto simp: add_prefixes_def)
qed



text \<open>
  C25. Reading up to \<open>n\<close> entries of a line that is not a comment gives its first \<open>n\<close> words:
  the maximal runs of characters that are not white space.
\<close>

theorem spec_entries_are_words:
  assumes "dropWhile isspace line \<noteq> []" "hd (dropWhile isspace line) \<noteq> CHR ''#''" "last line \<noteq> CHR 0x0A"
  shows "read_spec_entries line n = take n (words line)"
  using assms words_dropWhile[of line]
  by (auto simp: read_spec_entries_def Let_def read_spec_loop_words simp del: dropWhile_eq_Nil_conv)

theorem spec_entries_are_words_witness:
  "read_spec_entries '' net.  u:net  '' 2 = take 2 (words '' net.  u:net  '')"
  by (rule spec_entries_are_words) (simp_all add: isspace_def)

end
