(* ===== verification/Prop_Value.thy ===== *)
theory Prop_Value
  imports Prop_Area
begin

text \<open>
  The value of a property record. The top byte of the serial is the length of the value, its
  lowest bit says that a writer is at work, and the bits in between count the updates. The
  value lies in a buffer of fixed size and ends at its first NUL.
\<close>

section \<open>Definitions\<close>

definition SERIAL_DIRTY :: "u32 \<Rightarrow> bool" where
  "SERIAL_DIRTY serial \<longleftrightarrow> serial AND 1 \<noteq> 0"

definition SERIAL_VALUE_LEN :: "u32 \<Rightarrow> nat" where
  "SERIAL_VALUE_LEN serial = unat (drop_bit 24 serial)"

text \<open>\<^verbatim>\<open>strlcpy\<close> into a buffer: at most \<open>size - 1\<close> characters and a NUL.\<close>

definition strlcpy :: "string \<Rightarrow> string \<Rightarrow> nat \<Rightarrow> string" where
  "strlcpy buf src sz =
     (if sz = 0 then buf
      else let out = take (sz - 1) (c_str src) @ [NUL] in out @ drop (length out) buf)"

text \<open>The three writes that \<^verbatim>\<open>__system_property_update\<close> makes to a record, in order.\<close>

definition update_begin :: "prop_info \<Rightarrow> prop_info" where
  "update_begin i = i\<lparr>pi_serial := pi_serial i OR 1\<rparr>"

definition update_copy :: "string \<Rightarrow> nat \<Rightarrow> prop_info \<Rightarrow> prop_info" where
  "update_copy value len i = i\<lparr>pi_value := strlcpy (pi_value i) value (len + 1)\<rparr>"

definition serial_next :: "nat \<Rightarrow> u32 \<Rightarrow> u32" where
  "serial_next len serial = push_bit 24 (of_nat len) OR ((serial + 1) AND 0xffffff)"

definition update_end :: "nat \<Rightarrow> prop_info \<Rightarrow> prop_info" where
  "update_end len i = i\<lparr>pi_serial := serial_next len (pi_serial i)\<rparr>"

definition update_info :: "string \<Rightarrow> nat \<Rightarrow> prop_info \<Rightarrow> prop_info" where
  "update_info value len i = update_end len (update_copy value len (update_begin i))"

text \<open>
  One pass of \<^verbatim>\<open>__system_property_read\<close> with no writer at work. A dirty serial is waited for;
  with no writer the wait does not end. The results are the length, the bytes copied into the
  caller's value buffer, and the name cut to the caller's buffer.
\<close>

definition system_property_serial :: "prop_info \<Rightarrow> u32 option" where
  "system_property_serial i =
     (if SERIAL_DIRTY (pi_serial i) then None else Some (pi_serial i))"

definition system_property_read :: "prop_info \<Rightarrow> (nat \<times> string \<times> string) option" where
  "system_property_read i =
     (case system_property_serial i of
        None \<Rightarrow> None
      | Some serial \<Rightarrow>
          (let len = SERIAL_VALUE_LEN serial in
           Some (len, take (len + 1) (pi_value i), take (PROP_NAME_MAX - 1) (pi_name i))))"

definition system_property_read_callback :: "prop_info \<Rightarrow> (string \<times> string \<times> u32) option" where
  "system_property_read_callback i =
     (case system_property_serial i of
        None \<Rightarrow> None
      | Some serial \<Rightarrow>
          Some (pi_name i, take (SERIAL_VALUE_LEN serial) (pi_value i) @ [NUL], serial))"

section \<open>Serials\<close>

lemma SERIAL_DIRTY_bit: "SERIAL_DIRTY s \<longleftrightarrow> bit s 0"
  by (simp add: SERIAL_DIRTY_def and_one_eq odd_iff_mod_2_eq_one bit_0)

lemma mask24: "(x :: u32) AND 0xffffff = take_bit 24 x"
  by (simp add: take_bit_eq_mask mask_eq_exp_minus_1)

lemma serial_next_clean:
  assumes "\<not> SERIAL_DIRTY s"
  shows "serial_next len (s OR 1) = push_bit 24 (of_nat len) OR take_bit 24 (s + 2)"
proof -
  have "s AND 1 = 0" using assms by (simp add: SERIAL_DIRTY_def)
  then have "s OR 1 = s + 1" by (simp only: disjunctive_add_eq_or)
  then show ?thesis by (simp add: serial_next_def mask24 add.assoc)
qed

lemma take_bit_serial_next:
  assumes "\<not> SERIAL_DIRTY s"
  shows "take_bit 24 (serial_next len (s OR 1)) = take_bit 24 (s + 2)"
  unfolding serial_next_clean[OF assms] by (rule bit_eqI) (auto simp: bit_simps)

lemma serial_next_not_dirty:
  assumes "\<not> SERIAL_DIRTY s"
  shows "\<not> SERIAL_DIRTY (serial_next len (s OR 1))"
proof -
  have "even (s + 2)" using assms by (simp add: SERIAL_DIRTY_bit bit_0)
  then have "\<not> bit (take_bit 24 (serial_next len (s OR 1))) 0"
    unfolding take_bit_serial_next[OF assms] by (simp add: bit_0)
  then show ?thesis by (simp add: SERIAL_DIRTY_bit bit_take_bit_iff)
qed

lemma drop_bit_serial: 
  assumes "len < 256"
  shows "unat (drop_bit 24 (push_bit 24 (of_nat len) OR take_bit 24 (x :: u32))) = len"
proof -
  have "drop_bit 24 (push_bit 24 (of_nat len) OR take_bit 24 x) = take_bit 8 (of_nat len :: u32)"
    by (rule bit_eqI) (auto simp: bit_simps)
  also have "\<dots> = of_nat len"
    using assms by (simp add: take_bit_nat_eq_self flip: of_nat_take_bit)
  finally show ?thesis using assms by (simp add: unat_of_nat take_bit_nat_eq_self)
qed

lemma SERIAL_VALUE_LEN_next:
  assumes "\<not> SERIAL_DIRTY s" "len < 256"
  shows "SERIAL_VALUE_LEN (serial_next len (s OR 1)) = len"
  unfolding SERIAL_VALUE_LEN_def serial_next_clean[OF assms(1)] by (rule drop_bit_serial[OF assms(2)])

section \<open>Well-formed records\<close>

definition prop_value :: "prop_info \<Rightarrow> string" where
  "prop_value i = c_str (pi_value i)"

definition info_ok :: "prop_info \<Rightarrow> bool" where
  "info_ok i \<longleftrightarrow>
     length (pi_value i) = PROP_VALUE_MAX \<and> length (prop_value i) < PROP_VALUE_MAX
     \<and> \<not> SERIAL_DIRTY (pi_serial i)
     \<and> SERIAL_VALUE_LEN (pi_serial i) = length (prop_value i)"

text \<open>What a property value may be.\<close>

definition value_ok :: "string \<Rightarrow> bool" where
  "value_ok v \<longleftrightarrow> NUL \<notin> set v \<and> length v < PROP_VALUE_MAX"

lemma strlcpy_whole:
  assumes "value_ok v"
  shows "strlcpy buf v (length v + 1) = (v @ [NUL]) @ drop (length v + 1) buf"
  using assms by (simp add: strlcpy_def value_ok_def c_str_id Let_def)

lemma mk_prop_info_ok:
  assumes "value_ok v"
  shows "info_ok (mk_prop_info n v)" "prop_value (mk_prop_info n v) = v" "pi_name (mk_prop_info n v) = n"
proof -
  have "PROP_VALUE_MAX - length v = Suc (PROP_VALUE_MAX - length v - 1)"
    using assms by (auto simp: value_ok_def)
  then have "pi_value (mk_prop_info n v) = v @ NUL # replicate (PROP_VALUE_MAX - length v - 1) NUL"
    by (metis mk_prop_info_def prop_info.select_convs(2) replicate_Suc)
  then show pv: "prop_value (mk_prop_info n v) = v"
    using assms by (simp add: prop_value_def c_str_append_NUL value_ok_def)
  have "\<not> SERIAL_DIRTY (push_bit 24 (of_nat (length v)))"
    by (simp add: SERIAL_DIRTY_bit bit_push_bit_iff)
  moreover have "SERIAL_VALUE_LEN (push_bit 24 (of_nat (length v))) = length v"
    using assms drop_bit_serial[of "length v" 0] by (simp add: value_ok_def SERIAL_VALUE_LEN_def)
  ultimately show "info_ok (mk_prop_info n v)"
    using pv assms by (simp add: info_ok_def mk_prop_info_def value_ok_def)
  show "pi_name (mk_prop_info n v) = n" by (simp add: mk_prop_info_def)
qed

text \<open>Two counts of updates give the same serial bits only when they are a full cycle apart.\<close>

lemma unat_take_bit_24: "unat (take_bit 24 (x + y :: u32)) = (unat x + unat y) mod 2 ^ 24"
proof -
  have "unat (take_bit 24 (x + y)) = (unat x + unat y) mod 2 ^ 32 mod 2 ^ 24"
    by (simp add: take_bit_eq_mod unat_mod unat_word_ariths)
  also have "\<dots> = (unat x + unat y) mod 2 ^ 24" by (rule mod_mod_cancel) simp
  finally show ?thesis .
qed

lemma take_bit_24_cong:
  fixes x y z :: u32
  assumes "take_bit 24 x = take_bit 24 y"
  shows "take_bit 24 (x + z) = take_bit 24 (y + z)"
proof -
  have "unat x mod 2 ^ 24 = unat y mod 2 ^ 24"
    using arg_cong[OF assms, of unat] by (simp add: take_bit_eq_mod unat_mod)
  then have "unat (take_bit 24 (x + z)) = unat (take_bit 24 (y + z))"
    unfolding unat_take_bit_24 by (rule mod_add_cong) simp
  then show ?thesis by (simp only: word_unat_eq_iff)
qed

lemma take_bit_24_add:
  fixes x :: u32
  assumes "take_bit 24 (x + of_nat d) = take_bit 24 x"
  shows "2 ^ 24 dvd d"
proof -
  have "unat (take_bit 24 (x + of_nat d)) = unat (take_bit 24 (x + 0))" using assms by simp
  then have "(unat x + unat (of_nat d :: u32)) mod 2 ^ 24 = unat x mod 2 ^ 24"
    unfolding unat_take_bit_24 by simp
  then have "2 ^ 24 dvd unat (of_nat d :: u32)"
    using mod_eq_dvd_iff_nat[of "unat x" "unat x + unat (of_nat d :: u32)" "2 ^ 24"] by simp
  then have "2 ^ 24 dvd d mod 2 ^ 32" by (simp add: unat_of_nat take_bit_eq_mod)
  then show ?thesis by (simp add: dvd_mod_iff)
qed

lemma serial_next_differs:
  assumes "\<not> SERIAL_DIRTY s"
  shows "serial_next len (s OR 1) \<noteq> s"
proof
  assume "serial_next len (s OR 1) = s"
  then have "take_bit 24 (s + of_nat 2) = take_bit 24 s" using take_bit_serial_next[OF assms, of len] by simp
  then have "2 ^ 24 dvd (2 :: nat)" by (rule take_bit_24_add)
  then show False by (auto dest: dvd_imp_le)
qed

lemma update_info_ok:
  assumes i: "info_ok i" and v: "value_ok v"
  shows "info_ok (update_info v (length v) i)" "prop_value (update_info v (length v) i) = v"
    "pi_name (update_info v (length v) i) = pi_name i"
    "pi_serial (update_info v (length v) i) \<noteq> pi_serial i"
proof -
  have nd: "\<not> SERIAL_DIRTY (pi_serial i)" using i by (simp add: info_ok_def)
  have ser: "pi_serial (update_info v (length v) i) = serial_next (length v) (pi_serial i OR 1)"
    by (simp add: update_info_def update_end_def update_copy_def update_begin_def)
  have val: "pi_value (update_info v (length v) i) = (v @ [NUL]) @ drop (length v + 1) (pi_value i)"
    using strlcpy_whole[OF v] by (simp add: update_info_def update_end_def update_copy_def update_begin_def)
  show pv: "prop_value (update_info v (length v) i) = v"
    using v by (simp add: prop_value_def val c_str_append_NUL value_ok_def)
  show "pi_serial (update_info v (length v) i) \<noteq> pi_serial i"
    unfolding ser by (rule serial_next_differs[OF nd])
  show "pi_name (update_info v (length v) i) = pi_name i"
    by (simp add: update_info_def update_end_def update_copy_def update_begin_def)
  have "length (pi_value (update_info v (length v) i)) = PROP_VALUE_MAX"
    using i v by (simp add: val info_ok_def value_ok_def)
  then show "info_ok (update_info v (length v) i)"
    using v pv nd by (simp add: info_ok_def ser serial_next_not_dirty SERIAL_VALUE_LEN_next value_ok_def)
qed

lemma info_ok_buffer:
  assumes "info_ok i"
  shows "take (length (prop_value i) + 1) (pi_value i) = prop_value i @ [NUL]"
proof -
  let ?n = "length (prop_value i)"
  have n: "?n < length (pi_value i)" using assms by (simp add: info_ok_def)
  have "pi_value i ! ?n = NUL"
    using n nth_length_takeWhile[of "\<lambda>c. c \<noteq> NUL" "pi_value i"] by (simp add: prop_value_def c_str_def)
  moreover have "take ?n (pi_value i) = prop_value i"
    by (simp add: prop_value_def c_str_def takeWhile_eq_take[symmetric])
  ultimately show ?thesis using n by (simp add: take_Suc_conv_app_nth)
qed

lemma read_info_ok:
  assumes "info_ok i"
  shows "system_property_read i =
    Some (length (prop_value i), prop_value i @ [NUL], take (PROP_NAME_MAX - 1) (pi_name i))"
  using assms info_ok_buffer[OF assms]
  by (simp add: system_property_read_def system_property_serial_def info_ok_def)

section \<open>Properties\<close>

text \<open>
  Updating a record and reading it: the update keeps the record well-formed (a clean serial
  whose top byte is the length of the value, a NUL within the buffer), a read then returns the
  new value and its length, the name is the old one, and the serial differs from the one
  before, so that a waiting process notices.
\<close>

theorem update_then_read:
  assumes "info_ok i" "value_ok v"
  shows "let i' = update_info v (length v) i in
    info_ok i' \<and> system_property_read i' = Some (length v, v @ [NUL], take (PROP_NAME_MAX - 1) (pi_name i))
    \<and> pi_name i' = pi_name i \<and> pi_serial i' \<noteq> pi_serial i"
  using update_info_ok[OF assms] read_info_ok[of "update_info v (length v) i"] by (simp add: Let_def)

theorem update_then_read_witness:
  "let i = mk_prop_info ''a'' ''old''; i' = update_info ''v'' (length ''v'') i in
    info_ok i' \<and> system_property_read i' = Some (length ''v'', ''v'' @ [NUL], take (PROP_NAME_MAX - 1) (pi_name i))
    \<and> pi_name i' = pi_name i \<and> pi_serial i' \<noteq> pi_serial i"
  using update_then_read[OF mk_prop_info_ok(1), of "''old''" "''v''" "''a''"]
  by (simp add: value_ok_def Let_def)

text \<open>
  C26. A value with a NUL inside breaks a record: the serial reports the length that the caller
  passed, while the copy stops at the NUL, so a later read reports a length that is not that of
  the value it copies. \<^verbatim>\<open>property_service.cpp\<close> accepts such values from its socket.
\<close>

theorem update_with_NUL_breaks_record:
  "let i = update_info [CHR ''x'', NUL, CHR ''y''] 3 (mk_prop_info ''a'' ''secret'') in
     \<not> info_ok i \<and> SERIAL_VALUE_LEN (pi_serial i) = 3 \<and> prop_value i = ''x'' \<and>
     take 4 (pi_value i) = [CHR ''x'', NUL, CHR ''c'', CHR ''r'']"
proof -
  let ?i = "update_info [CHR ''x'', NUL, CHR ''y''] 3 (mk_prop_info ''a'' ''secret'')"
  have "pi_serial ?i = serial_next 3 (pi_serial (mk_prop_info ''a'' ''secret'') OR 1)"
    by (simp add: update_info_def update_end_def update_copy_def update_begin_def)
  then have len: "SERIAL_VALUE_LEN (pi_serial ?i) = 3"
    using SERIAL_VALUE_LEN_next[of "pi_serial (mk_prop_info ''a'' ''secret'')" 3]
      mk_prop_info_ok(1)[of "''secret''" "''a''"] by (simp add: info_ok_def value_ok_def)
  have buf: "pi_value ?i = CHR ''x'' # NUL # ''cret'' @ replicate 86 NUL"
    by (simp add: update_info_def update_end_def update_copy_def update_begin_def strlcpy_def
        mk_prop_info_def c_str_def)
  then have "prop_value ?i = ''x''" by (simp add: prop_value_def c_str_def)
  then show ?thesis using len buf by (simp add: info_ok_def Let_def)
qed

end
