(* ===== verification/System_Properties.thy ===== *)
theory System_Properties
  imports Prop_Contexts Prop_Value "HOL-Library.Monad_Syntax"
begin

text \<open>
  The property system of a process: the prefix and context lists, the mappings of the area
  files, and the public operations \<^verbatim>\<open>__system_property_*\<close>. The files hold the areas; a
  mapping is shared, so writing through it changes the file. What the kernel answers (which
  files can be opened, created, mapped or read) is a parameter \<open>os_env\<close>.

  An operation returns \<open>None\<close> where the source aborts, follows a dangling pointer or does not
  return.
\<close>

section \<open>State\<close>

datatype open_result = OpenOk | OpenEACCES | OpenFail

record os_env =
  os_access :: "string \<Rightarrow> bool"
  os_is_dir :: "string \<Rightarrow> bool"
  os_lines :: "string \<Rightarrow> string list option"
  os_creat :: "string \<Rightarrow> open_result"
  os_open_ro :: "string \<Rightarrow> bool"
  os_fsetxattr :: "string \<Rightarrow> string \<Rightarrow> bool"
  os_ftruncate :: "string \<Rightarrow> bool"
  os_fstat :: "string \<Rightarrow> bool"
  os_mmap :: "string \<Rightarrow> bool"
  os_uid :: nat
  os_gid :: nat

record prop_file =
  fl_uid :: nat
  fl_gid :: nat
  fl_mode :: u32
  fl_size :: nat
  fl_area :: prop_area

type_synonym prop_files = "string \<Rightarrow> prop_file option"

record sysprops =
  sp_prefixes :: "prefix_node list"
  sp_contexts :: "context_node list"
  sp_area :: "pa_ptr option"
  sp_filename :: string
  sp_initialized :: bool
  sp_files :: prop_files

definition PROP_FILENAME_MAX :: nat where
  "PROP_FILENAME_MAX = 1024"

section \<open>Mapping area files\<close>

text \<open>
  The result says whether an area was mapped, with the flag \<^verbatim>\<open>*fsetxattr_failed\<close> and the files
  after the call. Creating a file that exists fails with \<^verbatim>\<open>EEXIST\<close>.
\<close>

definition map_prop_area_rw ::
  "os_env \<Rightarrow> string \<Rightarrow> string \<Rightarrow> bool \<Rightarrow> prop_files \<Rightarrow> (bool \<times> bool \<times> prop_files) option" where
  "map_prop_area_rw os filename context failed files =
     (if files filename \<noteq> None then Some (False, failed, files)
      else case os_creat os filename of
        OpenEACCES \<Rightarrow> None
      | OpenFail \<Rightarrow> Some (False, failed, files)
      | OpenOk \<Rightarrow>
          (let file = \<lparr>fl_uid = os_uid os, fl_gid = os_gid os, fl_mode = 0x124, fl_size = 0,
                       fl_area = mk_prop_area 0 0 0\<rparr>;
               failed' = (failed \<or> \<not> os_fsetxattr os filename context) in
           if \<not> os_ftruncate os filename then Some (False, failed', files(filename \<mapsto> file))
           else
             let file1 = file\<lparr>fl_size := PA_SIZE\<rparr> in
             if \<not> os_mmap os filename then Some (False, failed', files(filename \<mapsto> file1))
             else Some (True, failed', files(filename \<mapsto> file1\<lparr>fl_area := new_prop_area\<rparr>))))"

definition S_IWGRP_OTH :: u32 where
  "S_IWGRP_OTH = 0x12"

definition map_fd_ro :: "os_env \<Rightarrow> string \<Rightarrow> prop_file \<Rightarrow> prop_file option" where
  "map_fd_ro os filename fd =
     (if \<not> os_fstat os filename then None
      else if fl_uid fd \<noteq> 0 \<or> fl_gid fd \<noteq> 0 \<or> fl_mode fd AND S_IWGRP_OTH \<noteq> 0
              \<or> fl_size fd < sizeof_prop_area then None
      else if \<not> os_mmap os filename then None
      else if pa_magic (fl_area fd) \<noteq> PROP_AREA_MAGIC \<or> pa_version (fl_area fd) \<noteq> PROP_AREA_VERSION
      then None
      else Some (fd\<lparr>fl_area := (fl_area fd)\<lparr>pa_data_size := fl_size fd - sizeof_prop_area\<rparr>\<rparr>))"

definition map_prop_area :: "os_env \<Rightarrow> string \<Rightarrow> prop_files \<Rightarrow> bool \<times> prop_files" where
  "map_prop_area os filename files =
     (if \<not> os_open_ro os filename then (False, files)
      else case files filename of
        None \<Rightarrow> (False, files)
      | Some fd \<Rightarrow>
          (case map_fd_ro os filename fd of
             None \<Rightarrow> (False, files)
           | Some fd' \<Rightarrow> (True, files(filename \<mapsto> fd'))))"

text \<open>
  The name of an area's file. The formatter returns the length the whole text needs and writes
  at most one byte less than the buffer holds; the check lets a text of exactly the buffer's
  size through, which is then cut by one character.
\<close>

definition area_path :: "string \<Rightarrow> string \<Rightarrow> string option" where
  "area_path dir base =
     (let full = dir @ ''/'' @ base in
      if length full > PROP_FILENAME_MAX then None
      else Some (take (PROP_FILENAME_MAX - 1) full))"

section \<open>Context nodes\<close>

text \<open>The result of \<^verbatim>\<open>open\<close> is whether the node has an area afterwards.\<close>

definition context_open ::
  "os_env \<Rightarrow> string \<Rightarrow> bool \<Rightarrow> context_node \<Rightarrow> bool \<Rightarrow> prop_files
     \<Rightarrow> (context_node \<times> bool \<times> prop_files) option" where
  "context_open os dir access_rw cn failed files =
     (if cn_pa cn \<noteq> None then Some (cn, failed, files)
      else case area_path dir (cn_context cn) of
        None \<Rightarrow> Some (cn, failed, files)
      | Some filename \<Rightarrow>
          if access_rw then
            map_option
              (\<lambda>(ok, failed', files').
                 (cn\<lparr>cn_pa := if ok then Some (Ptr filename False) else None\<rparr>, failed', files'))
              (map_prop_area_rw os filename (cn_context cn) failed files)
          else
            (let (ok, files') = map_prop_area os filename files in
             Some (cn\<lparr>cn_pa := if ok then Some (Ptr filename False) else None\<rparr>, failed, files')))"

definition check_access :: "os_env \<Rightarrow> string \<Rightarrow> context_node \<Rightarrow> bool" where
  "check_access os dir cn =
     (case area_path dir (cn_context cn) of
        None \<Rightarrow> False
      | Some filename \<Rightarrow> os_access os filename)"

definition check_access_and_open ::
  "os_env \<Rightarrow> string \<Rightarrow> context_node \<Rightarrow> prop_files \<Rightarrow> (context_node \<times> prop_files) option" where
  "check_access_and_open os dir cn files =
     (if cn_pa cn = None \<and> \<not> cn_no_access cn then
        (if \<not> check_access os dir cn then Some (cn\<lparr>cn_no_access := True\<rparr>, files)
         else do {
           (cn', _, files') \<leftarrow> context_open os dir False cn False files;
           Some (if cn_pa cn' = None then cn'\<lparr>cn_no_access := True\<rparr> else cn', files')
         })
      else Some (cn, files))"

text \<open>Unmapping the area that is also the global one clears the global pointer.\<close>

definition context_unmap :: "context_node \<Rightarrow> pa_ptr option \<Rightarrow> context_node \<times> pa_ptr option" where
  "context_unmap cn area =
     (if cn_pa cn = None then (cn, area)
      else (cn\<lparr>cn_pa := None\<rparr>, if cn_pa cn = area then None else area))"

definition reset_access ::
  "os_env \<Rightarrow> string \<Rightarrow> context_node \<Rightarrow> pa_ptr option \<Rightarrow> context_node \<times> pa_ptr option" where
  "reset_access os dir cn area =
     (if \<not> check_access os dir cn then
        (let (cn', area') = context_unmap cn area in (cn'\<lparr>cn_no_access := True\<rparr>, area'))
      else (cn\<lparr>cn_no_access := False\<rparr>, area))"

fun reset_all ::
  "os_env \<Rightarrow> string \<Rightarrow> context_node list \<Rightarrow> pa_ptr option \<Rightarrow> context_node list \<times> pa_ptr option" where
  "reset_all os dir [] area = ([], area)"
| "reset_all os dir (cn # cns) area =
     (let (cn', area1) = reset_access os dir cn area;
          (cns', area2) = reset_all os dir cns area1
      in (cn' # cns', area2))"

definition map_system_property_area ::
  "os_env \<Rightarrow> bool \<Rightarrow> bool \<Rightarrow> sysprops \<Rightarrow> (bool \<times> bool \<times> sysprops) option" where
  "map_system_property_area os access_rw failed s =
     (case area_path (sp_filename s) ''properties_serial'' of
        None \<Rightarrow> Some (False, failed, s\<lparr>sp_area := None\<rparr>)
      | Some filename \<Rightarrow> do {
          (ok, failed', files') \<leftarrow>
            (if access_rw
             then map_prop_area_rw os filename ''u:object_r:properties_serial:s0'' failed (sp_files s)
             else let (ok, files') = map_prop_area os filename (sp_files s) in Some (ok, failed, files'));
          Some (ok, failed', s\<lparr>sp_area := if ok then Some (Ptr filename True) else None,
                               sp_files := files'\<rparr>)
        })"

text \<open>The context node of a name; opening it replaces the node in the list.\<close>

fun replace_context :: "context_node list \<Rightarrow> context_node \<Rightarrow> context_node list" where
  "replace_context [] cn = []"
| "replace_context (x # xs) cn =
     (if cn_context x = cn_context cn then cn # xs else x # replace_context xs cn)"

definition get_prop_area_for_name ::
  "os_env \<Rightarrow> string \<Rightarrow> sysprops \<Rightarrow> (pa_ptr option \<times> sysprops) option" where
  "get_prop_area_for_name os name s =
     (case list_find (sp_prefixes s) (prefix_matches name) of
        None \<Rightarrow> Some (None, s)
      | Some entry \<Rightarrow>
          (case list_find (sp_contexts s) (\<lambda>l. cn_context l = pf_context entry) of
             None \<Rightarrow> None
           | Some cnode \<Rightarrow>
               if cn_pa cnode = None then do {
                 (cn', _, files') \<leftarrow>
                   context_open os (sp_filename s) False cnode False (sp_files s);
                 Some (cn_pa cn', s\<lparr>sp_contexts := replace_context (sp_contexts s) cn',
                                    sp_files := files'\<rparr>)
               } else Some (cn_pa cnode, s)))"

section \<open>Initialisation\<close>

definition property_context_line :: "string \<Rightarrow> sysprops \<Rightarrow> sysprops" where
  "property_context_line buffer s =
     (case read_spec_entries (c_str buffer) 2 of
        [prop_prefix, context] \<Rightarrow>
          if starts_with prop_prefix ''ctl.'' then s
          else
            (case list_find (sp_contexts s) (\<lambda>l. cn_context l = context) of
               Some old_context \<Rightarrow>
                 s\<lparr>sp_prefixes :=
                     list_add_after_len (sp_prefixes s) prop_prefix (cn_context old_context)\<rparr>
             | None \<Rightarrow>
                 s\<lparr>sp_contexts := mk_context_node context None # sp_contexts s,
                   sp_prefixes := list_add_after_len (sp_prefixes s) prop_prefix context\<rparr>)
      | _ \<Rightarrow> s)"

definition initialize_properties_from_file ::
  "os_env \<Rightarrow> string \<Rightarrow> sysprops \<Rightarrow> bool \<times> sysprops" where
  "initialize_properties_from_file os filename s =
     (case os_lines os filename of
        None \<Rightarrow> (False, s)
      | Some lines \<Rightarrow> (True, fold property_context_line lines s))"

definition initialize_properties :: "os_env \<Rightarrow> sysprops \<Rightarrow> bool \<times> sysprops" where
  "initialize_properties os s =
     (let (ok, s1) = initialize_properties_from_file os ''/property_contexts'' s in
      if ok then (True, s1)
      else
        let (plat, vendor) =
          (if os_access os ''/system/etc/selinux/plat_property_contexts''
           then (''/system/etc/selinux/plat_property_contexts'',
                 ''/vendor/etc/selinux/nonplat_property_contexts'')
           else (''/plat_property_contexts'', ''/nonplat_property_contexts''));
            (ok, s2) = initialize_properties_from_file os plat s1 in
        if \<not> ok then (False, s2)
        else (True, snd (initialize_properties_from_file os vendor s2)))"

definition free_and_unmap_contexts :: "sysprops \<Rightarrow> sysprops" where
  "free_and_unmap_contexts s = s\<lparr>sp_prefixes := [], sp_contexts := [], sp_area := None\<rparr>"

definition system_properties_init :: "os_env \<Rightarrow> sysprops \<Rightarrow> (int \<times> sysprops) option" where
  "system_properties_init os s =
     (if sp_initialized s then
        (let (cns, area) = reset_all os (sp_filename s) (sp_contexts s) (sp_area s) in
         Some (0, s\<lparr>sp_contexts := cns, sp_area := area\<rparr>))
      else if os_is_dir os (sp_filename s) then
        (let (ok, s1) = initialize_properties os s in
         if \<not> ok then Some (-1, s1)
         else do {
           (mapped, _, s2) \<leftarrow> map_system_property_area os False False s1;
           if \<not> mapped then Some (-1, free_and_unmap_contexts s2)
           else Some (0, s2\<lparr>sp_initialized := True\<rparr>)
         })
      else
        (let (ok, files') = map_prop_area os (sp_filename s) (sp_files s) in
         if \<not> ok then Some (-1, s\<lparr>sp_area := None\<rparr>)
         else
           let area = Some (Ptr (sp_filename s) True) in
           Some (0, s\<lparr>sp_area := area, sp_files := files',
                      sp_contexts := mk_context_node ''legacy_system_prop_area'' area # sp_contexts s,
                      sp_prefixes := list_add_after_len (sp_prefixes s) ''*'' ''legacy_system_prop_area'',
                      sp_initialized := True\<rparr>)))"

definition system_property_set_filename :: "string \<Rightarrow> sysprops \<Rightarrow> int \<times> sysprops" where
  "system_property_set_filename filename s =
     (if length filename \<ge> PROP_FILENAME_MAX then (-1, s)
      else (0, s\<lparr>sp_filename := filename\<rparr>))"

fun open_all ::
  "os_env \<Rightarrow> string \<Rightarrow> context_node list \<Rightarrow> bool \<Rightarrow> bool \<Rightarrow> prop_files
     \<Rightarrow> (context_node list \<times> bool \<times> bool \<times> prop_files) option" where
  "open_all os dir [] open_failed failed files = Some ([], open_failed, failed, files)"
| "open_all os dir (cn # cns) open_failed failed files = do {
     (cn', failed1, files1) \<leftarrow> context_open os dir True cn failed files;
     (cns', open_failed', failed2, files2) \<leftarrow>
       open_all os dir cns (open_failed \<or> cn_pa cn' = None) failed1 files1;
     Some (cn' # cns', open_failed', failed2, files2)
   }"

definition system_property_area_init :: "os_env \<Rightarrow> sysprops \<Rightarrow> (int \<times> sysprops) option" where
  "system_property_area_init os s =
     (let (ok, s1) = initialize_properties os (free_and_unmap_contexts s) in
      if \<not> ok then Some (-1, s1)
      else do {
        (cns, open_failed, failed, files) \<leftarrow>
          open_all os (sp_filename s1) (sp_contexts s1) False False (sp_files s1);
        let s2 = s1\<lparr>sp_contexts := cns, sp_files := files\<rparr>;
        if open_failed then Some (-1, free_and_unmap_contexts s2)
        else do {
          (mapped, failed', s3) \<leftarrow> map_system_property_area os True failed s2;
          if \<not> mapped then Some (-1, free_and_unmap_contexts s3)
          else Some (if failed' then -2 else 0, s3\<lparr>sp_initialized := True\<rparr>)
        }
      })"

section \<open>Operations\<close>

text \<open>
  A pointer to a record is the file of its area and the record's offset. A name or value is
  passed with its length, which is the length of the string.
\<close>

type_synonym pi_ptr = "string \<times> nat"

definition deref_pi :: "sysprops \<Rightarrow> pi_ptr \<Rightarrow> prop_info option" where
  "deref_pi s p = Option.bind (sp_files s (fst p)) (\<lambda>f. deref_info (fl_area f) (snd p))"

definition set_area :: "string \<Rightarrow> prop_area \<Rightarrow> sysprops \<Rightarrow> sysprops" where
  "set_area path pa s =
     (case sp_files s path of
        None \<Rightarrow> s
      | Some f \<Rightarrow> s\<lparr>sp_files := (sp_files s)(path \<mapsto> f\<lparr>fl_area := pa\<rparr>)\<rparr>)"

definition system_property_area_serial :: "sysprops \<Rightarrow> u32 option" where
  "system_property_area_serial s =
     (case sp_area s of
        None \<Rightarrow> Some (-1)
      | Some p \<Rightarrow> map_option (\<lambda>f. area_serial (fl_area f)) (sp_files s (ptr_file p)))"

definition system_property_find ::
  "os_env \<Rightarrow> string \<Rightarrow> sysprops \<Rightarrow> (pi_ptr option \<times> sysprops) option" where
  "system_property_find os name s =
     (if sp_area s = None then Some (None, s)
      else do {
        (pa, s1) \<leftarrow> get_prop_area_for_name os name s;
        case pa of
          None \<Rightarrow> Some (None, s1)
        | Some p \<Rightarrow> do {
            f \<leftarrow> sp_files s1 (ptr_file p);
            r \<leftarrow> pa_find (fl_area f) name;
            Some (map_option (Pair (ptr_file p)) r, s1)
          }
      })"

text \<open>The two stores that announce a change: the serial of the global area goes up by one.\<close>

definition bump_area_serial :: "sysprops \<Rightarrow> sysprops option" where
  "bump_area_serial s = do {
     p \<leftarrow> sp_area s;
     f \<leftarrow> sp_files s (ptr_file p);
     Some (set_area (ptr_file p) ((fl_area f)\<lparr>area_serial := area_serial (fl_area f) + 1\<rparr>) s)
   }"

definition system_property_update ::
  "pi_ptr \<Rightarrow> string \<Rightarrow> sysprops \<Rightarrow> (int \<times> sysprops) option" where
  "system_property_update pi val s =
     (if length val \<ge> PROP_VALUE_MAX then Some (-1, s)
      else if sp_area s = None then Some (-1, s)
      else do {
        f \<leftarrow> sp_files s (fst pi);
        i \<leftarrow> deref_info (fl_area f) (snd pi);
        let pa = put_obj (snd pi) (Info (update_info val (length val) i)) (fl_area f);
        s' \<leftarrow> bump_area_serial (set_area (fst pi) pa s);
        Some (0, s')
      })"

definition system_property_add ::
  "os_env \<Rightarrow> string \<Rightarrow> string \<Rightarrow> sysprops \<Rightarrow> (int \<times> sysprops) option" where
  "system_property_add os name val s =
     (if length val \<ge> PROP_VALUE_MAX then Some (-1, s)
      else if length name < 1 then Some (-1, s)
      else if sp_area s = None then Some (-1, s)
      else do {
        (pa, s1) \<leftarrow> get_prop_area_for_name os name s;
        case pa of
          None \<Rightarrow> Some (-1, s1)
        | Some p \<Rightarrow> do {
            f \<leftarrow> sp_files s1 (ptr_file p);
            (ret, pa') \<leftarrow> pa_add (fl_area f) name val;
            let s2 = set_area (ptr_file p) pa' s1;
            if \<not> ret then Some (-1, s2)
            else do { s3 \<leftarrow> bump_area_serial s2; Some (0, s3) }
          }
      })"

text \<open>\<^verbatim>\<open>__system_property_get\<close>: the length and the bytes in the caller's buffer.\<close>

definition system_property_get ::
  "os_env \<Rightarrow> string \<Rightarrow> sysprops \<Rightarrow> (nat \<times> string \<times> sysprops) option" where
  "system_property_get os name s = do {
     (pi, s1) \<leftarrow> system_property_find os name s;
     case pi of
       None \<Rightarrow> Some (0, [NUL], s1)
     | Some p \<Rightarrow> do {
         i \<leftarrow> deref_pi s1 p;
         (len, val, _) \<leftarrow> system_property_read i;
         Some (len, val, s1)
       }
   }"

text \<open>
  The traversal of all areas. The callback only reads in this model: it is represented by the
  list of records it is called with.
\<close>

fun foreach_contexts ::
  "os_env \<Rightarrow> string \<Rightarrow> context_node list \<Rightarrow> prop_files
     \<Rightarrow> (pi_ptr list \<times> context_node list \<times> prop_files) option" where
  "foreach_contexts os dir [] files = Some ([], [], files)"
| "foreach_contexts os dir (cn # cns) files = do {
     (cn', files1) \<leftarrow> check_access_and_open os dir cn files;
     xs \<leftarrow> (case cn_pa cn' of
             None \<Rightarrow> Some []
           | Some p \<Rightarrow> do {
               f \<leftarrow> files1 (ptr_file p);
               (_, offs) \<leftarrow> pa_foreach (fl_area f);
               Some (map (Pair (ptr_file p)) offs)
             });
     (ys, cns', files2) \<leftarrow> foreach_contexts os dir cns files1;
     Some (xs @ ys, cn' # cns', files2)
   }"

definition system_property_foreach ::
  "os_env \<Rightarrow> sysprops \<Rightarrow> (int \<times> pi_ptr list \<times> sysprops) option" where
  "system_property_foreach os s =
     (if sp_area s = None then Some (-1, [], s)
      else do {
        (xs, cns, files) \<leftarrow> foreach_contexts os (sp_filename s) (sp_contexts s) (sp_files s);
        Some (0, xs, s\<lparr>sp_contexts := cns, sp_files := files\<rparr>)
      })"

text \<open>The callback of \<^verbatim>\<open>__system_property_find_nth\<close>, run over the records in order.\<close>

fun find_nth_fn :: "nat \<Rightarrow> pi_ptr list \<Rightarrow> nat \<Rightarrow> pi_ptr option \<Rightarrow> pi_ptr option" where
  "find_nth_fn sought [] current result = result"
| "find_nth_fn sought (p # ps) current result =
     find_nth_fn sought ps (Suc current) (if current = sought then Some p else result)"

definition system_property_find_nth ::
  "os_env \<Rightarrow> nat \<Rightarrow> sysprops \<Rightarrow> (pi_ptr option \<times> sysprops) option" where
  "system_property_find_nth os n s = do {
     (_, xs, s') \<leftarrow> system_property_foreach os s;
     Some (find_nth_fn n xs 0 None, s')
   }"

text \<open>
  Waiting for a serial to change. The environment supplies for every turn of the loop whether
  the futex wait timed out and the serial that is loaded after it; the wait goes on while the
  list lasts, and \<open>None\<close> means it has not returned. Without a global area the function
  returns \<^verbatim>\<open>-1\<close> from a \<^verbatim>\<open>bool\<close> function, that is, true, and stores no serial.
\<close>

fun wait_loop :: "u32 \<Rightarrow> (bool \<times> u32) list \<Rightarrow> (bool \<times> u32 option) option" where
  "wait_loop old_serial [] = None"
| "wait_loop old_serial ((timed_out, new_serial) # turns) =
     (if timed_out then Some (False, None)
      else if new_serial = old_serial then wait_loop old_serial turns
      else Some (True, Some new_serial))"

definition system_property_wait ::
  "pi_ptr option \<Rightarrow> u32 \<Rightarrow> (bool \<times> u32) list \<Rightarrow> sysprops \<Rightarrow> (bool \<times> u32 option) option" where
  "system_property_wait pi old_serial turns s =
     (if pi = None \<and> sp_area s = None then Some (True, None)
      else wait_loop old_serial turns)"

end
