(* ===== verification/Sysprops_Correct.thy ===== *)
theory Sysprops_Correct
  imports System_Properties
begin

text \<open>
  The property system as a map from names to values. The interface that the property service
  relies on is the locale \<open>property_store\<close>; it is interpreted on the operations of
  \<^verbatim>\<open>system_properties.cpp\<close> in a process that has all areas mapped, which is how
  \<open>system_property_area_init\<close> leaves the init process.
\<close>

section \<open>The interface\<close>

locale property_store =
  fixes find :: "string \<Rightarrow> 's \<Rightarrow> ('p option \<times> 's) option"
    and update :: "'p \<Rightarrow> string \<Rightarrow> 's \<Rightarrow> (int \<times> 's) option"
    and add :: "string \<Rightarrow> string \<Rightarrow> 's \<Rightarrow> (int \<times> 's) option"
    and inv :: "'s \<Rightarrow> bool"
    and view :: "'s \<Rightarrow> string \<Rightarrow> string option"
    and name_ok :: "string \<Rightarrow> bool"
    and value_ok :: "string \<Rightarrow> bool"
    and full :: "'s \<Rightarrow> string \<Rightarrow> bool"
  assumes find_law: "inv s \<Longrightarrow> name_ok n \<Longrightarrow> \<exists>p. find n s = Some (p, s) \<and> (p = None \<longleftrightarrow> view s n = None)"
    and update_law: "inv s \<Longrightarrow> name_ok n \<Longrightarrow> find n s = Some (Some p, s) \<Longrightarrow> value_ok v \<Longrightarrow>
      \<exists>s'. update p v s = Some (0, s') \<and> inv s' \<and> view s' = (view s)(n \<mapsto> v)"
    and add_law: "inv s \<Longrightarrow> name_ok n \<Longrightarrow> view s n = None \<Longrightarrow> value_ok v \<Longrightarrow>
      \<exists>rc s'. add n v s = Some (rc, s') \<and> inv s' \<and>
        (rc = 0 \<and> view s' = (view s)(n \<mapsto> v) \<or> rc = -1 \<and> view s' = view s \<and> full s n)"
begin

definition store_set :: "string \<Rightarrow> string \<Rightarrow> 's \<Rightarrow> (int \<times> 's) option" where
  "store_set n v s = do {
     (p, s1) \<leftarrow> find n s;
     case p of Some p \<Rightarrow> update p v s1 | None \<Rightarrow> add n v s1
   }"

lemma store_set_spec:
  assumes "inv s" "name_ok n" "value_ok v"
  shows "\<exists>rc s'. store_set n v s = Some (rc, s') \<and> inv s' \<and>
    (rc = 0 \<and> view s' = (view s)(n \<mapsto> v) \<or> rc = -1 \<and> view s' = view s \<and> view s n = None \<and> full s n)"
proof -
  obtain p where fp: "find n s = Some (p, s) \<and> (p = None \<longleftrightarrow> view s n = None)"
    using find_law[OF assms(1,2)] by (elim exE)
  note p = fp[THEN conjunct1] fp[THEN conjunct2]
  show ?thesis
  proof (cases p)
    case None
    with p have "view s n = None" by simp
    from add_law[OF assms(1,2) this assms(3)] obtain rc s' where "add n v s = Some (rc, s')" "inv s'"
      "rc = 0 \<and> view s' = (view s)(n \<mapsto> v) \<or> rc = -1 \<and> view s' = view s \<and> full s n" by blast
    then show ?thesis using None p(1) \<open>view s n = None\<close> by (simp add: store_set_def)
  next
    case (Some q)
    from update_law[OF assms(1,2) p(1)[unfolded Some] assms(3)] obtain s'
      where "update q v s = Some (0, s')" "inv s'" "view s' = (view s)(n \<mapsto> v)" by blast
    then show ?thesis using Some p(1) by (simp add: store_set_def)
  qed
qed

end

section \<open>Ready processes\<close>

definition infos_ok :: "prop_area \<Rightarrow> bool" where
  "infos_ok pa \<longleftrightarrow> (\<forall>n i. valid_name n \<longrightarrow> area_map pa n = Some i \<longrightarrow> info_ok i)"

definition file_ok :: "prop_file \<Rightarrow> bool" where
  "file_ok f \<longleftrightarrow> wf_area (fl_area f) \<and> infos_ok (fl_area f)"

definition mapped :: "sysprops \<Rightarrow> pa_ptr option \<Rightarrow> bool" where
  "mapped s p \<longleftrightarrow> (\<exists>q f. p = Some q \<and> sp_files s (ptr_file q) = Some f \<and> file_ok f)"

definition sys_lists :: "sysprops \<Rightarrow> bool" where
  "sys_lists s \<longleftrightarrow>
     distinct (map cn_context (sp_contexts s))
     \<and> (\<forall>x \<in> set (sp_prefixes s). pf_context x \<in> cn_context ` set (sp_contexts s))"

definition sys_ready :: "sysprops \<Rightarrow> bool" where
  "sys_ready s \<longleftrightarrow> sys_lists s \<and> (\<forall>cn \<in> set (sp_contexts s). mapped s (cn_pa cn)) \<and> mapped s (sp_area s)"

definition area_of :: "sysprops \<Rightarrow> string \<Rightarrow> pa_ptr option" where
  "area_of s name =
     Option.bind (list_find (sp_prefixes s) (prefix_matches name))
       (\<lambda>e. Option.bind (list_find (sp_contexts s) (\<lambda>l. cn_context l = pf_context e)) cn_pa)"

definition sys_info :: "sysprops \<Rightarrow> string \<Rightarrow> prop_info option" where
  "sys_info s name =
     Option.bind (area_of s name)
       (\<lambda>p. Option.bind (sp_files s (ptr_file p)) (\<lambda>f. area_map (fl_area f) name))"

text \<open>The map that the property system stands for.\<close>

definition sys_view :: "sysprops \<Rightarrow> string \<Rightarrow> string option" where
  "sys_view s name = (if valid_name name then map_option prop_value (sys_info s name) else None)"

lemma list_find_in: "list_find xs f = Some x \<Longrightarrow> x \<in> set xs \<and> f x"
  using list_find_SomeD[of xs f x] by auto

lemma area_of_cases:
  assumes "sys_ready s"
  obtains "list_find (sp_prefixes s) (prefix_matches name) = None" "area_of s name = None"
  | e cn p f where "list_find (sp_prefixes s) (prefix_matches name) = Some e"
      "list_find (sp_contexts s) (\<lambda>l. cn_context l = pf_context e) = Some cn"
      "cn_pa cn = Some p" "area_of s name = Some p" "sp_files s (ptr_file p) = Some f" "file_ok f"
proof (cases "list_find (sp_prefixes s) (prefix_matches name)")
  case None
  then show thesis using that(1) by (simp add: area_of_def)
next
  case (Some e)
  then have "pf_context e \<in> cn_context ` set (sp_contexts s)"
    using assms list_find_in[OF Some] by (auto simp: sys_ready_def sys_lists_def)
  then obtain cn where cn: "list_find (sp_contexts s) (\<lambda>l. cn_context l = pf_context e) = Some cn"
    using list_find_None[of "sp_contexts s" "\<lambda>l. cn_context l = pf_context e"] by fastforce
  then have "mapped s (cn_pa cn)" using list_find_in[OF cn] assms by (auto simp: sys_ready_def)
  then obtain p f where p: "cn_pa cn = Some p" "sp_files s (ptr_file p) = Some f" "file_ok f"
    by (auto simp: mapped_def)
  then show thesis using that(2)[OF Some cn p(1) _ p(2,3)] Some cn by (simp add: area_of_def)
qed

lemma get_prop_area_ready:
  assumes "sys_ready s"
  shows "get_prop_area_for_name os name s = Some (area_of s name, s)"
  using assms by (rule area_of_cases[of s name]) (simp_all add: get_prop_area_for_name_def)

lemma area_of_mapped: "sys_ready s \<Longrightarrow> area_of s name = Some p \<Longrightarrow> mapped s (Some p)"
  by (rule area_of_cases[of s name]) (auto simp: mapped_def)

section \<open>Changing an area\<close>

lemma set_area_sel [simp]:
  "sp_prefixes (set_area path pa s) = sp_prefixes s"
  "sp_contexts (set_area path pa s) = sp_contexts s"
  "sp_area (set_area path pa s) = sp_area s"
  "area_of (set_area path pa s) = area_of s"
  by (simp_all add: set_area_def area_of_def[abs_def] split: option.splits)

lemma sp_files_set_area:
  "sp_files (set_area path pa s) q =
     (if q = path then map_option (\<lambda>f. f\<lparr>fl_area := pa\<rparr>) (sp_files s path) else sp_files s q)"
  by (auto simp: set_area_def split: option.splits)

lemma sys_ready_set_area:
  assumes "sys_ready s" "wf_area pa" "infos_ok pa"
  shows "sys_ready (set_area path pa s)"
proof -
  have "mapped s p \<Longrightarrow> mapped (set_area path pa s) p" for p
    using assms(2,3) by (auto simp: mapped_def sp_files_set_area file_ok_def)
  then show ?thesis using assms(1) by (auto simp: sys_ready_def sys_lists_def)
qed

lemma sys_info_set_area:
  assumes "sp_files s path = Some f"
  shows "sys_info (set_area path pa s) m =
    (if \<exists>p. area_of s m = Some p \<and> ptr_file p = path then area_map pa m else sys_info s m)"
  using assms by (cases "area_of s m") (auto simp: sys_info_def sp_files_set_area)

lemma area_trie_serial: "area_trie (pa\<lparr>area_serial := x\<rparr>) c \<longleftrightarrow> area_trie pa c"
  by (simp add: area_trie_def node_inv_def names_inv_def root_inv_def)

lemma area_map_serial:
  assumes "wf_area pa"
  shows "wf_area (pa\<lparr>area_serial := x\<rparr>)"
    and "valid_name m \<Longrightarrow> area_map (pa\<lparr>area_serial := x\<rparr>) m = area_map pa m"
proof -
  from assms obtain c where c: "area_trie pa c" by (auto simp: wf_area_def)
  then have c': "area_trie (pa\<lparr>area_serial := x\<rparr>) c" by (simp add: area_trie_serial)
  then show "wf_area (pa\<lparr>area_serial := x\<rparr>)" by (auto simp: wf_area_def)
  assume m: "valid_name m"
  show "area_map (pa\<lparr>area_serial := x\<rparr>) m = area_map pa m"
    using area_map_trie[OF c m] area_map_trie[OF c' m] by (simp add: deref_info_def)
qed

lemma bump_area_serial_spec:
  assumes r: "sys_ready s"
  obtains s' where "bump_area_serial s = Some s'" "sys_ready s'" "sys_view s' = sys_view s"
    "\<exists>x. system_property_area_serial s = Some x \<and> system_property_area_serial s' = Some (x + 1)"
proof -
  from r obtain p f where p: "sp_area s = Some p" "sp_files s (ptr_file p) = Some f"
    "wf_area (fl_area f)" "infos_ok (fl_area f)" by (auto simp: sys_ready_def mapped_def file_ok_def)
  let ?pa = "(fl_area f)\<lparr>area_serial := area_serial (fl_area f) + 1\<rparr>"
  let ?s = "set_area (ptr_file p) ?pa s"
  have io: "infos_ok ?pa" using p(4) area_map_serial(2)[OF p(3)] by (simp add: infos_ok_def)
  have "sys_view ?s m = sys_view s m" for m
    using p(2) area_map_serial(2)[OF p(3)]
    by (cases "area_of s m") (auto simp: sys_view_def sys_info_def sp_files_set_area)
  then have v: "sys_view ?s = sys_view s" by blast
  have "system_property_area_serial s = Some (area_serial (fl_area f))"
    "system_property_area_serial ?s = Some (area_serial (fl_area f) + 1)"
    using p by (simp_all add: system_property_area_serial_def sp_files_set_area)
  then show thesis
    using that[of ?s] p v sys_ready_set_area[OF r area_map_serial(1)[OF p(3)] io]
    by (simp add: bump_area_serial_def)
qed

section \<open>The laws of the operations\<close>

text \<open>Where a record is: the offset that the lookup in its area gives.\<close>

definition points_to :: "sysprops \<Rightarrow> string \<Rightarrow> pi_ptr \<Rightarrow> bool" where
  "points_to s n p \<longleftrightarrow>
     (\<exists>a f. area_of s n = Some a \<and> ptr_file a = fst p \<and> sp_files s (fst p) = Some f
        \<and> pa_find (fl_area f) n = Some (Some (snd p)))"

lemma system_property_find_spec:
  assumes r: "sys_ready s" and n: "valid_name n"
  obtains p where "system_property_find os n s = Some (p, s)"
    "p = None \<longleftrightarrow> sys_info s n = None"
    "\<And>q. p = Some q \<Longrightarrow> points_to s n q \<and> (\<exists>i. deref_pi s q = Some i \<and> sys_info s n = Some i \<and> info_ok i)"
proof -
  obtain ar where area: "sp_area s = Some ar" using r by (auto simp: sys_ready_def mapped_def)
  show thesis
  proof (cases "area_of s n")
    case None
    then show thesis
      using area get_prop_area_ready[OF r] that[of None] by (simp add: system_property_find_def sys_info_def)
  next
    case (Some a)
    then obtain f where f: "sp_files s (ptr_file a) = Some f" "wf_area (fl_area f)" "infos_ok (fl_area f)"
      using area_of_mapped[OF r Some] by (auto simp: mapped_def file_ok_def)
    obtain x where x: "pa_find (fl_area f) n = Some x"
      "case x of None \<Rightarrow> area_map (fl_area f) n = None
         | Some off \<Rightarrow> \<exists>i. deref_info (fl_area f) off = Some i \<and> pi_name i = n \<and> area_map (fl_area f) n = Some i"
      using pa_find_total[OF f(2) n] by (elim exE conjE)
    have si: "sys_info s n = area_map (fl_area f) n" using Some f by (simp add: sys_info_def)
    have fd: "system_property_find os n s = Some (map_option (Pair (ptr_file a)) x, s)"
      using area get_prop_area_ready[OF r] Some f x(1) by (simp add: system_property_find_def)
    show thesis
    proof (cases x)
      case None
      then show thesis using that[OF fd] x si by simp
    next
      fix off assume off: "x = Some off"
      then obtain i where i: "deref_info (fl_area f) off = Some i" "area_map (fl_area f) n = Some i"
        using x(2) by auto
      then have "info_ok i" using f(3) n by (simp add: infos_ok_def)
      then show thesis
        using that[OF fd] off i si f(1) x(1) Some by (auto simp: points_to_def deref_pi_def)
    qed
  qed
qed

lemma infos_ok_put:
  assumes wf: "wf_area pa" and n: "valid_name n" and f: "pa_find pa n = Some (Some x)"
    and i: "deref_info pa x = Some i" "pi_name i' = pi_name i" "info_ok i'" and ok: "infos_ok pa"
  shows "infos_ok (put_obj x (Info i') pa)"
  using put_info_map(2)[OF wf n f i(1,2)] i(3) ok by (auto simp: infos_ok_def split: if_splits)

lemma system_property_update_spec:
  assumes r: "sys_ready s" and n: "valid_name n" and p: "points_to s n p" and v: "value_ok v"
  obtains s' where "system_property_update p v s = Some (0, s')" "sys_ready s'"
    "sys_view s' = (sys_view s)(n \<mapsto> v)"
    "\<exists>x. system_property_area_serial s = Some x \<and> system_property_area_serial s' = Some (x + 1)"
proof -
  from p obtain a f where a: "area_of s n = Some a" "ptr_file a = fst p" "sp_files s (fst p) = Some f"
    "pa_find (fl_area f) n = Some (Some (snd p))" by (auto simp: points_to_def)
  have f: "wf_area (fl_area f)" "infos_ok (fl_area f)"
    using area_of_mapped[OF r a(1)] a(2,3) by (auto simp: mapped_def file_ok_def)
  obtain i where i: "deref_info (fl_area f) (snd p) = Some i" "area_map (fl_area f) n = Some i"
    using pa_find_total[OF f(1) n] a(4) by auto
  let ?i = "update_info v (length v) i"
  let ?pa = "put_obj (snd p) (Info ?i) (fl_area f)"
  let ?s = "set_area (fst p) ?pa s"
  have io: "info_ok i" using f(2) i(2) n by (simp add: infos_ok_def)
  note u = update_info_ok[OF io v]
  note pm = put_info_map[OF f(1) n a(4) i(1) u(3)]
  have rs: "sys_ready ?s"
    by (rule sys_ready_set_area[OF r pm(1) infos_ok_put[OF f(1) n a(4) i(1) u(3,1) f(2)]])
  have view: "sys_view ?s m = ((sys_view s)(n \<mapsto> v)) m" for m
    using pm(2)[of m] u(2) a n
    by (cases "area_of s m") (auto simp: sys_view_def sys_info_def sp_files_set_area)
  have ser: "system_property_area_serial ?s = system_property_area_serial s"
    using a(3) by (auto simp: system_property_area_serial_def sp_files_set_area put_obj_def split: option.splits)
  obtain s' where s': "bump_area_serial ?s = Some s'" "sys_ready s'" "sys_view s' = sys_view ?s"
    "\<exists>x. system_property_area_serial ?s = Some x \<and> system_property_area_serial s' = Some (x + 1)"
    by (rule bump_area_serial_spec[OF rs])
  have "sp_area s \<noteq> None" using r by (auto simp: sys_ready_def mapped_def)
  then have "system_property_update p v s = Some (0, s')"
    using v a(3) i(1) s'(1) by (simp add: system_property_update_def value_ok_def)
  moreover have "sys_view s' = (sys_view s)(n \<mapsto> v)" using s'(3) view by (simp add: fun_eq_iff)
  ultimately show thesis using that s'(2,4) ser by simp
qed

text \<open>Why a property cannot be added: it has no area, or its area may be too full for it.\<close>

definition no_room :: "sysprops \<Rightarrow> string \<Rightarrow> bool" where
  "no_room s n \<longleftrightarrow>
     (case area_of s n of
        None \<Rightarrow> True
      | Some a \<Rightarrow> (\<exists>f. sp_files s (ptr_file a) = Some f
          \<and> pa_data_size (fl_area f) < bytes_used (fl_area f) + need (tokens n) n))"

lemma system_property_add_spec:
  assumes r: "sys_ready s" and n: "valid_name n" and none: "sys_view s n = None" and v: "value_ok v"
  obtains rc s' where "system_property_add os n v s = Some (rc, s')" "sys_ready s'"
    "rc = 0 \<and> sys_view s' = (sys_view s)(n \<mapsto> v)
        \<and> (\<exists>x. system_property_area_serial s = Some x \<and> system_property_area_serial s' = Some (x + 1))
     \<or> rc = -1 \<and> sys_view s' = sys_view s \<and> no_room s n"
proof -
  obtain ar where area: "sp_area s = Some ar" using r by (auto simp: sys_ready_def mapped_def)
  have ne: "n \<noteq> []" using n by (cases n) (auto simp: valid_name_def tokens_def tokens_ok_def name_ok_def split_on_no_sep)
  have len: "length v < PROP_VALUE_MAX" using v by (simp add: value_ok_def)
  show thesis
  proof (cases "area_of s n")
    case None
    then have "system_property_add os n v s = Some (-1, s)"
      using area ne len get_prop_area_ready[OF r] by (simp add: system_property_add_def)
    then show thesis using that r None by (auto simp: no_room_def)
  next
    case (Some a)
    then obtain f where f: "sp_files s (ptr_file a) = Some f" "wf_area (fl_area f)" "infos_ok (fl_area f)"
      using area_of_mapped[OF r Some] by (auto simp: mapped_def file_ok_def)
    obtain ok pa' where pa: "pa_add (fl_area f) n v = Some (ok, pa')" "wf_area pa'"
      "\<And>m. valid_name m \<Longrightarrow> area_map pa' m =
         (if m = n \<and> ok \<and> area_map (fl_area f) n = None then Some (mk_prop_info n v) else area_map (fl_area f) m)"
      "\<not> ok \<Longrightarrow> pa_data_size (fl_area f) < bytes_used (fl_area f) + need (tokens n) n"
      "area_serial pa' = area_serial (fl_area f)"
      using pa_add_spec[OF f(2) n, of v] by metis
    let ?s = "set_area (ptr_file a) pa' s"
    have nm: "area_map (fl_area f) n = None" using none n Some f(1) by (simp add: sys_view_def sys_info_def)
    have io: "infos_ok pa'" using f(3) pa(3) mk_prop_info_ok(1)[OF v] by (auto simp: infos_ok_def)
    have rs: "sys_ready ?s" by (rule sys_ready_set_area[OF r pa(2) io])
    have view: "sys_view ?s m = (if ok then (sys_view s)(n \<mapsto> v) else sys_view s) m" for m
      using pa(3)[of m] nm mk_prop_info_ok(2)[OF v] Some f(1) n
      by (cases "area_of s m") (auto simp: sys_view_def sys_info_def sp_files_set_area)
    have ser: "system_property_area_serial ?s = system_property_area_serial s"
      using f(1) pa(5) by (auto simp: system_property_area_serial_def sp_files_set_area split: option.splits)
    obtain s' where s': "bump_area_serial ?s = Some s'" "sys_ready s'" "sys_view s' = sys_view ?s"
      "\<exists>x. system_property_area_serial ?s = Some x \<and> system_property_area_serial s' = Some (x + 1)"
      by (rule bump_area_serial_spec[OF rs])
    have "system_property_add os n v s = Some (if ok then (0, s') else (-1, ?s))"
      using area ne len get_prop_area_ready[OF r] Some f(1) pa(1) s'(1)
      by (simp add: system_property_add_def)
    moreover have "sys_view ?s = (if ok then (sys_view s)(n \<mapsto> v) else sys_view s)" using view by (rule ext)
    moreover have "no_room s n" if "\<not> ok" using pa(4)[OF that] Some f(1) by (simp add: no_room_def)
    ultimately show thesis using that rs s'(2-4) ser by (cases ok) auto
  qed
qed

interpretation sp: property_store "system_property_find os" system_property_update "system_property_add os"
    sys_ready sys_view valid_name value_ok no_room for os
proof
  show "\<exists>p. system_property_find os n s = Some (p, s) \<and> (p = None) = (sys_view s n = None)"
    if "sys_ready s" "valid_name n" for s n
    using that by (rule system_property_find_spec[of s n os]) (use that in \<open>auto simp: sys_view_def\<close>)
  show "\<exists>s'. system_property_update p v s = Some (0, s') \<and> sys_ready s' \<and> sys_view s' = (sys_view s)(n \<mapsto> v)"
    if r: "sys_ready s" "valid_name n" and f: "system_property_find os n s = Some (Some p, s)" and v: "value_ok v"
    for s n p v
  proof -
    have "points_to s n p" by (rule system_property_find_spec[OF r, of os]) (use f in auto)
    then show ?thesis using system_property_update_spec[OF r _ v] by metis
  qed
  show "\<exists>rc s'. system_property_add os n v s = Some (rc, s') \<and> sys_ready s' \<and>
      (rc = 0 \<and> sys_view s' = (sys_view s)(n \<mapsto> v) \<or> rc = -1 \<and> sys_view s' = sys_view s \<and> no_room s n)"
    if "sys_ready s" "valid_name n" "sys_view s n = None" "value_ok v" for s n v
    using system_property_add_spec[OF that, of os] by metis
qed

end
