(* ===== verification/Sysprops_Init.thy ===== *)
theory Sysprops_Init
  imports Sysprops_Correct
begin

text \<open>
  How the property system starts: what the property-context files make of the two lists, and
  the state in which \<open>system_property_area_init\<close> leaves the init process. Then the
  operations that read: lookup of a value and traversal.
\<close>

section \<open>The context files\<close>

lemma sys_lists_line: "sys_lists s \<Longrightarrow> sys_lists (property_context_line l s)"
proof -
  assume s: "sys_lists s"
  have "sys_lists (s\<lparr>sp_prefixes := list_add_after_len (sp_prefixes s) pre (cn_context c)\<rparr>)"
    if "list_find (sp_contexts s) (\<lambda>l. cn_context l = ctx) = Some c" for pre ctx c
    using s list_find_in[OF that] by (auto simp: sys_lists_def mk_prefix_node_def)
  moreover have "sys_lists (s\<lparr>sp_contexts := mk_context_node ctx None # sp_contexts s,
      sp_prefixes := list_add_after_len (sp_prefixes s) pre ctx\<rparr>)"
    if "list_find (sp_contexts s) (\<lambda>l. cn_context l = ctx) = None" for pre ctx
    using s that by (auto simp: sys_lists_def mk_prefix_node_def mk_context_node_def list_find_None)
  ultimately show ?thesis using s
    by (auto simp: property_context_line_def split: list.splits option.splits)
qed

text \<open>What a line does not touch.\<close>

lemma property_context_line_sel [simp]:
  "sp_area (property_context_line l s) = sp_area s"
  "sp_files (property_context_line l s) = sp_files s"
  "sp_filename (property_context_line l s) = sp_filename s"
  by (auto simp: property_context_line_def split: list.splits option.splits)

definition all_closed :: "sysprops \<Rightarrow> bool" where
  "all_closed s \<longleftrightarrow> (\<forall>cn \<in> set (sp_contexts s). cn_pa cn = None)"

lemma all_closed_line: "all_closed s \<Longrightarrow> all_closed (property_context_line l s)"
  by (auto simp: all_closed_def property_context_line_def mk_context_node_def split: list.splits option.splits)

definition init_ok :: "sysprops \<Rightarrow> sysprops \<Rightarrow> bool" where
  "init_ok s t \<longleftrightarrow> (sys_lists s \<longrightarrow> sys_lists t) \<and> (all_closed s \<longrightarrow> all_closed t)
     \<and> sp_files t = sp_files s \<and> sp_filename t = sp_filename s"

lemma init_ok_refl [simp]: "init_ok s s"
  by (simp add: init_ok_def)

lemma init_ok_trans: "init_ok s t \<Longrightarrow> init_ok t u \<Longrightarrow> init_ok s u"
  by (simp add: init_ok_def)

lemma init_ok_lines: "init_ok s (fold property_context_line ls s)"
proof (induction ls arbitrary: s)
  case (Cons l ls)
  have "init_ok s (property_context_line l s)"
    by (simp add: init_ok_def sys_lists_line all_closed_line)
  then show ?case using Cons[of "property_context_line l s"] init_ok_trans by simp
qed simp

lemma init_ok_from_file: "init_ok s (snd (initialize_properties_from_file os fn s))"
  by (auto simp: initialize_properties_from_file_def init_ok_lines split: option.splits)

lemma init_ok_initialize: "init_ok s (snd (initialize_properties os s))"
proof -
  have f: "init_ok s t" if "initialize_properties_from_file os fn s = (b, t)" for fn b s t
    using init_ok_from_file[of s os fn] that by simp
  show ?thesis
    unfolding initialize_properties_def Let_def
    by (auto split: prod.splits if_splits dest!: f intro: init_ok_trans init_ok_from_file)
qed

section \<open>Opening the areas\<close>

definition fresh_file :: "prop_file \<Rightarrow> bool" where
  "fresh_file f \<longleftrightarrow> fl_area f = new_prop_area"

lemma fresh_file_ok: "fresh_file f \<Longrightarrow> file_ok f"
  using wf_new_prop_area new_prop_area_empty by (simp add: fresh_file_def file_ok_def infos_ok_def)

text \<open>A file is created, never opened, so the files that were there stay as they were.\<close>

definition grows :: "prop_files \<Rightarrow> prop_files \<Rightarrow> bool" where
  "grows fs gs \<longleftrightarrow> (\<forall>q f. fs q = Some f \<longrightarrow> gs q = Some f)"

lemma map_prop_area_rw_spec:
  assumes "map_prop_area_rw os fn ctx failed files = Some (ok, failed', files')"
  shows "grows files files' \<and> (ok \<longrightarrow> files fn = None \<and> (\<exists>f. files' fn = Some f \<and> fresh_file f))"
  using assms
  by (auto simp: map_prop_area_rw_def grows_def fresh_file_def Let_def
      split: if_splits open_result.splits)

definition opened :: "prop_files \<Rightarrow> prop_files \<Rightarrow> context_node \<Rightarrow> bool" where
  "opened files files' cn \<longleftrightarrow>
     (\<exists>p f. cn_pa cn = Some p \<and> files (ptr_file p) = None \<and> files' (ptr_file p) = Some f \<and> fresh_file f)"

lemma context_open_rw_spec:
  assumes "context_open os dir True cn failed files = Some (cn', failed', files')" "cn_pa cn = None"
  shows "cn_context cn' = cn_context cn \<and> grows files files' \<and> (cn_pa cn' = None \<or> opened files files' cn')"
proof (cases "area_path dir (cn_context cn)")
  case None
  then show ?thesis using assms by (simp add: context_open_def grows_def)
next
  case (Some fn)
  then obtain ok where "map_prop_area_rw os fn (cn_context cn) failed files = Some (ok, failed', files')"
    "cn' = cn\<lparr>cn_pa := if ok then Some (Ptr fn False) else None\<rparr>"
    using assms by (auto simp: context_open_def split: if_splits)
  then show ?thesis using map_prop_area_rw_spec by (fastforce simp: opened_def)
qed

lemma opened_mono:
  assumes "grows f1 f2" "grows f3 f4" "opened f2 f3 cn"
  shows "opened f1 f4 cn"
proof -
  obtain p f where p: "cn_pa cn = Some p" "f2 (ptr_file p) = None" "f3 (ptr_file p) = Some f" "fresh_file f"
    using assms(3) by (auto simp: opened_def)
  moreover have "f1 (ptr_file p) = None" using assms(1) p(2) by (cases "f1 (ptr_file p)") (auto simp: grows_def)
  moreover have "f4 (ptr_file p) = Some f" using assms(2) p(3) by (auto simp: grows_def)
  ultimately show ?thesis by (auto simp: opened_def)
qed

lemma grows_refl [simp]: "grows f f"
  by (simp add: grows_def)

lemma grows_trans: "grows f g \<Longrightarrow> grows g h \<Longrightarrow> grows f h"
  by (auto simp: grows_def)

definition ptr_files :: "context_node list \<Rightarrow> string list" where
  "ptr_files cns = map (\<lambda>cn. ptr_file (the (cn_pa cn))) cns"

lemma open_all_spec:
  assumes "open_all os dir cns of0 failed files = Some (cns', of1, failed', files')"
    "\<forall>cn \<in> set cns. cn_pa cn = None"
  shows "map cn_context cns' = map cn_context cns \<and> grows files files' \<and>
    (\<not> of1 \<longrightarrow> \<not> of0 \<and> (\<forall>cn \<in> set cns'. opened files files' cn) \<and> distinct (ptr_files cns'))"
  using assms
proof (induction cns arbitrary: of0 failed files cns')
  case Nil
  then show ?case by (auto simp: ptr_files_def)
next
  case (Cons cn cns)
  from Cons.prems(1) obtain cn1 failed1 files1 cns1 where
    o: "context_open os dir True cn failed files = Some (cn1, failed1, files1)"
       "open_all os dir cns (of0 \<or> cn_pa cn1 = None) failed1 files1 = Some (cns1, of1, failed', files')"
       "cns' = cn1 # cns1"
    by (auto simp: bind_eq_Some_conv)
  have c: "cn_context cn1 = cn_context cn" "grows files files1" "cn_pa cn1 = None \<or> opened files files1 cn1"
    using context_open_rw_spec[OF o(1)] Cons.prems(2) by auto
  note ih = Cons.IH[OF o(2)]
  have g: "grows files1 files'" "map cn_context cns1 = map cn_context cns" using ih Cons.prems(2) by auto
  show ?case
  proof (cases of1)
    case True
    then show ?thesis using c g o(3) grows_trans by auto
  next
    case False
    then have all: "\<not> of0" "cn_pa cn1 \<noteq> None" "\<forall>cn \<in> set cns1. opened files1 files' cn"
      "distinct (ptr_files cns1)" using ih Cons.prems(2) by auto
    have op: "opened files files1 cn1" using c(3) all(2) by auto
    have "ptr_file (the (cn_pa cn1)) \<notin> set (ptr_files cns1)"
      using op all(3) by (fastforce simp: opened_def ptr_files_def)
    moreover have "\<forall>cn \<in> set cns'. opened files files' cn"
      using opened_mono[OF grows_refl g(1) op] opened_mono[OF c(2) grows_refl] all(3) o(3) by auto
    ultimately show ?thesis
      using c g o(3) all grows_trans by (auto simp: ptr_files_def)
  qed
qed

section \<open>Routing\<close>

text \<open>
  Contexts have files of their own, and a property lies in the area of the context that its
  name leads to.
\<close>

definition sys_routed :: "sysprops \<Rightarrow> bool" where
  "sys_routed s \<longleftrightarrow> distinct (ptr_files (sp_contexts s)) \<and>
     (\<forall>cn \<in> set (sp_contexts s). \<forall>p f n.
        cn_pa cn = Some p \<longrightarrow> sp_files s (ptr_file p) = Some f \<longrightarrow> valid_name n \<longrightarrow>
        area_map (fl_area f) n \<noteq> None \<longrightarrow> area_of s n = Some p)"

lemma area_of_context:
  "area_of s n = Some p \<Longrightarrow> \<exists>cn \<in> set (sp_contexts s). cn_pa cn = Some p"
  by (auto simp: area_of_def bind_eq_Some_conv dest!: list_find_in)

lemma ptr_files_inj:
  assumes "distinct (ptr_files cns)" "cn \<in> set cns" "cn' \<in> set cns"
    "ptr_file (the (cn_pa cn)) = ptr_file (the (cn_pa cn'))"
  shows "cn = cn'"
  using assms by (auto simp: ptr_files_def distinct_map inj_on_def)

lemma sys_routed_set_area:
  assumes r: "sys_routed s" and f: "sp_files s path = Some f"
    and new: "\<And>n. valid_name n \<Longrightarrow> area_map pa n \<noteq> None \<Longrightarrow> area_map (fl_area f) n = None \<Longrightarrow>
      \<exists>p. area_of s n = Some p \<and> ptr_file p = path"
  shows "sys_routed (set_area path pa s)"
  unfolding sys_routed_def
proof (intro conjI ballI allI impI)
  show "distinct (ptr_files (sp_contexts (set_area path pa s)))" using r by (simp add: sys_routed_def)
  fix cn p g n assume cn: "cn \<in> set (sp_contexts (set_area path pa s))" "cn_pa cn = Some p"
    and g: "sp_files (set_area path pa s) (ptr_file p) = Some g" "valid_name n" "area_map (fl_area g) n \<noteq> None"
  show "area_of (set_area path pa s) n = Some p"
  proof (cases "ptr_file p = path \<and> area_map (fl_area f) n = None")
    case True
    then obtain q where q: "area_of s n = Some q" "ptr_file q = path"
      using new[OF g(2)] g f True by (auto simp: sp_files_set_area)
    obtain cn' where cn': "cn' \<in> set (sp_contexts s)" "cn_pa cn' = Some q"
      using area_of_context[OF q(1)] by blast
    have "cn = cn'" using ptr_files_inj[of "sp_contexts s" cn cn'] r cn cn' q(2) True by (simp add: sys_routed_def)
    then show ?thesis using cn cn' q by simp
  next
    case False
    then obtain h where "sp_files s (ptr_file p) = Some h" "area_map (fl_area h) n \<noteq> None"
      using g f by (auto simp: sp_files_set_area split: if_splits)
    then show ?thesis using r cn g(2) by (auto simp: sys_routed_def)
  qed
qed

lemma sys_routed_bump:
  assumes "sys_ready s" "sys_routed s" "bump_area_serial s = Some s'"
  shows "sys_routed s'"
proof -
  from assms(1) obtain p f where p: "sp_area s = Some p" "sp_files s (ptr_file p) = Some f" "wf_area (fl_area f)"
    by (auto simp: sys_ready_def mapped_def file_ok_def)
  then have "s' = set_area (ptr_file p) ((fl_area f)\<lparr>area_serial := area_serial (fl_area f) + 1\<rparr>) s"
    using assms(3) by (simp add: bump_area_serial_def)
  then show ?thesis
    using area_map_serial(2)[OF p(3)] by (auto intro: sys_routed_set_area[OF assms(2) p(2)])
qed

section \<open>The state of the init process\<close>

lemma map_system_property_area_rw_spec:
  assumes "map_system_property_area os True failed s = Some (True, failed', t)"
  obtains fn f files where "t = s\<lparr>sp_area := Some (Ptr fn True), sp_files := files\<rparr>"
    "grows (sp_files s) files" "files fn = Some f" "fresh_file f"
proof -
  obtain fn files where m: "map_prop_area_rw os fn ''u:object_r:properties_serial:s0'' failed (sp_files s)
      = Some (True, failed', files)" and t: "t = s\<lparr>sp_area := Some (Ptr fn True), sp_files := files\<rparr>"
    using assms by (auto simp: map_system_property_area_def bind_eq_Some_conv split: option.splits if_splits)
  show thesis using that[OF t] map_prop_area_rw_spec[OF m] by blast
qed

lemma area_init_spec:
  assumes i: "system_property_area_init os s = Some (rc, t)" and rc: "rc = 0 \<or> rc = -2"
  shows "sys_ready t \<and> sys_routed t \<and> sys_view t = (\<lambda>_. None) \<and> sp_initialized t"
proof -
  obtain ok s1 where s1: "initialize_properties os (free_and_unmap_contexts s) = (ok, s1)" by fastforce
  have base: "sys_lists (free_and_unmap_contexts s)" "all_closed (free_and_unmap_contexts s)"
    by (auto simp: free_and_unmap_contexts_def sys_lists_def all_closed_def)
  have l1: "sys_lists s1" "all_closed s1"
    using init_ok_initialize[of "free_and_unmap_contexts s" os] base s1 by (auto simp: init_ok_def)
  obtain cns of1 failed files where oa:
    "open_all os (sp_filename s1) (sp_contexts s1) False False (sp_files s1) = Some (cns, of1, failed, files)"
    and of1: "\<not> of1" and ms: "\<exists>failed' s3. map_system_property_area os True failed
        (s1\<lparr>sp_contexts := cns, sp_files := files\<rparr>) = Some (True, failed', s3) \<and> t = s3\<lparr>sp_initialized := True\<rparr>"
    using i rc s1 by (auto simp: system_property_area_init_def bind_eq_Some_conv Let_def split: if_splits)
  have sp: "map cn_context cns = map cn_context (sp_contexts s1)" "grows (sp_files s1) files"
    "\<forall>cn \<in> set cns. opened (sp_files s1) files cn" "distinct (ptr_files cns)"
    using open_all_spec[OF oa] l1(2) of1 by (auto simp: all_closed_def)
  from ms obtain failed' s3 where s3: "map_system_property_area os True failed
      (s1\<lparr>sp_contexts := cns, sp_files := files\<rparr>) = Some (True, failed', s3)" "t = s3\<lparr>sp_initialized := True\<rparr>"
    by blast
  obtain fn f files2 where s3': "s3 = (s1\<lparr>sp_contexts := cns, sp_files := files\<rparr>)
        \<lparr>sp_area := Some (Ptr fn True), sp_files := files2\<rparr>"
    and g': "grows (sp_files (s1\<lparr>sp_contexts := cns, sp_files := files\<rparr>)) files2"
    and f: "files2 fn = Some f" "fresh_file f"
    by (rule map_system_property_area_rw_spec[OF s3(1)])
  have t: "t = s1\<lparr>sp_contexts := cns, sp_area := Some (Ptr fn True), sp_files := files2, sp_initialized := True\<rparr>"
    unfolding s3(2) s3' by simp
  have g: "grows files files2" using g' by simp
  have op: "\<exists>p f. cn_pa cn = Some p \<and> files2 (ptr_file p) = Some f \<and> fresh_file f" if "cn \<in> set cns" for cn
    using sp(3) that opened_mono[OF grows_refl g] by (force simp: opened_def)
  have empty: "area_map (fl_area f) n = None" if "fresh_file f" "valid_name n" for f n
    using that new_prop_area_empty by (simp add: fresh_file_def)
  have "cn_context ` set cns = cn_context ` set (sp_contexts s1)" using sp(1) by (metis set_map)
  then have lists: "sys_lists t" using l1(1) sp(1) by (simp add: sys_lists_def t)
  moreover have "mapped t (cn_pa cn)" if "cn \<in> set cns" for cn
    using op[OF that] fresh_file_ok by (auto simp: mapped_def t)
  moreover have "mapped t (sp_area t)" using f fresh_file_ok by (simp add: mapped_def t)
  ultimately have ready: "sys_ready t" by (simp add: sys_ready_def t)
  have routed: "sys_routed t" using sp(4) op empty by (fastforce simp: sys_routed_def t)
  have "sys_view t n = None" for n
  proof (cases "area_of t n")
    case (Some p)
    then obtain cn where "cn \<in> set cns" "cn_pa cn = Some p" using area_of_context[OF Some] by (auto simp: t)
    then obtain f where "files2 (ptr_file p) = Some f" "fresh_file f" using op by fastforce
    then show ?thesis using Some empty by (simp add: sys_view_def sys_info_def) (simp add: t)
  qed (simp add: sys_view_def sys_info_def)
  then show ?thesis using ready routed by (simp add: t fun_eq_iff)
qed

section \<open>Reading\<close>

lemma system_property_get_spec:
  assumes "sys_ready s" "valid_name n"
  shows "system_property_get os n s =
    (case sys_view s n of None \<Rightarrow> Some (0, [NUL], s) | Some v \<Rightarrow> Some (length v, v @ [NUL], s))"
proof -
  obtain p where p: "system_property_find os n s = Some (p, s)" "p = None \<longleftrightarrow> sys_info s n = None"
    "\<And>q. p = Some q \<Longrightarrow> points_to s n q \<and> (\<exists>i. deref_pi s q = Some i \<and> sys_info s n = Some i \<and> info_ok i)"
    using system_property_find_spec[OF assms, of os] by metis
  show ?thesis
  proof (cases p)
    case None
    then show ?thesis using p assms(2) by (simp add: system_property_get_def sys_view_def)
  next
    case (Some q)
    then obtain i where "deref_pi s q = Some i" "sys_info s n = Some i" "info_ok i" using p(3) by blast
    then show ?thesis
      using p(1) Some assms(2) read_info_ok by (simp add: system_property_get_def sys_view_def)
  qed
qed

definition context_records :: "prop_files \<Rightarrow> context_node \<Rightarrow> pi_ptr set" where
  "context_records files cn =
     {(fn, off). \<exists>p f n. cn_pa cn = Some p \<and> fn = ptr_file p \<and> files fn = Some f \<and> valid_name n
        \<and> pa_find (fl_area f) n = Some (Some off)}"

lemma foreach_contexts_spec:
  assumes "\<forall>cn \<in> set cns. \<exists>p f. cn_pa cn = Some p \<and> files (ptr_file p) = Some f \<and> wf_area (fl_area f)"
    "distinct (ptr_files cns)"
  shows "\<exists>xs. foreach_contexts os dir cns files = Some (xs, cns, files) \<and> distinct xs \<and>
    set xs = (\<Union>cn \<in> set cns. context_records files cn)"
  using assms
proof (induction cns)
  case (Cons cn cns)
  obtain p f where p: "cn_pa cn = Some p" "files (ptr_file p) = Some f" "wf_area (fl_area f)"
    using Cons.prems(1) by auto
  obtain offs where offs: "pa_foreach (fl_area f) = Some (True, offs)" "distinct offs"
    "\<And>off. off \<in> set offs \<longleftrightarrow> (\<exists>n. valid_name n \<and> pa_find (fl_area f) n = Some (Some off))"
    using pa_foreach_spec[OF p(3)] by metis
  obtain ys where ys: "foreach_contexts os dir cns files = Some (ys, cns, files)" "distinct ys"
    "set ys = (\<Union>cn \<in> set cns. context_records files cn)"
    using Cons by (auto simp: ptr_files_def)
  let ?xs = "map (Pair (ptr_file p)) offs"
  have run: "foreach_contexts os dir (cn # cns) files = Some (?xs @ ys, cn # cns, files)"
    using p offs(1) ys(1) by (simp add: check_access_and_open_def)
  have "(fn, off) \<in> context_records files cn \<longleftrightarrow> fn = ptr_file p \<and> off \<in> set offs" for fn off
    unfolding offs(3) using p(1,2) by (auto simp: context_records_def)
  then have xs: "set ?xs = context_records files cn" by auto
  have "ptr_file p \<noteq> ptr_file q" if "cn' \<in> set cns" "cn_pa cn' = Some q" for cn' q
    using Cons.prems(2) p(1) that by (force simp: ptr_files_def)
  then have "set ?xs \<inter> set ys = {}" using ys(3) by (auto simp: context_records_def)
  then have "distinct (?xs @ ys)" using offs(2) ys(2) by (auto simp: distinct_map inj_on_def)
  then show ?case using run xs ys(3) by (intro exI[of _ "?xs @ ys"]) simp
qed simp

lemma system_property_foreach_spec:
  assumes r: "sys_ready s" and d: "sys_routed s"
  shows "\<exists>xs. system_property_foreach os s = Some (0, xs, s) \<and> distinct xs \<and>
    set xs = {p. \<exists>n. valid_name n \<and> points_to s n p}"
proof -
  have wf: "\<forall>cn \<in> set (sp_contexts s). \<exists>p f. cn_pa cn = Some p \<and> sp_files s (ptr_file p) = Some f \<and> wf_area (fl_area f)"
    using r by (fastforce simp: sys_ready_def mapped_def file_ok_def)
  obtain xs where xs: "foreach_contexts os (sp_filename s) (sp_contexts s) (sp_files s) = Some (xs, sp_contexts s, sp_files s)"
    "distinct xs" "set xs = (\<Union>cn \<in> set (sp_contexts s). context_records (sp_files s) cn)"
    using foreach_contexts_spec[OF wf, of os "sp_filename s"] d by (auto simp: sys_routed_def)
  have "set xs = {p. \<exists>n. valid_name n \<and> points_to s n p}"
  proof (intro subset_antisym subsetI)
    fix q assume "q \<in> set xs"
    then obtain cn p f off n where q: "q = (ptr_file p, off)" "cn \<in> set (sp_contexts s)" "cn_pa cn = Some p"
      "sp_files s (ptr_file p) = Some f" "valid_name n" "pa_find (fl_area f) n = Some (Some off)"
      using xs(3) by (auto simp: context_records_def)
    have "wf_area (fl_area f)" using wf q by fastforce
    then have "area_map (fl_area f) n \<noteq> None" using pa_find_total[OF _ q(5)] q(6) by fastforce
    then have "area_of s n = Some p" using d q by (auto simp: sys_routed_def)
    then show "q \<in> {p. \<exists>n. valid_name n \<and> points_to s n p}" using q by (auto simp: points_to_def)
  next
    fix q assume "q \<in> {p. \<exists>n. valid_name n \<and> points_to s n p}"
    then obtain n a f where "valid_name n" "area_of s n = Some a" "ptr_file a = fst q"
      "sp_files s (fst q) = Some f" "pa_find (fl_area f) n = Some (Some (snd q))" by (auto simp: points_to_def)
    then show "q \<in> set xs" using area_of_context xs(3) by (cases q) (fastforce simp: context_records_def)
  qed
  moreover have "sp_area s \<noteq> None" using r by (auto simp: sys_ready_def mapped_def)
  moreover have "s\<lparr>sp_contexts := sp_contexts s, sp_files := sp_files s\<rparr> = s" by (cases s) simp
  ultimately show ?thesis using xs by (simp add: system_property_foreach_def)
qed

section \<open>A sample environment\<close>

text \<open>An operating system that grants everything, with one context file of two lines.\<close>

definition sample_os :: os_env where
  "sample_os =
     \<lparr>os_access = (\<lambda>_. True), os_is_dir = (\<lambda>_. True),
      os_lines = (\<lambda>f. if f = ''/property_contexts'' then Some [''* u:default'' @ [CHR 0x0A], ''ro. u:ro'' @ [CHR 0x0A]] else None),
      os_creat = (\<lambda>_. OpenOk), os_open_ro = (\<lambda>_. True), os_fsetxattr = (\<lambda>_ _. True),
      os_ftruncate = (\<lambda>_. True), os_fstat = (\<lambda>_. True), os_mmap = (\<lambda>_. True), os_uid = 0, os_gid = 0\<rparr>"

definition blank_sysprops :: sysprops where
  "blank_sysprops = \<lparr>sp_prefixes = [], sp_contexts = [], sp_area = None,
     sp_filename = ''/dev/__properties__'', sp_initialized = False, sp_files = (\<lambda>_. None)\<rparr>"

definition sample_file :: prop_file where
  "sample_file = \<lparr>fl_uid = 0, fl_gid = 0, fl_mode = 0x124, fl_size = PA_SIZE, fl_area = new_prop_area\<rparr>"

definition sample_context :: "string \<Rightarrow> context_node" where
  "sample_context c = \<lparr>cn_context = c, cn_pa = Some (Ptr (''/dev/__properties__/'' @ c) False), cn_no_access = False\<rparr>"

definition sample_sysprops :: sysprops where
  "sample_sysprops = \<lparr>sp_prefixes = [mk_prefix_node ''ro.'' ''u:ro'', mk_prefix_node ''*'' ''u:default''],
     sp_contexts = [sample_context ''u:ro'', sample_context ''u:default''],
     sp_area = Some (Ptr ''/dev/__properties__/properties_serial'' True),
     sp_filename = ''/dev/__properties__'', sp_initialized = True,
     sp_files = [''/dev/__properties__/u:ro'' \<mapsto> sample_file, ''/dev/__properties__/u:default'' \<mapsto> sample_file,
                 ''/dev/__properties__/properties_serial'' \<mapsto> sample_file]\<rparr>"

lemma sample_lines:
  "read_spec_entries (c_str (''* u:default'' @ [CHR 0x0A])) 2 = [''*'', ''u:default'']"
  "read_spec_entries (c_str (''ro. u:ro'' @ [CHR 0x0A])) 2 = [''ro.'', ''u:ro'']"
  by (simp_all add: read_spec_entries_def c_str_def isspace_def Let_def read_spec_loop.simps read_spec_entry_def)

lemma sample_lists: "initialize_properties sample_os (free_and_unmap_contexts blank_sysprops) =
  (True, blank_sysprops\<lparr>sp_prefixes := [mk_prefix_node ''ro.'' ''u:ro'', mk_prefix_node ''*'' ''u:default''],
     sp_contexts := [mk_context_node ''u:ro'' None, mk_context_node ''u:default'' None]\<rparr>)"
  using sample_lines
  by (simp add: initialize_properties_def initialize_properties_from_file_def property_context_line_def
      sample_os_def blank_sysprops_def free_and_unmap_contexts_def mk_context_node_def mk_prefix_node_def first_char_def)

lemma sample_init: "system_property_area_init sample_os blank_sysprops = Some (0, sample_sysprops)"
  by (simp add: system_property_area_init_def sample_lists)
    (simp add: sample_os_def blank_sysprops_def mk_context_node_def context_open_def area_path_def
      PROP_FILENAME_MAX_def map_prop_area_rw_def map_system_property_area_def Let_def
      sample_sysprops_def sample_context_def sample_file_def)

lemma sample_ready: "sys_ready sample_sysprops" "sys_routed sample_sysprops"
  using area_init_spec[OF sample_init] by auto

section \<open>Properties\<close>

text \<open>
  C21. When the property area is initialised successfully (whatever the context files say and
  with or without SELinux labels), every context has a mapped, well-formed area of its own,
  every prefix leads to a context, the global area is mapped, and no property is set.
\<close>

theorem area_init_establishes_ready:
  assumes "system_property_area_init os s = Some (rc, t)" "rc = 0 \<or> rc = -2"
  shows "sys_ready t \<and> sys_routed t \<and> sys_view t = (\<lambda>_. None) \<and> sp_initialized t"
  by (rule area_init_spec[OF assms])

theorem area_init_establishes_ready_witness:
  "sys_ready sample_sysprops \<and> sys_routed sample_sysprops \<and> sys_view sample_sysprops = (\<lambda>_. None)
     \<and> sp_initialized sample_sysprops"
  by (rule area_init_establishes_ready[OF sample_init]) simp

text \<open>
  C18. Adding a property that is not set, in a ready process: the call ends and the process stays
  ready. Either it returns 0, the property has the value, no other property has changed, and
  the serial of the global area has gone up by one; or it returns -1, no property has changed,
  and the name has no area or its area had no room for it.
\<close>

theorem system_property_add_correct:
  assumes "sys_ready s" "valid_name n" "sys_view s n = None" "value_ok v"
  shows "\<exists>rc s'. system_property_add os n v s = Some (rc, s') \<and> sys_ready s' \<and>
    (rc = 0 \<and> sys_view s' = (sys_view s)(n \<mapsto> v)
        \<and> (\<exists>x. system_property_area_serial s = Some x \<and> system_property_area_serial s' = Some (x + 1))
     \<or> rc = -1 \<and> sys_view s' = sys_view s \<and> no_room s n)"
  using system_property_add_spec[OF assms, of os] by metis

theorem system_property_add_correct_witness:
  "\<exists>rc s'. system_property_add sample_os ''ro.x'' ''1'' sample_sysprops = Some (rc, s') \<and> sys_ready s' \<and>
    (rc = 0 \<and> sys_view s' = (sys_view sample_sysprops)(''ro.x'' \<mapsto> ''1'')
        \<and> (\<exists>x. system_property_area_serial sample_sysprops = Some x \<and> system_property_area_serial s' = Some (x + 1))
     \<or> rc = -1 \<and> sys_view s' = sys_view sample_sysprops \<and> no_room sample_sysprops ''ro.x'')"
  by (rule system_property_add_correct[OF sample_ready(1) valid_name_sample])
    (use area_init_spec[OF sample_init] in \<open>auto simp: value_ok_def\<close>)

text \<open>
  C19. Updating a property through the record that the lookup returned: the call returns 0, the
  property has the new value, no other property has changed, the process stays ready, and
  the serial of the global area has gone up by one.
\<close>

theorem system_property_update_correct:
  assumes "sys_ready s" "valid_name n" "system_property_find os n s = Some (Some p, s)" "value_ok v"
  shows "\<exists>s'. system_property_update p v s = Some (0, s') \<and> sys_ready s' \<and> sys_view s' = (sys_view s)(n \<mapsto> v)
    \<and> (\<exists>x. system_property_area_serial s = Some x \<and> system_property_area_serial s' = Some (x + 1))"
proof -
  have "points_to s n p" by (rule system_property_find_spec[OF assms(1,2), of os]) (use assms(3) in auto)
  then show ?thesis using system_property_update_spec[OF assms(1,2) _ assms(4)] by metis
qed

definition sample_sysprops2 :: sysprops where
  "sample_sysprops2 = snd (the (system_property_add sample_os ''ro.x'' ''1'' sample_sysprops))"

definition sample_ptr :: pi_ptr where
  "sample_ptr = the (fst (the (system_property_find sample_os ''ro.x'' sample_sysprops2)))"

lemma sample_room: "\<not> no_room sample_sysprops ''ro.x''"
proof -
  have "tokens ''ro.x'' = [''ro'', ''x'']" by code_simp
  then show ?thesis
    by (simp add: no_room_def area_of_def sample_sysprops_def mk_prefix_node_def prefix_matches_def first_char_def
        sample_context_def sample_file_def new_prop_area_def mk_prop_area_def need_def need_bt_def need_info_def BIONIC_ALIGN_def)
qed

lemma sample_add:
  "system_property_add sample_os ''ro.x'' ''1'' sample_sysprops = Some (0, sample_sysprops2)"
  "sys_ready sample_sysprops2" "sys_view sample_sysprops2 = [''ro.x'' \<mapsto> ''1'']"
proof -
  have v: "sys_view sample_sysprops = (\<lambda>_. None)" using area_init_spec[OF sample_init] by simp
  then have "sys_view sample_sysprops ''ro.x'' = None" "value_ok ''1''" by (simp_all add: value_ok_def)
  then obtain rc s' where r: "system_property_add sample_os ''ro.x'' ''1'' sample_sysprops = Some (rc, s')" "sys_ready s'"
    "rc = 0 \<and> sys_view s' = (sys_view sample_sysprops)(''ro.x'' \<mapsto> ''1'') \<or> no_room sample_sysprops ''ro.x''"
    using system_property_add_spec[OF sample_ready(1) valid_name_sample, of "''1''" sample_os] by metis
  then show "system_property_add sample_os ''ro.x'' ''1'' sample_sysprops = Some (0, sample_sysprops2)"
    "sys_ready sample_sysprops2" "sys_view sample_sysprops2 = [''ro.x'' \<mapsto> ''1'']"
    using v sample_room by (auto simp: sample_sysprops2_def)
qed

lemma sample2_find: "system_property_find sample_os ''ro.x'' sample_sysprops2 = Some (Some sample_ptr, sample_sysprops2)"
proof -
  obtain p where "system_property_find sample_os ''ro.x'' sample_sysprops2 = Some (p, sample_sysprops2)
      \<and> (p = None \<longleftrightarrow> sys_view sample_sysprops2 ''ro.x'' = None)"
    using sp.find_law[OF sample_add(2) valid_name_sample, of sample_os] by (elim exE)
  then show ?thesis using sample_add(3) by (auto simp: sample_ptr_def)
qed

theorem system_property_update_correct_witness:
  "\<exists>s'. system_property_update sample_ptr ''22'' sample_sysprops2 = Some (0, s') \<and> sys_ready s'
    \<and> sys_view s' = (sys_view sample_sysprops2)(''ro.x'' \<mapsto> ''22'')
    \<and> (\<exists>x. system_property_area_serial sample_sysprops2 = Some x \<and> system_property_area_serial s' = Some (x + 1))"
  by (rule system_property_update_correct[OF sample_add(2) valid_name_sample sample2_find]) (simp add: value_ok_def)

text \<open>
  C35. Reading a property by name in a ready process gives the stored value and its length, and
  the empty string with length 0 for a property that is not set.
\<close>

theorem system_property_get_correct:
  assumes "sys_ready s" "valid_name n"
  shows "system_property_get os n s =
    (case sys_view s n of None \<Rightarrow> Some (0, [NUL], s) | Some v \<Rightarrow> Some (length v, v @ [NUL], s))"
  by (rule system_property_get_spec[OF assms])

theorem system_property_get_correct_witness:
  "system_property_get sample_os ''ro.x'' sample_sysprops2 = Some (1, ''1'' @ [NUL], sample_sysprops2)"
  using system_property_get_correct[OF sample_add(2) valid_name_sample, of sample_os] by (simp add: sample_add(3))

text \<open>
  C36. The traversal of all areas calls back exactly once for the record of every property, in
  a process whose areas hold only the names that lead to them (as they do from the start).
\<close>

theorem system_property_foreach_exact:
  assumes "sys_ready s" "sys_routed s"
  shows "\<exists>xs. system_property_foreach os s = Some (0, xs, s) \<and> distinct xs \<and>
    set xs = {p. \<exists>n. valid_name n \<and> points_to s n p}"
  by (rule system_property_foreach_spec[OF assms])

theorem system_property_foreach_exact_witness:
  "\<exists>xs. system_property_foreach sample_os sample_sysprops = Some (0, xs, sample_sysprops) \<and> distinct xs \<and>
    set xs = {p. \<exists>n. valid_name n \<and> points_to sample_sysprops n p}"
  by (rule system_property_foreach_exact[OF sample_ready])

end
