(* ===== verification/Property_Service.thy ===== *)
theory Property_Service
  imports Sysprops_Init
begin

text \<open>
  The property service of init, \<^verbatim>\<open>init/property_service.cpp\<close>: which names are legal,
  \<open>property_set\<close> with its write-once and persistence rules, and the socket on which other
  processes ask for changes. SELinux, the persistent directory and the socket are parameters.
  What the service tells the rest of init (a changed property, a control message) is recorded
  as a list of events in the order of the calls.
\<close>

section \<open>State\<close>

datatype prop_result =
    PROP_SUCCESS
  | PROP_ERROR_READ_CMD
  | PROP_ERROR_READ_DATA
  | PROP_ERROR_READ_ONLY_PROPERTY
  | PROP_ERROR_INVALID_NAME
  | PROP_ERROR_INVALID_VALUE
  | PROP_ERROR_PERMISSION_DENIED
  | PROP_ERROR_INVALID_CMD
  | PROP_ERROR_HANDLE_CONTROL_MESSAGE
  | PROP_ERROR_SET_FAILED

datatype prop_event =
    Property_Changed string string
  | Control_Message string string
  | Restorecon string

record svc_env =
  pe_os :: os_env
  pe_mkstemp :: bool
  pe_rename :: "string \<Rightarrow> bool"
  pe_sehandle :: bool
  pe_selabel_lookup :: "string \<Rightarrow> string option"
  pe_check_access :: "string \<Rightarrow> string \<Rightarrow> bool"

text \<open>\<open>ps_disk\<close> holds the files of the persistent property directory by path.\<close>

record propsvc =
  ps_sys :: sysprops
  ps_loaded :: bool
  ps_disk :: "string \<Rightarrow> string option"
  ps_events :: "prop_event list"

definition PERSISTENT_PROPERTY_DIR :: string where
  "PERSISTENT_PROPERTY_DIR = ''/data/property''"

definition PATH_MAX :: nat where
  "PATH_MAX = 4096"

section \<open>Setting a property\<close>

definition property_init :: "svc_env \<Rightarrow> propsvc \<Rightarrow> propsvc option" where
  "property_init env ps = do {
     (rc, s) \<leftarrow> system_property_area_init (pe_os env) (ps_sys ps);
     if rc \<noteq> 0 then None else Some (ps\<lparr>ps_sys := s\<rparr>)
   }"

definition char_in :: "char \<Rightarrow> char \<Rightarrow> char \<Rightarrow> bool" where
  "char_in lo c hi \<longleftrightarrow> (of_char lo :: nat) \<le> of_char c \<and> (of_char c :: nat) \<le> of_char hi"

text \<open>One turn of the loop over the characters of a name.\<close>

definition legal_at :: "string \<Rightarrow> nat \<Rightarrow> bool" where
  "legal_at name i =
     (if name ! i = CHR ''.'' then name ! (i - 1) \<noteq> CHR ''.''
      else name ! i \<in> {CHR ''_'', CHR ''-'', CHR ''@'', CHR '':''}
           \<or> char_in CHR ''a'' (name ! i) CHR ''z''
           \<or> char_in CHR ''A'' (name ! i) CHR ''Z''
           \<or> char_in CHR ''0'' (name ! i) CHR ''9'')"

definition is_legal_property_name :: "string \<Rightarrow> bool" where
  "is_legal_property_name name =
     (if length name < 1 then False
      else if name ! 0 = CHR ''.'' then False
      else if name ! (length name - 1) = CHR ''.'' then False
      else list_all (legal_at name) [0..<length name])"

definition check_mac_perms :: "svc_env \<Rightarrow> string \<Rightarrow> string option \<Rightarrow> bool" where
  "check_mac_perms env name sctx =
     (case sctx of
        None \<Rightarrow> False
      | Some sc \<Rightarrow>
          if \<not> pe_sehandle env then False
          else (case pe_selabel_lookup env (c_str name) of
                  None \<Rightarrow> False
                | Some tc \<Rightarrow> pe_check_access env sc tc))"

definition check_control_mac_perms :: "svc_env \<Rightarrow> string \<Rightarrow> string option \<Rightarrow> bool" where
  "check_control_mac_perms env name sctx =
     (let ctl_name = ''ctl.'' @ name in
      if length ctl_name \<ge> PROP_VALUE_MAX + 4 then False
      else check_mac_perms env ctl_name sctx)"

definition write_persistent_property :: "svc_env \<Rightarrow> string \<Rightarrow> string \<Rightarrow> propsvc \<Rightarrow> propsvc" where
  "write_persistent_property env name val ps =
     (if \<not> pe_mkstemp env then ps
      else
        let path = take (PATH_MAX - 1) (PERSISTENT_PROPERTY_DIR @ ''/'' @ name) in
        if \<not> pe_rename env path then ps
        else ps\<lparr>ps_disk := (ps_disk ps)(path \<mapsto> val)\<rparr>)"

definition add_event :: "prop_event \<Rightarrow> propsvc \<Rightarrow> propsvc" where
  "add_event e ps = ps\<lparr>ps_events := ps_events ps @ [e]\<rparr>"

text \<open>What follows a successful store: the write to disk and the notification.\<close>

definition property_stored :: "svc_env \<Rightarrow> string \<Rightarrow> string \<Rightarrow> propsvc \<Rightarrow> propsvc" where
  "property_stored env name val ps =
     (let ps1 = (if ps_loaded ps \<and> starts_with name ''persist.''
                 then write_persistent_property env (c_str name) (c_str val) ps else ps)
      in add_event (Property_Changed name val) ps1)"

definition property_set ::
  "svc_env \<Rightarrow> string \<Rightarrow> string \<Rightarrow> propsvc \<Rightarrow> (prop_result \<times> propsvc) option" where
  "property_set env name val ps =
     (if \<not> is_legal_property_name name then Some (PROP_ERROR_INVALID_NAME, ps)
      else if length val \<ge> PROP_VALUE_MAX then Some (PROP_ERROR_INVALID_VALUE, ps)
      else
        let ps1 = (if name = ''selinux.restorecon_recursive'' \<and> length val > 0
                   then add_event (Restorecon (c_str val)) ps else ps) in
        do {
          (pi, s1) \<leftarrow> system_property_find (pe_os env) (c_str name) (ps_sys ps1);
          let ps2 = ps1\<lparr>ps_sys := s1\<rparr>;
          case pi of
            Some p \<Rightarrow>
              if starts_with name ''ro.'' then Some (PROP_ERROR_READ_ONLY_PROPERTY, ps2)
              else do {
                (_, s2) \<leftarrow> system_property_update p val s1;
                Some (PROP_SUCCESS, property_stored env name val (ps2\<lparr>ps_sys := s2\<rparr>))
              }
          | None \<Rightarrow> do {
              (rc, s2) \<leftarrow> system_property_add (pe_os env) name val s1;
              if rc < 0 then Some (PROP_ERROR_SET_FAILED, ps2\<lparr>ps_sys := s2\<rparr>)
              else Some (PROP_SUCCESS, property_stored env name val (ps2\<lparr>ps_sys := s2\<rparr>))
            }
        })"

section \<open>Requests from other processes\<close>

text \<open>The context of the peer is what \<^verbatim>\<open>getpeercon\<close> returned. The reply is \<open>None\<close> where the
  legacy protocol sends nothing.\<close>

definition handle_property_set ::
  "svc_env \<Rightarrow> string option \<Rightarrow> string \<Rightarrow> string \<Rightarrow> bool \<Rightarrow> propsvc
     \<Rightarrow> (prop_result option \<times> propsvc) option" where
  "handle_property_set env source_ctx name val legacy_protocol ps =
     (let reply = (\<lambda>r. if legacy_protocol then None else Some r) in
      if \<not> is_legal_property_name name then Some (Some PROP_ERROR_INVALID_NAME, ps)
      else if starts_with name ''ctl.'' then
        (if check_control_mac_perms env (c_str val) source_ctx
         then Some (reply PROP_SUCCESS, add_event (Control_Message (drop 4 name) (c_str val)) ps)
         else Some (reply PROP_ERROR_HANDLE_CONTROL_MESSAGE, ps))
      else if check_mac_perms env name source_ctx then do {
        (result, ps') \<leftarrow> property_set env name val ps;
        Some (reply result, ps')
      }
      else Some (reply PROP_ERROR_PERMISSION_DENIED, ps))"

end
