(* ===== verification/Property_Service_Correct.thy ===== *)
theory Property_Service_Correct
  imports Property_Service
begin

text \<open>
  What \<open>property_set\<close> does in an init process whose areas are mapped: the complete case
  distinction of its results, and what follows for sequences of calls.
\<close>

section \<open>Legal names\<close>

lemma split_on_dots_nonempty:
  assumes "s \<noteq> []" "s ! 0 \<noteq> c" "last s \<noteq> c"
    "\<forall>i < length s. s ! i = c \<longrightarrow> s ! (i - 1) \<noteq> c" "x \<in> set (split_on c s)"
  shows "x \<noteq> []"
  using assms
proof (induction c s rule: split_on.induct)
  case (1 c s)
  show ?case
  proof (cases "strchr_split c s")
    case None
    with 1 show ?thesis by (simp add: split_on_no_sep)
  next
    case (Some ab)
    obtain a b where ab: "ab = (a, b)" by (cases ab)
    with Some have s: "s = a @ c # b" "c \<notin> set a" by (auto dest: strchr_split_SomeD)
    have a: "a \<noteq> []" using 1(3) s by (cases a) auto
    have b: "b \<noteq> []" using 1(4) s by (cases b) auto
    have "b ! 0 \<noteq> c"
    proof
      assume "b ! 0 = c"
      then have "s ! Suc (length a) = c" "s ! length a = c" "Suc (length a) < length s"
        using s b by (auto simp: nth_append)
      then show False using 1(5) by (metis diff_Suc_1)
    qed
    moreover have "last b \<noteq> c" using 1(4) s b by simp
    moreover have "b ! (i - 1) \<noteq> c" if "i < length b" "b ! i = c" for i
    proof (cases i)
      case 0
      then show ?thesis using that \<open>b ! 0 \<noteq> c\<close> by simp
    next
      case (Suc j)
      have "s ! (length a + 1 + i) = c" "length a + 1 + i < length s" using s that by (auto simp: nth_append)
      then have "s ! (length a + 1 + i - 1) \<noteq> c" using 1(5) by blast
      then show ?thesis using s Suc by (simp add: nth_append)
    qed
    ultimately have "x \<in> set (split_on c b) \<Longrightarrow> x \<noteq> []" using 1(1)[OF Some ab[symmetric]] b ab Some by auto
    then show ?thesis using 1(6) s a by (auto simp: split_on_sep)
  qed
qed

lemma legal_no_NUL: "is_legal_property_name n \<Longrightarrow> NUL \<notin> set n"
proof
  assume n: "is_legal_property_name n" and "NUL \<in> set n"
  then obtain i where i: "i < length n" "n ! i = NUL" by (auto simp: in_set_conv_nth)
  then have "legal_at n i" using n by (auto simp: is_legal_property_name_def list_all_iff split: if_splits)
  then show False using i(2) by (simp add: legal_at_def char_in_def)
qed

lemma set_split_on: "x \<in> set (split_on c s) \<Longrightarrow> set x \<subseteq> set s"
proof (induction c s rule: split_on.induct)
  case (1 c s)
  show ?case
  proof (cases "strchr_split c s")
    case None
    with 1(2) show ?thesis by (simp add: split_on_no_sep)
  next
    case (Some ab)
    obtain a b where ab: "ab = (a, b)" by (cases ab)
    with Some have "s = a @ c # b" "c \<notin> set a" by (auto dest: strchr_split_SomeD)
    moreover have "x \<in> set (split_on c b) \<Longrightarrow> set x \<subseteq> set b" using 1(1) Some ab by blast
    ultimately show ?thesis using 1(2) by (auto simp: split_on_sep)
  qed
qed

lemma legal_valid_name:
  assumes "is_legal_property_name n"
  shows "valid_name n"
proof -
  have n: "n \<noteq> []" "n ! 0 \<noteq> CHR ''.''" "last n \<noteq> CHR ''.''"
    "\<forall>i < length n. n ! i = CHR ''.'' \<longrightarrow> n ! (i - 1) \<noteq> CHR ''.''"
    using assms
    by (auto simp: is_legal_property_name_def legal_at_def list_all_iff last_conv_nth split: if_splits)
  have "name_ok x" if "x \<in> set (tokens n)" for x
    using split_on_dots_nonempty[OF n] split_on_no_sep_parts set_split_on legal_no_NUL[OF assms] that
    unfolding tokens_def name_ok_def by blast
  then show ?thesis by (auto simp: valid_name_def tokens_ok_def tokens_def)
qed

lemma legal_c_str: "is_legal_property_name n \<Longrightarrow> c_str n = n"
  by (simp add: c_str_id legal_no_NUL)

section \<open>The results of a request\<close>

definition svc_inv :: "propsvc \<Rightarrow> bool" where
  "svc_inv ps \<longleftrightarrow> sys_ready (ps_sys ps)"

definition svc_view :: "propsvc \<Rightarrow> string \<Rightarrow> string option" where
  "svc_view ps = sys_view (ps_sys ps)"

lemma property_stored_sys [simp]: "ps_sys (property_stored env n v ps) = ps_sys ps"
  by (simp add: property_stored_def add_event_def write_persistent_property_def Let_def)

lemma property_stored_events [simp]:
  "ps_events (property_stored env n v ps) = ps_events ps @ [Property_Changed n v]"
  by (simp add: property_stored_def add_event_def write_persistent_property_def Let_def)

lemma value_okI: "NUL \<notin> set v \<Longrightarrow> length v < PROP_VALUE_MAX \<Longrightarrow> value_ok v"
  by (simp add: value_ok_def)

definition set_outcome ::
  "string \<Rightarrow> string \<Rightarrow> propsvc \<Rightarrow> prop_result \<Rightarrow> propsvc \<Rightarrow> bool" where
  "set_outcome n v ps r ps' \<longleftrightarrow>
     (if \<not> is_legal_property_name n then r = PROP_ERROR_INVALID_NAME \<and> ps' = ps
      else if length v \<ge> PROP_VALUE_MAX then r = PROP_ERROR_INVALID_VALUE \<and> ps' = ps
      else if starts_with n ''ro.'' \<and> svc_view ps n \<noteq> None
      then r = PROP_ERROR_READ_ONLY_PROPERTY \<and> svc_view ps' = svc_view ps
      else r = PROP_SUCCESS \<and> svc_view ps' = (svc_view ps)(n \<mapsto> v) \<and> last (ps_events ps') = Property_Changed n v
           \<or> r = PROP_ERROR_SET_FAILED \<and> svc_view ps' = svc_view ps \<and> svc_view ps n = None
               \<and> no_room (ps_sys ps) n)"

lemma property_set_total:
  assumes inv: "svc_inv ps" and nul: "NUL \<notin> set v"
  shows "\<exists>r ps'. property_set env n v ps = Some (r, ps') \<and> svc_inv ps' \<and> set_outcome n v ps r ps'"
proof (cases "is_legal_property_name n \<and> length v < PROP_VALUE_MAX")
  case False
  then show ?thesis using inv by (auto simp: property_set_def set_outcome_def)
next
  case True
  define ps1 where "ps1 = (if n = ''selinux.restorecon_recursive'' \<and> length v > 0
      then add_event (Restorecon (c_str v)) ps else ps)"
  have sys1: "ps_sys ps1 = ps_sys ps" by (simp add: ps1_def add_event_def)
  have ready: "sys_ready (ps_sys ps)" using inv by (simp add: svc_inv_def)
  have n: "valid_name n" "c_str n = n" and v: "value_ok v"
    using True nul by (auto simp: legal_valid_name legal_c_str value_ok_def)
  obtain p where fp: "system_property_find (pe_os env) n (ps_sys ps) = Some (p, ps_sys ps)
      \<and> (p = None \<longleftrightarrow> sys_view (ps_sys ps) n = None)"
    using sp.find_law[OF ready n(1), of "pe_os env"] by (elim exE)
  note p = fp[THEN conjunct1]
  have pv: "p = None \<longleftrightarrow> svc_view ps n = None" using fp by (simp add: svc_view_def)
  note run = property_set_def[of env n v ps, folded ps1_def, unfolded Let_def]
  show ?thesis
  proof (cases p)
    case None
    have "sys_view (ps_sys ps) n = None" using None pv by (simp add: svc_view_def)
    then obtain rc s' where a: "system_property_add (pe_os env) n v (ps_sys ps) = Some (rc, s')" "sys_ready s'"
      "rc = 0 \<and> sys_view s' = (sys_view (ps_sys ps))(n \<mapsto> v)
       \<or> rc = -1 \<and> sys_view s' = sys_view (ps_sys ps) \<and> no_room (ps_sys ps) n"
      using sp.add_law[OF ready n(1) _ v, of "pe_os env"] by metis
    have set: "property_set env n v ps = Some (if rc < 0
        then (PROP_ERROR_SET_FAILED, ps1\<lparr>ps_sys := s'\<rparr>)
        else (PROP_SUCCESS, property_stored env n v (ps1\<lparr>ps_sys := s'\<rparr>)))"
      using True p None a(1) n(2) sys1 unfolding run by simp
    show ?thesis
      using a(2,3) True pv None set by (auto simp: svc_inv_def set_outcome_def svc_view_def)
  next
    case (Some q)
    obtain s' where u: "system_property_update q v (ps_sys ps) = Some (0, s')" "sys_ready s'"
      "sys_view s' = (sys_view (ps_sys ps))(n \<mapsto> v)"
      using sp.update_law[OF ready n(1) p[unfolded Some] v] by metis
    have set: "property_set env n v ps = Some (if starts_with n ''ro.''
        then (PROP_ERROR_READ_ONLY_PROPERTY, ps1\<lparr>ps_sys := ps_sys ps\<rparr>)
        else (PROP_SUCCESS, property_stored env n v (ps1\<lparr>ps_sys := s'\<rparr>)))"
      using True p Some u(1) n(2) sys1 unfolding run by simp
    show ?thesis
      using u(2,3) True pv Some set ready by (auto simp: svc_inv_def set_outcome_def svc_view_def)
  qed
qed

section \<open>Sequences of requests\<close>

text \<open>Requests one after the other; the results do not matter.\<close>

fun property_sets :: "svc_env \<Rightarrow> (string \<times> string) list \<Rightarrow> propsvc \<Rightarrow> propsvc option" where
  "property_sets env [] ps = Some ps"
| "property_sets env ((n, v) # rs) ps = do {
     (_, ps') \<leftarrow> property_set env n v ps;
     property_sets env rs ps'
   }"

lemma set_outcome_ro:
  assumes "set_outcome m v ps r ps'" "starts_with n ''ro.''" "svc_view ps n = Some x"
  shows "svc_view ps' n = Some x"
  using assms by (auto simp: set_outcome_def simp del: starts_with_code split: if_splits)

lemma property_sets_ro:
  assumes "svc_inv ps" "\<forall>(m, v) \<in> set rs. NUL \<notin> set v" "starts_with n ''ro.''" "svc_view ps n = Some x"
  shows "\<exists>ps'. property_sets env rs ps = Some ps' \<and> svc_inv ps' \<and> svc_view ps' n = Some x"
  using assms
proof (induction rs arbitrary: ps)
  case (Cons r rs)
  obtain m v where r: "r = (m, v)" by (cases r)
  have nul: "NUL \<notin> set v" using Cons.prems(2) r by auto
  obtain res ps1 where p: "property_set env m v ps = Some (res, ps1)" "svc_inv ps1" "set_outcome m v ps res ps1"
    using property_set_total[OF Cons.prems(1) nul, of env m] by (elim exE conjE)
  have "svc_view ps1 n = Some x" by (rule set_outcome_ro[OF p(3) Cons.prems(3,4)])
  then show ?case using Cons.IH[of ps1] Cons.prems(2,3) p(1,2) r by simp
qed simp

section \<open>Properties\<close>

definition sample_env :: svc_env where
  "sample_env = \<lparr>pe_os = sample_os, pe_mkstemp = True, pe_rename = (\<lambda>_. True), pe_sehandle = True,
     pe_selabel_lookup = Some, pe_check_access = (\<lambda>_ _. True)\<rparr>"

definition sample_svc :: propsvc where
  "sample_svc = \<lparr>ps_sys = sample_sysprops2, ps_loaded = True, ps_disk = (\<lambda>_. None), ps_events = []\<rparr>"

lemma sample_svc: "svc_inv sample_svc" "svc_view sample_svc ''ro.x'' = Some ''1''"
  using sample_add by (simp_all add: sample_svc_def svc_inv_def svc_view_def)

text \<open>
  Every legal property name is a valid key of the property areas: it has no empty token, no
  NUL and no dot at either end. This is what makes the lookup in an area total.
\<close>

theorem legal_names_are_valid:
  "is_legal_property_name n \<Longrightarrow> valid_name n"
  by (rule legal_valid_name)

theorem legal_names_are_valid_witness: "valid_name ''persist.sys.usb-1_a@b:c''"
  by (rule legal_names_are_valid) code_simp

text \<open>
  C1. All results of setting a property, for a value without NUL in a ready process: an illegal
  name and an over-long value are refused and change nothing; a read-only property that is
  set is refused and no property changes; otherwise the property has the new value, nothing
  else has changed and init is told of it, or, only if the property was not set and there
  was no room, the call fails and no property has changed. The process stays ready.
\<close>

theorem property_set_outcomes:
  assumes "svc_inv ps" "NUL \<notin> set v"
  shows "\<exists>r ps'. property_set env n v ps = Some (r, ps') \<and> svc_inv ps' \<and>
     (if \<not> is_legal_property_name n then r = PROP_ERROR_INVALID_NAME \<and> ps' = ps
      else if length v \<ge> PROP_VALUE_MAX then r = PROP_ERROR_INVALID_VALUE \<and> ps' = ps
      else if starts_with n ''ro.'' \<and> svc_view ps n \<noteq> None
      then r = PROP_ERROR_READ_ONLY_PROPERTY \<and> svc_view ps' = svc_view ps
      else r = PROP_SUCCESS \<and> svc_view ps' = (svc_view ps)(n \<mapsto> v) \<and> last (ps_events ps') = Property_Changed n v
           \<or> r = PROP_ERROR_SET_FAILED \<and> svc_view ps' = svc_view ps \<and> svc_view ps n = None
               \<and> no_room (ps_sys ps) n)"
  using property_set_total[OF assms, of env n] unfolding set_outcome_def .

theorem property_set_outcomes_witness:
  "\<exists>r ps'. property_set sample_env ''ro.x'' ''2'' sample_svc = Some (r, ps') \<and> svc_inv ps' \<and>
     r = PROP_ERROR_READ_ONLY_PROPERTY \<and> svc_view ps' = svc_view sample_svc"
proof -
  have "is_legal_property_name ''ro.x''" by code_simp
  then show ?thesis
    using property_set_outcomes[OF sample_svc(1), of "''2''" sample_env "''ro.x''"] sample_svc(2) by simp
qed

text \<open>
  C16. Read-only properties are written once: whatever requests follow, in whatever order, a
  property whose name starts with \<^verbatim>\<open>ro.\<close> keeps the value it has.
\<close>

theorem read_only_written_once:
  assumes "svc_inv ps" "\<forall>(m, v) \<in> set rs. NUL \<notin> set v" "starts_with n ''ro.''" "svc_view ps n = Some x"
  shows "\<exists>ps'. property_sets env rs ps = Some ps' \<and> svc_inv ps' \<and> svc_view ps' n = Some x"
  by (rule property_sets_ro[OF assms])

theorem read_only_written_once_witness:
  "\<exists>ps'. property_sets sample_env [(''ro.x'', ''2''), (''a'', ''b'')] sample_svc = Some ps' \<and> svc_inv ps'
     \<and> svc_view ps' ''ro.x'' = Some ''1''"
  by (rule read_only_written_once) (simp_all add: sample_svc)

text \<open>
  A request that SELinux does not allow changes nothing: if the peer has no context, or the
  policy denies it, the state is unchanged and the request is answered with an error, with no
  answer in the legacy protocol.
\<close>

theorem denied_request_changes_nothing:
  assumes "is_legal_property_name n"
    "\<not> check_mac_perms env n ctx" "\<not> check_control_mac_perms env (c_str v) ctx"
  shows "handle_property_set env ctx n v legacy ps =
    Some (if legacy then None
          else Some (if starts_with n ''ctl.'' then PROP_ERROR_HANDLE_CONTROL_MESSAGE
                     else PROP_ERROR_PERMISSION_DENIED), ps)"
  using assms by (auto simp: handle_property_set_def)

theorem denied_request_changes_nothing_witness:
  "handle_property_set sample_env None ''ctl.start'' ''adbd'' False sample_svc =
     Some (Some PROP_ERROR_HANDLE_CONTROL_MESSAGE, sample_svc)"
proof -
  have "is_legal_property_name ''ctl.start''" by code_simp
  then show ?thesis
    using denied_request_changes_nothing[of "''ctl.start''" sample_env None "''adbd''" False sample_svc]
    by (simp add: check_mac_perms_def check_control_mac_perms_def)
qed

end
