(* ===== verification/Property_Socket.thy ===== *)
theory Property_Socket
  imports Property_Service_Correct
begin

text \<open>
  The two ends of the property socket. The server end is \<^verbatim>\<open>SocketConnection\<close> and
  \<open>handle_property_set_fd\<close> of \<^verbatim>\<open>property_service.cpp\<close>; the client end is
  \<^verbatim>\<open>__system_property_set\<close> of \<^verbatim>\<open>system_properties.cpp\<close>. The connection is given by what the
  kernel answers: the outcomes of the polls with the milliseconds each took, and the chunks in
  which the bytes arrive (an empty chunk stands for an error or the end of the stream).
  Integers travel in the byte order of the machine, which is little-endian.
\<close>

section \<open>Receiving\<close>

datatype poll_result = POLL_READY | POLL_TIMEOUT | POLL_ERROR | POLL_EINTR

record connection =
  so_polls :: "(poll_result \<times> nat) list"
  so_chunks :: "string list"
  so_timeout :: nat

text \<open>When the recorded outcomes are used up, nothing arrives and the poll times out.\<close>

fun poll_in :: "(poll_result \<times> nat) list \<Rightarrow> nat \<Rightarrow> bool \<times> (poll_result \<times> nat) list \<times> nat" where
  "poll_in [] timeout_ms = (False, [], 0)"
| "poll_in ((nr, millis) # polls) timeout_ms =
     (if timeout_ms = 0 then (False, (nr, millis) # polls, 0)
      else
        let t = (if millis > timeout_ms then 0 else timeout_ms - millis) in
        case nr of
          POLL_READY \<Rightarrow> (True, polls, t)
        | POLL_TIMEOUT \<Rightarrow> (False, polls, t)
        | POLL_ERROR \<Rightarrow> (False, polls, t)
        | POLL_EINTR \<Rightarrow> poll_in polls (if t > 0 then t - 1 else t))"

definition recv :: "nat \<Rightarrow> string list \<Rightarrow> (string \<times> string list) option" where
  "recv n chunks =
     (case chunks of
        [] \<Rightarrow> None
      | c # cs \<Rightarrow>
          if c = [] then None
          else Some (take n c, if length c > n then drop n c # cs else cs))"

lemma recv_pos: "recv n chunks = Some (d, rest) \<Longrightarrow> 0 < n \<Longrightarrow> 0 < length d"
  by (auto simp: recv_def split: list.splits if_splits)

function RecvFully :: "nat \<Rightarrow> connection \<Rightarrow> string option \<times> connection" where
  "RecvFully bytes_left c =
     (if so_timeout c > 0 \<and> bytes_left > 0 then
        (let (ready, polls, t) = poll_in (so_polls c) (so_timeout c);
             c1 = c\<lparr>so_polls := polls, so_timeout := t\<rparr> in
         if \<not> ready then (None, c1)
         else
           case recv bytes_left (so_chunks c1) of
             None \<Rightarrow> (None, c1)
           | Some (d, chunks) \<Rightarrow>
               (let (r, c2) = RecvFully (bytes_left - length d) (c1\<lparr>so_chunks := chunks\<rparr>)
                in (map_option ((@) d) r, c2)))
      else (if bytes_left = 0 then Some [] else None, c))"
  by pat_completeness auto
termination
proof (relation "measure fst")
  fix b :: nat and c :: connection and x ready y polls t and c1 :: connection and z d chunks
  assume a: "0 < so_timeout c \<and> 0 < b" "recv b (so_chunks c1) = Some z" "(d, chunks) = z"
  have "0 < length d" using recv_pos[of b "so_chunks c1" d chunks] a by simp
  then show "((b - length d, c1\<lparr>so_chunks := chunks\<rparr>), (b, c)) \<in> measure fst" using a(1) by simp
qed simp

declare RecvFully.simps [simp del]

definition u32_of_bytes :: "string \<Rightarrow> u32" where
  "u32_of_bytes bs = (\<Sum>i<4. of_nat (of_char (bs ! i)) * 256 ^ i)"

definition bytes_of_u32 :: "u32 \<Rightarrow> string" where
  "bytes_of_u32 x = map (\<lambda>i. char_of (unat x div 256 ^ i mod 256)) [0..<4]"

definition RecvUint32 :: "connection \<Rightarrow> u32 option \<times> connection" where
  "RecvUint32 c = (let (r, c') = RecvFully 4 c in (map_option u32_of_bytes r, c'))"

definition RecvString :: "connection \<Rightarrow> string option \<times> connection" where
  "RecvString c =
     (case RecvUint32 c of
        (None, c1) \<Rightarrow> (None, c1)
      | (Some len, c1) \<Rightarrow>
          if len = 0 then (Some [], c1)
          else if len > 0xffff then (None, c1)
          else RecvFully (unat len) c1)"

text \<open>The command codes are constants of a libc header.\<close>

record wire_codes =
  msg_setprop :: u32
  msg_setprop2 :: u32

text \<open>
  A request: whether the connection was accepted and its credentials obtained, and the context
  of the peer. The result is the list of replies sent on the socket.
\<close>

record peer =
  pr_accept :: bool
  pr_cred :: bool
  pr_context :: "string option"

definition kDefaultSocketTimeout :: nat where
  "kDefaultSocketTimeout = 2000"

definition handle_property_set_fd ::
  "svc_env \<Rightarrow> wire_codes \<Rightarrow> peer \<Rightarrow> (poll_result \<times> nat) list \<Rightarrow> string list \<Rightarrow> propsvc
     \<Rightarrow> (prop_result list \<times> propsvc) option" where
  "handle_property_set_fd env wire peer polls chunks ps =
     (if \<not> pr_accept peer then Some ([], ps)
      else if \<not> pr_cred peer then Some ([], ps)
      else
        let c0 = \<lparr>so_polls = polls, so_chunks = chunks, so_timeout = kDefaultSocketTimeout\<rparr> in
        case RecvUint32 c0 of
          (None, _) \<Rightarrow> Some ([PROP_ERROR_READ_CMD], ps)
        | (Some cmd, c1) \<Rightarrow>
            if cmd = msg_setprop wire then
              (case RecvFully PROP_NAME_MAX c1 of
                 (None, _) \<Rightarrow> Some ([], ps)
               | (Some pname, c2) \<Rightarrow>
                   (case RecvFully PROP_VALUE_MAX c2 of
                      (None, _) \<Rightarrow> Some ([], ps)
                    | (Some pval, c3) \<Rightarrow>
                        let pval' = c_str (pval[PROP_VALUE_MAX - 1 := NUL]) in
                        map_option (\<lambda>(r, ps'). (case r of None \<Rightarrow> [] | Some x \<Rightarrow> [x], ps'))
                          (handle_property_set env (pr_context peer) pval' pval' True ps)))
            else if cmd = msg_setprop2 wire then
              (case RecvString c1 of
                 (None, _) \<Rightarrow> Some ([PROP_ERROR_READ_DATA], ps)
               | (Some name, c2) \<Rightarrow>
                   (case RecvString c2 of
                      (None, _) \<Rightarrow> Some ([PROP_ERROR_READ_DATA], ps)
                    | (Some val, c3) \<Rightarrow>
                        map_option (\<lambda>(r, ps'). (case r of None \<Rightarrow> [] | Some x \<Rightarrow> [x], ps'))
                          (handle_property_set env (pr_context peer) name val False ps)))
            else Some ([PROP_ERROR_INVALID_CMD], ps))"

section \<open>Sending\<close>

text \<open>The writer gathers byte strings; more than eight of them fail a \<^verbatim>\<open>CHECK\<close>.\<close>

record socket_writer =
  sw_iov :: "string list"
  sw_uints :: nat

definition SocketWriter :: socket_writer where
  "SocketWriter = \<lparr>sw_iov = [], sw_uints = 0\<rparr>"

definition kUintBufSize :: nat where
  "kUintBufSize = 8"

definition kIovSize :: nat where
  "kIovSize = 8"

definition WriteUint32 :: "u32 \<Rightarrow> socket_writer \<Rightarrow> socket_writer option" where
  "WriteUint32 val w =
     (if \<not> sw_uints w < kUintBufSize \<or> \<not> length (sw_iov w) < kIovSize then None
      else Some \<lparr>sw_iov = sw_iov w @ [bytes_of_u32 val], sw_uints = sw_uints w + 1\<rparr>)"

definition WriteString :: "string \<Rightarrow> socket_writer \<Rightarrow> socket_writer option" where
  "WriteString val w = do {
     w1 \<leftarrow> WriteUint32 (of_nat (length val)) w;
     if (of_nat (length val) :: u32) = 0 then Some w1
     else if \<not> length (sw_iov w1) < kIovSize then None
     else Some (w1\<lparr>sw_iov := sw_iov w1 @ [val]\<rparr>)
   }"

text \<open>What the kernel answers to the client.\<close>

record client_env =
  ce_connect_errno :: "int option"
  ce_send :: "nat \<Rightarrow> int"
  ce_writev :: bool
  ce_reply :: "u32 option"

text \<open>The legacy message is a structure of fixed size.\<close>

definition prop_msg :: "wire_codes \<Rightarrow> string \<Rightarrow> string \<Rightarrow> string" where
  "prop_msg wire key val =
     bytes_of_u32 (msg_setprop wire)
     @ strlcpy (replicate PROP_NAME_MAX NUL) key PROP_NAME_MAX
     @ strlcpy (replicate PROP_VALUE_MAX NUL) val PROP_VALUE_MAX"

definition send_prop_msg :: "client_env \<Rightarrow> string \<Rightarrow> int" where
  "send_prop_msg ce msg =
     (case ce_connect_errno ce of
        Some e \<Rightarrow> e
      | None \<Rightarrow> if ce_send ce (length msg) = int (length msg) then 0 else -1)"

text \<open>\<^verbatim>\<open>atoll\<close>: white space, a sign, digits.\<close>

fun digits_val :: "string \<Rightarrow> int \<Rightarrow> int" where
  "digits_val [] acc = acc"
| "digits_val (c # cs) acc =
     (if char_in CHR ''0'' c CHR ''9'' then digits_val cs (acc * 10 + int (of_char c) - 48) else acc)"

definition atoll :: "string \<Rightarrow> int" where
  "atoll s =
     (case dropWhile isspace s of
        [] \<Rightarrow> 0
      | c # cs \<Rightarrow>
          if c = CHR ''-'' then - digits_val cs 0
          else if c = CHR ''+'' then digits_val cs 0
          else digits_val (c # cs) 0)"

definition kServiceVersionPropertyName :: string where
  "kServiceVersionPropertyName = ''ro.property_service.version''"

definition detect_protocol_version :: "os_env \<Rightarrow> sysprops \<Rightarrow> (u32 \<times> sysprops) option" where
  "detect_protocol_version os s = do {
     (len, val, s') \<leftarrow> system_property_get os kServiceVersionPropertyName s;
     Some (if len = 0 then 1
           else if (of_int (atoll (c_str val)) :: u32) \<ge> 2 then 2 else 1, s')
   }"

text \<open>
  The result is the return value, the bytes handed to the socket, the protocol version that
  is remembered, and the process's property state. The key and value are C strings; a null
  value is the empty string and a null key is refused.
\<close>

definition system_property_set ::
  "client_env \<Rightarrow> wire_codes \<Rightarrow> os_env \<Rightarrow> u32 \<Rightarrow> string option \<Rightarrow> string option \<Rightarrow> sysprops
     \<Rightarrow> (int \<times> string \<times> u32 \<times> sysprops) option" where
  "system_property_set ce wire os version key val s =
     (case key of
        None \<Rightarrow> Some (-1, [], version, s)
      | Some k \<Rightarrow>
          let v = (case val of None \<Rightarrow> [] | Some v \<Rightarrow> v) in
          if length v \<ge> PROP_VALUE_MAX then Some (-1, [], version, s)
          else do {
            (version', s') \<leftarrow> (if version = 0 then detect_protocol_version os s else Some (version, s));
            if version' = 1 then
              (if length k \<ge> PROP_NAME_MAX then Some (-1, [], version', s')
               else Some (send_prop_msg ce (prop_msg wire k v),
                          if ce_connect_errno ce = None then prop_msg wire k v else [], version', s'))
            else if ce_connect_errno ce \<noteq> None then Some (-1, [], version', s')
            else do {
              w1 \<leftarrow> WriteUint32 (msg_setprop2 wire) SocketWriter;
              w2 \<leftarrow> WriteString k w1;
              w3 \<leftarrow> WriteString v w2;
              let sent = concat (sw_iov w3);
              if \<not> ce_writev ce then Some (-1, [], version', s')
              else
                case ce_reply ce of
                  None \<Rightarrow> Some (-1, sent, version', s')
                | Some result \<Rightarrow> Some (if result \<noteq> 0 then -1 else 0, sent, version', s')
            }
          })"

section \<open>Integers on the wire\<close>

lemma digits_sum: "(\<Sum>i<k. n div b ^ i mod b * b ^ i) = n mod (b :: nat) ^ k"
proof (induction k)
  case (Suc k)
  have "n mod (b ^ k * b) = b ^ k * (n div b ^ k mod b) + n mod b ^ k" by (rule mod_mult2_eq)
  then show ?case using Suc by (simp add: mult.commute)
qed simp

lemma length_bytes_of_u32 [simp]: "length (bytes_of_u32 x) = 4"
  by (simp add: bytes_of_u32_def)

lemma u32_of_bytes_of_u32: "u32_of_bytes (bytes_of_u32 x) = x"
proof -
  have nth: "of_nat (of_char (bytes_of_u32 x ! i)) * 256 ^ i = (of_nat (unat x div 256 ^ i mod 256 * 256 ^ i) :: u32)"
    if "i < 4" for i
    using that by (simp add: bytes_of_u32_def)
  have "u32_of_bytes (bytes_of_u32 x) = (\<Sum>i<4. of_nat (unat x div 256 ^ i mod 256 * 256 ^ i))"
    unfolding u32_of_bytes_def by (rule sum.cong[OF refl], rule nth) simp
  also have "\<dots> = of_nat (\<Sum>i<4. unat x div 256 ^ i mod 256 * 256 ^ i)" by (simp only: of_nat_sum)
  also have "\<dots> = of_nat (unat x mod 256 ^ 4)" unfolding digits_sum ..
  also have "unat x mod 256 ^ 4 = unat x" using unsigned_less[of x, where ?'a = nat] by simp
  finally show ?thesis by simp
qed

section \<open>What is sent is what is received\<close>

text \<open>
  A good connection: the bytes arrive in non-empty chunks, there are polls enough, each of
  them reports data, and together they stay below the time that is left.
\<close>

definition good_conn :: "connection \<Rightarrow> string \<Rightarrow> bool" where
  "good_conn c bytes \<longleftrightarrow> concat (so_chunks c) = bytes \<and> [] \<notin> set (so_chunks c)
     \<and> length bytes \<le> length (so_polls c) \<and> (\<forall>p \<in> set (so_polls c). fst p = POLL_READY)
     \<and> sum_list (map snd (so_polls c)) < so_timeout c"

lemma recv_concat:
  assumes "concat chunks = bytes" "[] \<notin> set chunks" "bytes \<noteq> []" "0 < n"
  obtains d rest chunks' where "recv n chunks = Some (d, chunks')" "d \<noteq> []" "length d \<le> n" "bytes = d @ rest"
    "concat chunks' = rest" "[] \<notin> set chunks'"
proof -
  obtain c cs where c: "chunks = c # cs" "c \<noteq> []" using assms(1-3) by (cases chunks) auto
  let ?cs = "if length c > n then drop n c # cs else cs"
  have "bytes = take n c @ concat ?cs" using assms(1) c by auto
  then show thesis
    using that[of "take n c" ?cs "concat ?cs"] assms c by (auto simp: recv_def)
qed

lemma RecvFully_good:
  assumes "good_conn c (a @ b)"
  shows "\<exists>c'. RecvFully (length a) c = (Some a, c') \<and> good_conn c' b"
  using assms
proof (induction "length a" arbitrary: a c rule: less_induct)
  case less
  show ?case
  proof (cases "a = []")
    case True
    then show ?thesis using less.prems by (subst RecvFully.simps) simp
  next
    case False
    have g: "concat (so_chunks c) = a @ b" "[] \<notin> set (so_chunks c)" "length (a @ b) \<le> length (so_polls c)"
      "\<forall>p \<in> set (so_polls c). fst p = POLL_READY" "sum_list (map snd (so_polls c)) < so_timeout c"
      using less.prems unfolding good_conn_def by auto
    obtain ms polls where p: "so_polls c = (POLL_READY, ms) # polls"
      using g(3,4) False by (cases "so_polls c") auto
    obtain d rest chunks' where d: "recv (length a) (so_chunks c) = Some (d, chunks')" "d \<noteq> []"
      "length d \<le> length a" "a @ b = d @ rest" "concat chunks' = rest" "[] \<notin> set chunks'"
      by (rule recv_concat[OF g(1,2), of "length a"]) (use False in auto)
    obtain a' where a': "a = d @ a'" "rest = a' @ b"
      using d(3,4) by (auto simp: append_eq_append_conv2)
    let ?c = "c\<lparr>so_polls := polls, so_timeout := so_timeout c - ms, so_chunks := chunks'\<rparr>"
    have "good_conn ?c (a' @ b)"
      using g(3-5) p d a' unfolding good_conn_def by (cases d) auto
    then obtain c' where c': "RecvFully (length a') ?c = (Some a', c')" "good_conn c' b"
      using less.hyps[of a' ?c] a'(1) d(2) by auto
    have "poll_in (so_polls c) (so_timeout c) = (True, polls, so_timeout c - ms)"
      using p g(5) by (simp add: Let_def)
    then have "RecvFully (length a) c = (Some a, c')"
      using False g(5) d(1) c'(1) a'(1) by (subst RecvFully.simps) (simp add: Let_def)
    then show ?thesis using c'(2) by blast
  qed
qed

lemma RecvUint32_good:
  assumes "good_conn c (bytes_of_u32 x @ b)"
  shows "\<exists>c'. RecvUint32 c = (Some x, c') \<and> good_conn c' b"
  using RecvFully_good[OF assms] by (auto simp: RecvUint32_def u32_of_bytes_of_u32)

text \<open>The bytes of a string on the wire.\<close>

definition wire_string :: "string \<Rightarrow> string" where
  "wire_string s = bytes_of_u32 (of_nat (length s)) @ s"

lemma unat_of_nat_small: "n \<le> 65535 \<Longrightarrow> unat (of_nat n :: u32) = n"
  by (simp add: unat_of_nat take_bit_nat_eq_self)

lemma RecvString_good:
  assumes "good_conn c (wire_string s @ b)" "length s \<le> 65535"
  shows "\<exists>c'. RecvString c = (Some s, c') \<and> good_conn c' b"
proof -
  obtain c1 where c1: "RecvUint32 c = (Some (of_nat (length s)), c1)" "good_conn c1 (s @ b)"
    using RecvUint32_good[of c "of_nat (length s)" "s @ b"] assms(1) by (auto simp: wire_string_def)
  have len: "unat (of_nat (length s) :: u32) = length s" by (rule unat_of_nat_small[OF assms(2)])
  have le: "\<not> (of_nat (length s) :: u32) > 0xffff"
    using len assms(2) by (simp add: word_less_nat_alt)
  show ?thesis
  proof (cases "s = []")
    case True
    then show ?thesis using c1 by (simp add: RecvString_def)
  next
    case False
    then have "(of_nat (length s) :: u32) \<noteq> 0" using len by (metis length_0_conv unat_0)
    then show ?thesis using c1 le len RecvFully_good[OF c1(2)] by (auto simp: RecvString_def)
  qed
qed

text \<open>What the current protocol sends for a key and a value.\<close>

definition setprop2_bytes :: "wire_codes \<Rightarrow> string \<Rightarrow> string \<Rightarrow> string" where
  "setprop2_bytes wire key val = bytes_of_u32 (msg_setprop2 wire) @ wire_string key @ wire_string val"

lemma of_nat_u32_0: "n < 2 ^ 32 \<Longrightarrow> (of_nat n :: u32) = 0 \<longleftrightarrow> n = 0"
  by (simp add: word_of_nat_eq_0_iff dvd_eq_mod_eq_0)

lemma WriteString_wire:
  assumes "length s < 2 ^ 32" "sw_uints w < 7" "length (sw_iov w) < 6"
  shows "\<exists>w'. WriteString s w = Some w' \<and> concat (sw_iov w') = concat (sw_iov w) @ wire_string s
    \<and> sw_uints w' = sw_uints w + 1 \<and> length (sw_iov w') \<le> length (sw_iov w) + 2"
  using assms of_nat_u32_0[OF assms(1)]
  by (auto simp: WriteString_def WriteUint32_def kUintBufSize_def kIovSize_def wire_string_def)

lemma system_property_set_bytes:
  assumes "version = 2" "length v < PROP_VALUE_MAX" "length k < 2 ^ 32"
    "ce_connect_errno ce = None" "ce_writev ce"
  shows "\<exists>rc. system_property_set ce wire os version (Some k) (Some v) s
      = Some (rc, setprop2_bytes wire k v, version, s) \<and> (rc = 0 \<longleftrightarrow> ce_reply ce = Some 0)"
proof -
  obtain w1 where w1: "WriteUint32 (msg_setprop2 wire) SocketWriter = Some w1"
    "concat (sw_iov w1) = bytes_of_u32 (msg_setprop2 wire)" "sw_uints w1 = 1" "length (sw_iov w1) = 1"
    by (auto simp: WriteUint32_def SocketWriter_def kUintBufSize_def kIovSize_def)
  obtain w2 where w2: "WriteString k w1 = Some w2" "concat (sw_iov w2) = concat (sw_iov w1) @ wire_string k"
    "sw_uints w2 = 2" "length (sw_iov w2) \<le> 3"
    using WriteString_wire[OF assms(3), of w1] w1(3,4) by auto
  obtain w3 where w3: "WriteString v w2 = Some w3" "concat (sw_iov w3) = concat (sw_iov w2) @ wire_string v"
    using WriteString_wire[of v w2] assms(2) w2(3,4) by auto
  show ?thesis
    using assms w1(1,2) w2(1,2) w3
    by (cases "ce_reply ce") (auto simp: system_property_set_def setprop2_bytes_def Let_def)
qed

lemma handle_setprop2:
  assumes "pr_accept peer" "pr_cred peer" "msg_setprop wire \<noteq> msg_setprop2 wire"
    and len: "length k \<le> 65535" "length v \<le> 65535"
    and conn: "good_conn \<lparr>so_polls = polls, so_chunks = chunks, so_timeout = kDefaultSocketTimeout\<rparr>
      (setprop2_bytes wire k v)"
  shows "handle_property_set_fd env wire peer polls chunks ps =
    map_option (\<lambda>(r, ps'). (case r of None \<Rightarrow> [] | Some x \<Rightarrow> [x], ps'))
      (handle_property_set env (pr_context peer) k v False ps)"
proof -
  obtain c1 where c1: "RecvUint32 \<lparr>so_polls = polls, so_chunks = chunks, so_timeout = kDefaultSocketTimeout\<rparr>
      = (Some (msg_setprop2 wire), c1)" "good_conn c1 (wire_string k @ wire_string v)"
    using RecvUint32_good conn unfolding setprop2_bytes_def by blast
  obtain c2 where c2: "RecvString c1 = (Some k, c2)" "good_conn c2 (wire_string v @ [])"
    using RecvString_good[OF c1(2) len(1)] by auto
  obtain c3 where "RecvString c2 = (Some v, c3)" using RecvString_good[OF c2(2) len(2)] by auto
  then show ?thesis using assms(1-3) c1(1) c2(1) by (simp add: handle_property_set_fd_def)
qed

section \<open>The legacy protocol\<close>

text \<open>
  \<open>handle_property_set_fd\<close> passes the value buffer for the name as well: the name that the
  client sent has no influence.
\<close>

lemma handle_setprop_legacy:
  assumes "pr_accept peer" "pr_cred peer" "length pname = PROP_NAME_MAX" "length pval = PROP_VALUE_MAX"
    and conn: "good_conn \<lparr>so_polls = polls, so_chunks = chunks, so_timeout = kDefaultSocketTimeout\<rparr>
      (bytes_of_u32 (msg_setprop wire) @ pname @ pval)"
  shows "handle_property_set_fd env wire peer polls chunks ps =
    (let v = c_str (pval[PROP_VALUE_MAX - 1 := NUL]) in
     map_option (\<lambda>(r, ps'). (case r of None \<Rightarrow> [] | Some x \<Rightarrow> [x], ps'))
      (handle_property_set env (pr_context peer) v v True ps))"
proof -
  obtain c1 where c1: "RecvUint32 \<lparr>so_polls = polls, so_chunks = chunks, so_timeout = kDefaultSocketTimeout\<rparr>
      = (Some (msg_setprop wire), c1)" "good_conn c1 (pname @ pval)"
    using RecvUint32_good conn by blast
  obtain c2 where c2: "RecvFully PROP_NAME_MAX c1 = (Some pname, c2)" "good_conn c2 (pval @ [])"
    using RecvFully_good[OF c1(2)] assms(3) by auto
  obtain c3 where "RecvFully PROP_VALUE_MAX c2 = (Some pval, c3)"
    using RecvFully_good[OF c2(2)] assms(4) by auto
  then show ?thesis using assms(1,2) c1(1) c2(1) by (simp add: handle_property_set_fd_def Let_def)
qed

section \<open>Properties\<close>

definition sample_wire :: wire_codes where
  "sample_wire = \<lparr>msg_setprop = 1, msg_setprop2 = 2\<rparr>"

definition sample_peer :: peer where
  "sample_peer = \<lparr>pr_accept = True, pr_cred = True, pr_context = Some ''u:r:shell''\<rparr>"

definition sample_client :: client_env where
  "sample_client = \<lparr>ce_connect_errno = None, ce_send = int, ce_writev = True, ce_reply = Some 0\<rparr>"

definition one_chunk :: "string \<Rightarrow> string list" where
  "one_chunk bytes = map (\<lambda>b. [b]) bytes"

lemma good_conn_sample:
  "good_conn \<lparr>so_polls = replicate (length bytes) (POLL_READY, 1), so_chunks = one_chunk bytes,
     so_timeout = kDefaultSocketTimeout\<rparr> bytes" if "length bytes < 2000"
  using that
  by (auto simp: good_conn_def one_chunk_def kDefaultSocketTimeout_def sum_list_replicate concat_map_singleton)

text \<open>
  C17. What a client sets is what the server is asked to set. A client that uses the current
  protocol hands a byte string to its socket; if these bytes reach the server in whatever
  pieces before its timeout, the server handles the request for exactly the key and the value
  that the client was called with. The client reports success just when the answer is the
  success code 0.
\<close>

theorem set_property_round_trip:
  assumes "ce_connect_errno ce = None" "ce_writev ce" "length k \<le> 65535" "length v < PROP_VALUE_MAX"
    "pr_accept peer" "pr_cred peer" "msg_setprop wire \<noteq> msg_setprop2 wire"
  shows "\<exists>rc sent. system_property_set ce wire os 2 (Some k) (Some v) s = Some (rc, sent, 2, s) \<and>
    (rc = 0 \<longleftrightarrow> ce_reply ce = Some 0) \<and>
    (\<forall>polls chunks.
       good_conn \<lparr>so_polls = polls, so_chunks = chunks, so_timeout = kDefaultSocketTimeout\<rparr> sent \<longrightarrow>
       handle_property_set_fd env wire peer polls chunks ps =
         map_option (\<lambda>(r, ps'). (case r of None \<Rightarrow> [] | Some x \<Rightarrow> [x], ps'))
           (handle_property_set env (pr_context peer) k v False ps))"
proof -
  obtain rc where "system_property_set ce wire os 2 (Some k) (Some v) s = Some (rc, setprop2_bytes wire k v, 2, s)"
    "rc = 0 \<longleftrightarrow> ce_reply ce = Some 0"
    using system_property_set_bytes[of 2 v k ce wire os s] assms by auto
  moreover have "length v \<le> 65535" using assms(4) by simp
  ultimately show ?thesis using handle_setprop2[OF assms(5-7) assms(3)] by blast
qed

theorem set_property_round_trip_witness:
  "\<exists>rc sent. system_property_set sample_client sample_wire sample_os 2 (Some ''a.b'') (Some ''1'') sample_sysprops
      = Some (rc, sent, 2, sample_sysprops) \<and> (rc = 0 \<longleftrightarrow> ce_reply sample_client = Some 0) \<and>
    (\<forall>polls chunks.
       good_conn \<lparr>so_polls = polls, so_chunks = chunks, so_timeout = kDefaultSocketTimeout\<rparr> sent \<longrightarrow>
       handle_property_set_fd sample_env sample_wire sample_peer polls chunks sample_svc =
         map_option (\<lambda>(r, ps'). (case r of None \<Rightarrow> [] | Some x \<Rightarrow> [x], ps'))
           (handle_property_set sample_env (pr_context sample_peer) ''a.b'' ''1'' False sample_svc))"
  by (rule set_property_round_trip) (simp_all add: sample_client_def sample_wire_def sample_peer_def)

text \<open>
  In the legacy protocol the name that the client sends is lost: the server handles the
  request with the value in the place of the name as well, whatever the 32 bytes of the name
  are.
\<close>

theorem legacy_request_loses_name:
  assumes "pr_accept peer" "pr_cred peer" "length pname = PROP_NAME_MAX" "length pval = PROP_VALUE_MAX"
    "good_conn \<lparr>so_polls = polls, so_chunks = chunks, so_timeout = kDefaultSocketTimeout\<rparr>
      (bytes_of_u32 (msg_setprop wire) @ pname @ pval)"
  shows "handle_property_set_fd env wire peer polls chunks ps =
    (let v = c_str (pval[PROP_VALUE_MAX - 1 := NUL]) in
     map_option (\<lambda>(r, ps'). (case r of None \<Rightarrow> [] | Some x \<Rightarrow> [x], ps'))
      (handle_property_set env (pr_context peer) v v True ps))"
  by (rule handle_setprop_legacy[OF assms])

definition legacy_sample :: string where
  "legacy_sample = bytes_of_u32 (msg_setprop sample_wire) @ (''a.b'' @ replicate 29 NUL) @ (''1'' @ replicate 91 NUL)"

theorem legacy_request_loses_name_witness:
  "handle_property_set_fd sample_env sample_wire sample_peer (replicate (length legacy_sample) (POLL_READY, 1))
     (one_chunk legacy_sample) sample_svc =
   (let v = c_str ((''1'' @ replicate 91 NUL)[PROP_VALUE_MAX - 1 := NUL]) in
     map_option (\<lambda>(r, ps'). (case r of None \<Rightarrow> [] | Some x \<Rightarrow> [x], ps'))
      (handle_property_set sample_env (pr_context sample_peer) v v True sample_svc))"
proof (rule legacy_request_loses_name[where pname = "''a.b'' @ replicate 29 NUL" and pval = "''1'' @ replicate 91 NUL"])
  have "length legacy_sample < 2000" by (simp add: legacy_sample_def)
  then show "good_conn \<lparr>so_polls = replicate (length legacy_sample) (POLL_READY, 1), so_chunks = one_chunk legacy_sample,
      so_timeout = kDefaultSocketTimeout\<rparr>
     (bytes_of_u32 (msg_setprop sample_wire) @ (''a.b'' @ replicate 29 NUL) @ ''1'' @ replicate 91 NUL)"
    using good_conn_sample[of legacy_sample] by (simp add: legacy_sample_def)
qed (simp_all add: sample_peer_def PROP_NAME_MAX_def)

end
