(* ===== verification/Prop_Seqlock.thy ===== *)
theory Prop_Seqlock
  imports Prop_Value
begin

text \<open>
  A writer and a reader of one property record. The writer runs
  \<^verbatim>\<open>__system_property_update\<close> over and over: it marks the serial dirty, copies the value byte by
  byte and stores the next serial. The reader runs \<^verbatim>\<open>__system_property_read\<close>: it waits for a
  clean serial, copies the value byte by byte, and accepts the copy when the serial has not
  changed. Each step below is one access to the shared record; the fences of the source order
  these accesses, and any interleaving of the two sequences is possible.

  \<open>sl_hist\<close> is a ghost variable: the values the record has had, the current one last while
  the writer is idle. The reader carries as a ghost how many updates there had been when it
  loaded the serial.
\<close>

section \<open>Steps\<close>

datatype writer =
    WIdle
  | WCopy string nat

datatype reader =
    RStart
  | RCopy nat u32 string
  | RDone nat nat nat string

record seqlock =
  sl_info :: prop_info
  sl_writer :: writer
  sl_reader :: reader
  sl_hist :: "string list"

definition updates :: "seqlock \<Rightarrow> nat" where
  "updates s = length (sl_hist s) - 1"

definition put_byte :: "nat \<Rightarrow> char \<Rightarrow> prop_info \<Rightarrow> prop_info" where
  "put_byte k c i = i\<lparr>pi_value := (pi_value i)[k := c]\<rparr>"

inductive sl_step :: "seqlock \<Rightarrow> seqlock \<Rightarrow> bool" where
  w_begin: "sl_writer s = WIdle \<Longrightarrow> value_ok v \<Longrightarrow>
     sl_step s (s\<lparr>sl_info := update_begin (sl_info s), sl_writer := WCopy v 0\<rparr>)"
| w_byte: "sl_writer s = WCopy v k \<Longrightarrow> k \<le> length v \<Longrightarrow>
     sl_step s (s\<lparr>sl_info := put_byte k ((v @ [NUL]) ! k) (sl_info s), sl_writer := WCopy v (Suc k)\<rparr>)"
| w_end: "sl_writer s = WCopy v (Suc (length v)) \<Longrightarrow>
     sl_step s (s\<lparr>sl_info := update_end (length v) (sl_info s), sl_writer := WIdle,
                  sl_hist := sl_hist s @ [v]\<rparr>)"
| r_load: "sl_reader s = RStart \<Longrightarrow> \<not> SERIAL_DIRTY (pi_serial (sl_info s)) \<Longrightarrow>
     sl_step s (s\<lparr>sl_reader := RCopy (updates s) (pi_serial (sl_info s)) []\<rparr>)"
| r_byte: "sl_reader s = RCopy n serial buf \<Longrightarrow> length buf \<le> SERIAL_VALUE_LEN serial \<Longrightarrow>
     sl_step s (s\<lparr>sl_reader := RCopy n serial (buf @ [pi_value (sl_info s) ! length buf])\<rparr>)"
| r_accept: "sl_reader s = RCopy n serial buf \<Longrightarrow> length buf = Suc (SERIAL_VALUE_LEN serial) \<Longrightarrow>
     serial = pi_serial (sl_info s) \<Longrightarrow>
     sl_step s (s\<lparr>sl_reader := RDone n (updates s - n) (SERIAL_VALUE_LEN serial) buf\<rparr>)"
| r_retry: "sl_reader s = RCopy n serial buf \<Longrightarrow> length buf = Suc (SERIAL_VALUE_LEN serial) \<Longrightarrow>
     serial \<noteq> pi_serial (sl_info s) \<Longrightarrow>
     sl_step s (s\<lparr>sl_reader := RStart\<rparr>)"

inductive_cases sl_stepE: "sl_step s t"

text \<open>The start: a well-formed record, nobody at work.\<close>

definition sl_start :: "prop_info \<Rightarrow> seqlock" where
  "sl_start i = \<lparr>sl_info = i, sl_writer = WIdle, sl_reader = RStart, sl_hist = [prop_value i]\<rparr>"

section \<open>Invariants\<close>

text \<open>\<open>c\<close> is the serial at the start; every update adds two to its lower bits.\<close>

definition counts :: "u32 \<Rightarrow> nat \<Rightarrow> u32 \<Rightarrow> bool" where
  "counts c n serial \<longleftrightarrow> \<not> SERIAL_DIRTY serial \<and> take_bit 24 serial = take_bit 24 (c + of_nat (2 * n))"

definition writer_inv :: "u32 \<Rightarrow> seqlock \<Rightarrow> bool" where
  "writer_inv c s \<longleftrightarrow> sl_hist s \<noteq> [] \<and>
     (case sl_writer s of
        WIdle \<Rightarrow> info_ok (sl_info s) \<and> prop_value (sl_info s) = last (sl_hist s)
          \<and> counts c (updates s) (pi_serial (sl_info s))
      | WCopy v k \<Rightarrow> value_ok v \<and> k \<le> Suc (length v) \<and> length (pi_value (sl_info s)) = PROP_VALUE_MAX
          \<and> take k (pi_value (sl_info s)) = take k (v @ [NUL])
          \<and> (\<exists>s0. counts c (updates s) s0 \<and> pi_serial (sl_info s) = s0 OR 1))"

definition reader_inv :: "u32 \<Rightarrow> seqlock \<Rightarrow> bool" where
  "reader_inv c s \<longleftrightarrow>
     (case sl_reader s of
        RStart \<Rightarrow> True
      | RCopy n serial buf \<Rightarrow> n \<le> updates s \<and> counts c n serial
          \<and> SERIAL_VALUE_LEN serial = length (sl_hist s ! n)
          \<and> (n = updates s \<and> sl_writer s = WIdle \<longrightarrow> buf = take (length buf) (sl_hist s ! n @ [NUL]))
      | RDone n gap len buf \<Rightarrow> n \<le> updates s \<and>
          (gap < 2 ^ 23 \<longrightarrow> gap = 0 \<and> len = length (sl_hist s ! n) \<and> buf = sl_hist s ! n @ [NUL]))"

lemma counts_next:
  assumes "counts c n s" "len < 256"
  shows "counts c (Suc n) (serial_next len (s OR 1))"
proof -
  have nd: "\<not> SERIAL_DIRTY s" and tb: "take_bit 24 s = take_bit 24 (c + of_nat (2 * n))"
    using assms(1) by (auto simp: counts_def)
  have "take_bit 24 (s + 2) = take_bit 24 (c + of_nat (2 * n) + 2)" by (rule take_bit_24_cong[OF tb])
  also have "\<dots> = take_bit 24 (c + of_nat (2 * Suc n))" by (simp add: algebra_simps)
  finally show ?thesis
    using take_bit_serial_next[OF nd] serial_next_not_dirty[OF nd] by (simp add: counts_def)
qed

lemma counts_same:
  assumes "counts c n s" "counts c m s" "n \<le> m" "m - n < 2 ^ 23"
  shows "n = m"
proof -
  have "2 * m = 2 * n + 2 * (m - n)" using assms(3) by simp
  then have "take_bit 24 (c + of_nat (2 * n) + of_nat (2 * (m - n))) = take_bit 24 (c + of_nat (2 * m))"
    by (metis add.assoc of_nat_add)
  then have "take_bit 24 (c + of_nat (2 * n) + of_nat (2 * (m - n))) = take_bit 24 (c + of_nat (2 * n))"
    using assms(1,2) by (simp add: counts_def)
  then have "2 ^ 24 dvd 2 * (m - n)" by (rule take_bit_24_add)
  then have "2 * (m - n) = 0" using assms(4) by (auto dest!: dvd_imp_le)
  then show ?thesis using assms(3) by simp
qed

lemma dirty_or_1 [simp]: "SERIAL_DIRTY (s OR 1)"
  by (simp add: SERIAL_DIRTY_bit bit_or_iff bit_1_iff)

lemma copied_value:
  assumes "value_ok v" "length buf = PROP_VALUE_MAX" "take (Suc (length v)) buf = v @ [NUL]"
  shows "c_str buf = v"
proof -
  have "buf = (v @ [NUL]) @ drop (Suc (length v)) buf" using assms(3) by (metis append_take_drop_id)
  then have "buf = v @ NUL # drop (Suc (length v)) buf" by simp
  then show ?thesis using c_str_append_NUL assms(1) unfolding value_ok_def by metis
qed

lemma writer_inv_step:
  assumes "sl_step s t" "writer_inv c s"
  shows "writer_inv c t"
  using assms
proof cases
  case (w_begin v)
  then show ?thesis using assms(2)
    by (auto simp: writer_inv_def update_begin_def info_ok_def updates_def)
next
  case (w_byte v k)
  then have "k < length (pi_value (sl_info s))" "take k (pi_value (sl_info s)) = take k (v @ [NUL])"
    using assms(2) by (auto simp: writer_inv_def value_ok_def)
  then have "take (Suc k) ((pi_value (sl_info s))[k := (v @ [NUL]) ! k]) = take (Suc k) (v @ [NUL])"
    using w_byte(3) by (simp add: take_Suc_conv_app_nth del: take_append)
  then show ?thesis using w_byte assms(2)
    by (auto simp: writer_inv_def put_byte_def updates_def)
next
  case (w_end v)
  then obtain s0 where s0: "counts c (updates s) s0" "pi_serial (sl_info s) = s0 OR 1"
    and v: "value_ok v" "length (pi_value (sl_info s)) = PROP_VALUE_MAX"
      "take (Suc (length v)) (pi_value (sl_info s)) = v @ [NUL]" and ne: "sl_hist s \<noteq> []"
    using assms(2) by (auto simp: writer_inv_def)
  have cv: "c_str (pi_value (sl_info s)) = v" by (rule copied_value[OF v])
  have len: "length v < 256" using v(1) by (simp add: value_ok_def)
  have nd: "\<not> SERIAL_DIRTY s0" using s0(1) by (simp add: counts_def)
  have "updates t = Suc (updates s)" using w_end ne by (cases "sl_hist s") (auto simp: updates_def)
  then show ?thesis
    using w_end(1) counts_next[OF s0(1) len] v cv SERIAL_VALUE_LEN_next[OF nd len] serial_next_not_dirty[OF nd]
    by (simp add: writer_inv_def update_end_def info_ok_def prop_value_def s0(2) value_ok_def)
qed (auto simp: writer_inv_def updates_def split: writer.splits)

lemma reader_inv_step:
  assumes st: "sl_step s t" and w: "writer_inv c s" and r: "reader_inv c s"
  shows "reader_inv c t"
  using st
proof cases
  case (w_begin v)
  then show ?thesis using r by (auto simp: reader_inv_def updates_def split: reader.splits)
next
  case (w_byte v k)
  then show ?thesis using r by (auto simp: reader_inv_def updates_def split: reader.splits)
next
  case (w_end v)
  have "sl_hist s \<noteq> []" using w by (simp add: writer_inv_def)
  then have len: "length (sl_hist s) = Suc (updates s)" by (cases "sl_hist s") (auto simp: updates_def)
  have t: "sl_hist t = sl_hist s @ [v]" "sl_reader t = sl_reader s" using w_end(1) by simp_all
  have "updates t = Suc (updates s)" using len t by (simp add: updates_def)
  moreover have "sl_hist t ! n = sl_hist s ! n" if "n \<le> updates s" for n
    using len t that by (simp add: nth_append)
  ultimately show ?thesis using r t(2) by (auto simp: reader_inv_def split: reader.splits)
next
  case r_load
  then have "sl_writer s = WIdle" using w by (auto simp: writer_inv_def split: writer.splits)
  then show ?thesis using r_load w
    by (auto simp: reader_inv_def writer_inv_def info_ok_def updates_def last_conv_nth)
next
  case (r_byte n serial buf)
  show ?thesis
  proof (cases "n = updates s \<and> sl_writer s = WIdle")
    case True
    then have io: "info_ok (sl_info s)" and val: "prop_value (sl_info s) = sl_hist s ! n"
      using w by (auto simp: writer_inv_def updates_def last_conv_nth)
    have buf: "buf = take (length buf) (sl_hist s ! n @ [NUL])" and len: "length buf \<le> length (sl_hist s ! n)"
      using r r_byte True by (auto simp: reader_inv_def)
    have "take (Suc (length (sl_hist s ! n))) (pi_value (sl_info s)) = sl_hist s ! n @ [NUL]"
      using info_ok_buffer[OF io] val by simp
    then have "pi_value (sl_info s) ! length buf = (sl_hist s ! n @ [NUL]) ! length buf"
      using len by (metis le_imp_less_Suc nth_take)
    then have "buf @ [pi_value (sl_info s) ! length buf] = take (Suc (length buf)) (sl_hist s ! n @ [NUL])"
      using buf len by (simp add: take_Suc_conv_app_nth del: take_append)
    moreover define buf' where "buf' = buf @ [pi_value (sl_info s) ! length buf]"
    ultimately have "buf' = take (Suc (length buf)) (sl_hist s ! n @ [NUL])" by metis
    moreover have "length buf' = Suc (length buf)" by (simp add: buf'_def)
    ultimately have "buf' = take (length buf') (sl_hist s ! n @ [NUL])" by metis
    moreover have t: "sl_reader t = RCopy n serial buf'" "sl_hist t = sl_hist s" "sl_writer t = sl_writer s"
      using r_byte(1) by (simp_all add: buf'_def)
    moreover have "n \<le> updates s" "counts c n serial" "SERIAL_VALUE_LEN serial = length (sl_hist s ! n)"
      using r r_byte(2) by (simp_all add: reader_inv_def)
    ultimately show ?thesis
      unfolding reader_inv_def updates_def t reader.case by (intro conjI impI) assumption+
  next
    case False
    then show ?thesis using r r_byte by (auto simp: reader_inv_def updates_def)
  qed
next
  case (r_accept n serial buf)
  have n: "n \<le> updates s" "counts c n (pi_serial (sl_info s))"
    "SERIAL_VALUE_LEN serial = length (sl_hist s ! n)" using r r_accept by (auto simp: reader_inv_def)
  then have "sl_writer s = WIdle"
    using w by (auto simp: writer_inv_def counts_def split: writer.splits)
  then have c: "counts c (updates s) (pi_serial (sl_info s))" using w by (simp add: writer_inv_def)
  have "n = updates s \<and> buf = sl_hist s ! n @ [NUL]" if "updates s - n < 2 ^ 23"
  proof -
    have eq: "n = updates s" using counts_same[OF n(2) c n(1) that] .
    then have "buf = take (length buf) (sl_hist s ! n @ [NUL])"
      using r r_accept(2) \<open>sl_writer s = WIdle\<close> by (simp add: reader_inv_def)
    moreover have "length buf = length (sl_hist s ! n @ [NUL])" using r_accept(3) n(3) by simp
    ultimately show ?thesis using eq by (metis order_refl take_all)
  qed
  then show ?thesis
    unfolding reader_inv_def using n(1,3) r_accept(1) by (auto simp: updates_def)
next
  case (r_retry n serial buf)
  then show ?thesis by (simp add: reader_inv_def)
qed

lemma sl_reachable_inv:
  assumes "info_ok i" "sl_step\<^sup>*\<^sup>* (sl_start i) s"
  shows "writer_inv (pi_serial i) s \<and> reader_inv (pi_serial i) s"
  using assms(2)
proof (induction rule: rtranclp_induct)
  case base
  then show ?case
    using assms(1) by (simp add: sl_start_def writer_inv_def reader_inv_def counts_def updates_def info_ok_def)
next
  case (step s t)
  then show ?case using writer_inv_step reader_inv_step by blast
qed

lemma seqlock_read_committed:
  assumes "info_ok i" "sl_step\<^sup>*\<^sup>* (sl_start i) s"
    "sl_reader s = RDone n gap len buf" "gap < 2 ^ 23"
  shows "gap = 0 \<and> n < length (sl_hist s) \<and> len = length (sl_hist s ! n) \<and> buf = sl_hist s ! n @ [NUL]"
proof -
  have "sl_hist s \<noteq> []" "n \<le> updates s" "gap = 0 \<and> len = length (sl_hist s ! n) \<and> buf = sl_hist s ! n @ [NUL]"
    using sl_reachable_inv[OF assms(1,2)] assms(3,4) by (auto simp: writer_inv_def reader_inv_def)
  then show ?thesis by (cases "sl_hist s") (auto simp: updates_def)
qed

section \<open>The writer's steps are the update\<close>

lemma copy_bytes:
  assumes "sl_writer s = WCopy v k" "k \<le> Suc (length v)" "length (pi_value (sl_info s)) = PROP_VALUE_MAX"
    "value_ok v" "take k (pi_value (sl_info s)) = take k (v @ [NUL])"
  shows "sl_step\<^sup>*\<^sup>* s (s\<lparr>sl_info := update_copy v (length v) (sl_info s), sl_writer := WCopy v (Suc (length v))\<rparr>)"
  using assms
proof (induction "Suc (length v) - k" arbitrary: k s)
  case 0
  have "Suc (length v) = k" using 0 by simp
  then have "v @ [NUL] @ drop (Suc (length v)) (pi_value (sl_info s)) = pi_value (sl_info s)"
    using 0 append_take_drop_id[of k "pi_value (sl_info s)"] by simp
  then have "update_copy v (length v) (sl_info s) = sl_info s"
    using strlcpy_whole[OF 0(5), of "pi_value (sl_info s)"] by (simp add: update_copy_def)
  then have "s\<lparr>sl_info := update_copy v (length v) (sl_info s), sl_writer := WCopy v (Suc (length v))\<rparr> = s"
    using 0(2) \<open>Suc (length v) = k\<close> by (cases s) simp
  then show ?case by simp
next
  case (Suc d)
  let ?s = "s\<lparr>sl_info := put_byte k ((v @ [NUL]) ! k) (sl_info s), sl_writer := WCopy v (Suc k)\<rparr>"
  have k: "k \<le> length v" using Suc by simp
  have st: "sl_step s ?s" using w_byte[OF Suc(3) k] .
  have "take (Suc k) (pi_value (sl_info ?s)) = take (Suc k) (v @ [NUL])"
    using Suc k by (simp add: put_byte_def take_Suc_conv_app_nth value_ok_def del: take_append)
  then have "sl_step\<^sup>*\<^sup>* ?s (?s\<lparr>sl_info := update_copy v (length v) (sl_info ?s), sl_writer := WCopy v (Suc (length v))\<rparr>)"
    using Suc k by (intro Suc(1)[of "Suc k"]) (auto simp: put_byte_def)
  moreover have "update_copy v (length v) (sl_info ?s) = update_copy v (length v) (sl_info s)"
    using k strlcpy_whole[OF Suc(6)] by (simp add: update_copy_def put_byte_def)
  ultimately show ?case using st by (simp add: converse_rtranclp_into_rtranclp)
qed

lemma seqlock_writer_alone:
  assumes "info_ok (sl_info s)" "sl_writer s = WIdle" "value_ok v"
  shows "sl_step\<^sup>*\<^sup>* s (s\<lparr>sl_info := update_info v (length v) (sl_info s), sl_hist := sl_hist s @ [v]\<rparr>)"
proof -
  let ?a = "s\<lparr>sl_info := update_begin (sl_info s), sl_writer := WCopy v 0\<rparr>"
  let ?b = "?a\<lparr>sl_info := update_copy v (length v) (sl_info ?a), sl_writer := WCopy v (Suc (length v))\<rparr>"
  have "sl_step s ?a" by (rule w_begin[OF assms(2,3)])
  moreover have "sl_step\<^sup>*\<^sup>* ?a ?b"
    using assms by (intro copy_bytes[of _ _ 0]) (auto simp: update_begin_def info_ok_def)
  moreover have "sl_step ?b (?b\<lparr>sl_info := update_end (length v) (sl_info ?b), sl_writer := WIdle,
      sl_hist := sl_hist ?b @ [v]\<rparr>)" by (rule w_end) simp
  ultimately have "sl_step\<^sup>*\<^sup>* s (?b\<lparr>sl_info := update_end (length v) (sl_info ?b), sl_writer := WIdle,
      sl_hist := sl_hist ?b @ [v]\<rparr>)" by (meson converse_rtranclp_into_rtranclp rtranclp.rtrancl_into_rtrancl)
  moreover have "s\<lparr>sl_info := x, sl_writer := WIdle, sl_hist := y\<rparr> = s\<lparr>sl_info := x, sl_hist := y\<rparr>" for x y
    using assms(2) by (cases s) simp
  ultimately show ?thesis by (simp add: update_info_def)
qed

section \<open>Properties\<close>

text \<open>
  C2. No torn reads: in every interleaving of a writer that updates a record again and again
  with a reader, a value that the reader accepts is, byte for byte, a value the record had,
  and its length is the one reported, provided that fewer than \<open>2 ^ 23\<close> updates were completed
  while the reader was copying (the count in the serial wraps around after so many). In fact
  no update was completed at all in that time.
\<close>

theorem seqlock_no_torn_read:
  assumes "info_ok i" "sl_step\<^sup>*\<^sup>* (sl_start i) s"
    "sl_reader s = RDone n gap len buf" "gap < 2 ^ 23"
  shows "gap = 0 \<and> n < length (sl_hist s) \<and> len = length (sl_hist s ! n) \<and> buf = sl_hist s ! n @ [NUL]"
  by (rule seqlock_read_committed[OF assms])

lemma sample_read:
  "sl_step\<^sup>*\<^sup>* (sl_start (mk_prop_info ''a'' []))
     ((sl_start (mk_prop_info ''a'' []))\<lparr>sl_reader := RDone 0 0 0 [NUL]\<rparr>)"
proof -
  let ?s = "sl_start (mk_prop_info ''a'' [])"
  have ser: "pi_serial (mk_prop_info ''a'' []) = 0" "pi_value (mk_prop_info ''a'' []) ! 0 = NUL"
    by (simp_all add: mk_prop_info_def)
  have z: "SERIAL_VALUE_LEN 0 = 0" by (simp add: SERIAL_VALUE_LEN_def)
  have 1: "sl_step ?s (?s\<lparr>sl_reader := RCopy 0 0 []\<rparr>)"
    using r_load[of ?s] ser by (simp add: sl_start_def SERIAL_DIRTY_def updates_def)
  have 2: "sl_step (?s\<lparr>sl_reader := RCopy 0 0 []\<rparr>) (?s\<lparr>sl_reader := RCopy 0 0 [NUL]\<rparr>)"
    using r_byte[of "?s\<lparr>sl_reader := RCopy 0 0 []\<rparr>" 0 0 "[]"] ser by (simp add: sl_start_def)
  have 3: "sl_step (?s\<lparr>sl_reader := RCopy 0 0 [NUL]\<rparr>) (?s\<lparr>sl_reader := RDone 0 0 0 [NUL]\<rparr>)"
    using r_accept[of "?s\<lparr>sl_reader := RCopy 0 0 [NUL]\<rparr>" 0 0 "[NUL]"] ser z
    by (simp add: sl_start_def updates_def)
  show ?thesis using 1 2 3 by (meson rtranclp.rtrancl_refl rtranclp.rtrancl_into_rtrancl)
qed

theorem seqlock_no_torn_read_witness:
  "let s = (sl_start (mk_prop_info ''a'' []))\<lparr>sl_reader := RDone 0 0 0 [NUL]\<rparr> in
   (0 :: nat) = 0 \<and> 0 < length (sl_hist s) \<and> 0 = length (sl_hist s ! 0) \<and> [NUL] = sl_hist s ! 0 @ [NUL]"
  using seqlock_no_torn_read[OF mk_prop_info_ok(1) sample_read, of 0 0 0 "[NUL]"]
  by (simp add: value_ok_def)

text \<open>
  C31. The steps of the writer, run without interruption, do what the update of a record does:
  the record becomes \<open>update_info\<close> of the old one and the value is the new last entry of the
  history.
\<close>

theorem seqlock_writer_refines_update:
  assumes "info_ok (sl_info s)" "sl_writer s = WIdle" "value_ok v"
  shows "sl_step\<^sup>*\<^sup>* s (s\<lparr>sl_info := update_info v (length v) (sl_info s), sl_hist := sl_hist s @ [v]\<rparr>)"
  by (rule seqlock_writer_alone[OF assms])

theorem seqlock_writer_refines_update_witness:
  "let s = sl_start (mk_prop_info ''a'' ''1'') in
   sl_step\<^sup>*\<^sup>* s (s\<lparr>sl_info := update_info ''22'' (length ''22'') (sl_info s), sl_hist := sl_hist s @ [''22'']\<rparr>)"
  using seqlock_writer_refines_update[of "sl_start (mk_prop_info ''a'' ''1'')" "''22''"]
    mk_prop_info_ok(1)[of "''1''" "''a''"]
  by (simp add: sl_start_def value_ok_def)

end
