(* ===== verification/Tokenizer.thy ===== *)
theory Tokenizer
  imports Prelude
begin

text \<open>
  The tokenizer of the init language, \<open>next_token\<close> of \<^verbatim>\<open>init/parser.cpp\<close>. It works in the
  buffer it reads: the characters of a token are written back over the text they come from,
  and the token is ended by a NUL. The first part of the theory is this program; the second
  is a tokenizer on lists that writes nothing, and the proof that the two agree because the
  writing position never passes the reading position.
\<close>

section \<open>The program\<close>

datatype token = T_EOF | T_NEWLINE | T_TEXT

record parse_state =
  st_buf :: string
  st_ptr :: nat
  st_text :: nat
  st_line :: nat
  st_nexttoken :: "token option"

text \<open>The buffer ends in a NUL, and reading never goes past it.\<close>

definition rd :: "string \<Rightarrow> nat \<Rightarrow> char" where
  "rd buf x = (if x < length buf then buf ! x else NUL)"

datatype start = At_EOF | At_Newline | At_Text

abbreviation NL :: char where
  "NL \<equiv> CHR 0x0A"

abbreviation TAB :: char where
  "TAB \<equiv> CHR 0x09"

abbreviation CR :: char where
  "CR \<equiv> CHR 0x0D"

text \<open>The end of a comment: the position of the next newline or of the NUL.\<close>

function skip_comment :: "string \<Rightarrow> nat \<Rightarrow> nat" where
  "skip_comment buf x =
     (if rd buf x \<noteq> NUL \<and> rd buf x \<noteq> NL then skip_comment buf (Suc x) else x)"
  by pat_completeness auto
termination
  by (relation "measure (\<lambda>(buf, x). length buf - x)") (auto simp: rd_def split: if_splits)

function skip_blank :: "string \<Rightarrow> nat \<Rightarrow> start \<times> nat" where
  "skip_blank buf x =
     (let c = rd buf x in
      if c = NUL then (At_EOF, x)
      else if c = NL then (At_Newline, Suc x)
      else if c = CHR '' '' \<or> c = TAB \<or> c = CR then skip_blank buf (Suc x)
      else if c = CHR ''#'' then
        (let y = skip_comment buf x in
         if rd buf y = NL then (At_Newline, Suc y) else (At_EOF, y))
      else (At_Text, x))"
  by pat_completeness auto
termination
  by (relation "measure (\<lambda>(buf, x). length buf - x)") (auto simp: rd_def split: if_splits)

function eat_blanks :: "string \<Rightarrow> nat \<Rightarrow> nat" where
  "eat_blanks buf x =
     (if rd buf x = CHR '' '' \<or> rd buf x = TAB then eat_blanks buf (Suc x) else x)"
  by pat_completeness auto
termination
  by (relation "measure (\<lambda>(buf, x). length buf - x)") (auto simp: rd_def split: if_splits)

declare skip_comment.simps [simp del] skip_blank.simps [simp del] eat_blanks.simps [simp del]

lemma eat_blanks_ge: "x \<le> eat_blanks buf x"
proof (induction buf x rule: eat_blanks.induct)
  case (1 buf x)
  then show ?case by (subst eat_blanks.simps) (auto intro: Suc_leD)
qed

text \<open>How the text part ends: at a separator, at the end of a line, or inside a quotation.\<close>

datatype finish = Done | Done_Newline | Unterminated

text \<open>
  The text part. \<open>q\<close> says that the position is inside a quotation, \<open>s\<close> is the writing and
  \<open>x\<close> the reading position. An escape writes its character and leaves the letter after the
  backslash to be read again, as the source does.
\<close>

function text_loop ::
  "bool \<Rightarrow> string \<Rightarrow> nat \<Rightarrow> nat \<Rightarrow> nat \<Rightarrow> finish \<times> string \<times> nat \<times> nat \<times> nat" where
  "text_loop q buf s x line =
     (let c = rd buf x in
      if q then
        (if c = NUL then (Unterminated, buf, s, x, line)
         else if c = CHR 0x22 then text_loop False buf s (Suc x) line
         else text_loop True (buf[s := c]) (Suc s) (Suc x) line)
      else if c = NUL then (Done, buf, s, x, line)
      else if c = CHR '' '' \<or> c = TAB \<or> c = CR then (Done, buf, s, Suc x, line)
      else if c = NL then (Done_Newline, buf, s, Suc x, line)
      else if c = CHR 0x22 then text_loop True buf s (Suc x) line
      else if c = CHR 0x5C then
        (let y = Suc x; d = rd buf y in
         if d = NUL then (Done, buf, s, y, line)
         else if d = CHR ''n'' then text_loop False (buf[s := NL]) (Suc s) y line
         else if d = CHR ''r'' then text_loop False (buf[s := CR]) (Suc s) y line
         else if d = CHR ''t'' then text_loop False (buf[s := TAB]) (Suc s) y line
         else if d = CHR 0x5C then text_loop False (buf[s := CHR 0x5C]) (Suc s) y line
         else if d = CR \<and> rd buf (Suc y) \<noteq> NL then text_loop False buf s (Suc y) line
         else if d = CR \<or> d = NL then text_loop False buf s (eat_blanks buf (Suc y)) (Suc line)
         else text_loop False (buf[s := d]) (Suc s) (Suc y) line)
      else text_loop False (buf[s := c]) (Suc s) (Suc x) line)"
  by pat_completeness auto
termination
proof (relation "measure (\<lambda>(q, buf, s, x, line). length buf - x)", goal_cases)
  case (10 q buf s x line c y d)
  then show ?case using eat_blanks_ge[of "Suc y" buf] by (auto simp: rd_def split: if_splits)
qed (auto simp: rd_def split: if_splits)

declare text_loop.simps [simp del]

definition next_token :: "parse_state \<Rightarrow> token \<times> parse_state" where
  "next_token state =
     (case st_nexttoken state of
        Some t \<Rightarrow> (t, state\<lparr>st_nexttoken := None\<rparr>)
      | None \<Rightarrow>
          (case skip_blank (st_buf state) (st_ptr state) of
             (At_EOF, x) \<Rightarrow> (T_EOF, state\<lparr>st_ptr := x\<rparr>)
           | (At_Newline, x) \<Rightarrow> (T_NEWLINE, state\<lparr>st_ptr := x\<rparr>)
           | (At_Text, x) \<Rightarrow>
               (case text_loop False (st_buf state) x x (st_line state) of
                  (Unterminated, buf, s, y, line) \<Rightarrow>
                    (T_EOF, state\<lparr>st_buf := buf, st_text := x, st_ptr := y, st_line := line\<rparr>)
                | (Done_Newline, buf, s, y, line) \<Rightarrow>
                    (T_TEXT, state\<lparr>st_buf := buf[s := NUL], st_text := x, st_ptr := y,
                                   st_line := line, st_nexttoken := Some T_NEWLINE\<rparr>)
                | (Done, buf, s, y, line) \<Rightarrow>
                    (T_TEXT, state\<lparr>st_buf := buf[s := NUL], st_text := x, st_ptr := y,
                                   st_line := line\<rparr>))))"

text \<open>The string a caller sees at the text pointer.\<close>

definition token_text :: "parse_state \<Rightarrow> string" where
  "token_text state = c_str (drop (st_text state) (st_buf state))"

section \<open>A tokenizer on lists\<close>

fun lex_blank :: "string \<Rightarrow> start \<times> string" where
  "lex_blank [] = (At_EOF, [])"
| "lex_blank (c # cs) =
     (if c = NL then (At_Newline, cs)
      else if c = CHR '' '' \<or> c = TAB \<or> c = CR then lex_blank cs
      else if c = CHR ''#'' then
        (case dropWhile (\<lambda>c. c \<noteq> NL) (c # cs) of [] \<Rightarrow> (At_EOF, []) | _ # r \<Rightarrow> (At_Newline, r))
      else (At_Text, c # cs))"

type_synonym lexed = "finish \<times> string \<times> string \<times> nat"

definition emit :: "char \<Rightarrow> lexed \<Rightarrow> lexed" where
  "emit c r = (case r of (f, out, rest, n) \<Rightarrow> (f, c # out, rest, n))"

definition next_line :: "lexed \<Rightarrow> lexed" where
  "next_line r = (case r of (f, out, rest, n) \<Rightarrow> (f, out, rest, Suc n))"

definition blank :: "char \<Rightarrow> bool" where
  "blank c \<longleftrightarrow> c = CHR '' '' \<or> c = TAB"

lemma dropWhile_less: "length (dropWhile P xs) < Suc (Suc (length xs))"
  using length_dropWhile_le[of P xs] by simp

text \<open>The results: how the text ends, its characters, the input left, the lines joined.\<close>

function lex_text :: "bool \<Rightarrow> string \<Rightarrow> lexed" where
  "lex_text q [] = (if q then Unterminated else Done, [], [], 0)"
| "lex_text True (c # cs) = (if c = CHR 0x22 then lex_text False cs else emit c (lex_text True cs))"
| "lex_text False (c # cs) =
     (if c = CHR '' '' \<or> c = TAB \<or> c = CR then (Done, [], cs, 0)
      else if c = NL then (Done_Newline, [], cs, 0)
      else if c = CHR 0x22 then lex_text True cs
      else if c = CHR 0x5C then
        (case cs of
           [] \<Rightarrow> (Done, [], [], 0)
         | d # ds \<Rightarrow>
             if d = CHR ''n'' then emit NL (lex_text False cs)
             else if d = CHR ''r'' then emit CR (lex_text False cs)
             else if d = CHR ''t'' then emit TAB (lex_text False cs)
             else if d = CHR 0x5C then emit CHR 0x5C (lex_text False cs)
             else if d = CR \<and> (ds = [] \<or> hd ds \<noteq> NL) then lex_text False ds
             else if d = CR \<or> d = NL then next_line (lex_text False (dropWhile blank ds))
             else emit d (lex_text False ds))
      else emit c (lex_text False cs))"
  by pat_completeness auto
termination
  by (relation "measure (\<lambda>(q, s). length s)") (auto simp: dropWhile_less)

lemma lex_text_escape:
  "lex_text False (CHR 0x5C # d # ds) =
     (if d = CHR ''n'' then emit NL (lex_text False (d # ds))
      else if d = CHR ''r'' then emit CR (lex_text False (d # ds))
      else if d = CHR ''t'' then emit TAB (lex_text False (d # ds))
      else if d = CHR 0x5C then emit CHR 0x5C (lex_text False (d # ds))
      else if d = CR \<and> (ds = [] \<or> hd ds \<noteq> NL) then lex_text False ds
      else if d = CR \<or> d = NL then next_line (lex_text False (dropWhile blank ds))
      else emit d (lex_text False ds))"
  by (subst lex_text.simps) simp

section \<open>The two agree\<close>

lemma drop_terminated:
  assumes "drop x buf = inp @ [NUL]" "NUL \<notin> set inp"
  shows "rd buf x = (case inp of [] \<Rightarrow> NUL | c # _ \<Rightarrow> c)" "x < length buf"
    "inp = c # cs \<Longrightarrow> drop (Suc x) buf = cs @ [NUL]"
proof -
  show x: "x < length buf" using assms(1) by (metis drop_all append_is_Nil_conv not_Cons_self2 not_le)
  show "rd buf x = (case inp of [] \<Rightarrow> NUL | c # _ \<Rightarrow> c)"
    using x assms(1) Cons_nth_drop_Suc[OF x] by (cases inp) (auto simp: rd_def)
  show "inp = c # cs \<Longrightarrow> drop (Suc x) buf = cs @ [NUL]"
    using assms(1) Cons_nth_drop_Suc[OF x] by simp
qed

lemma drop_update_before: "s < x \<Longrightarrow> drop x (buf[s := c]) = drop x buf"
  by simp

lemma skip_comment_lex:
  "drop x buf = inp @ [NUL] \<Longrightarrow> NUL \<notin> set inp \<Longrightarrow>
     drop (skip_comment buf x) buf = dropWhile (\<lambda>c. c \<noteq> NL) inp @ [NUL]"
proof (induction inp arbitrary: x)
  case Nil
  then show ?case using drop_terminated[of x buf "[]"] by (subst skip_comment.simps) simp
next
  case (Cons c cs)
  have "rd buf x = c" "drop (Suc x) buf = cs @ [NUL]" using drop_terminated[OF Cons.prems] by auto
  then show ?case using Cons by (subst skip_comment.simps) auto
qed

lemma eat_blanks_lex:
  "drop x buf = inp @ [NUL] \<Longrightarrow> NUL \<notin> set inp \<Longrightarrow>
     drop (eat_blanks buf x) buf = dropWhile blank inp @ [NUL]"
proof (induction inp arbitrary: x)
  case Nil
  then show ?case using drop_terminated[of x buf "[]"] by (subst eat_blanks.simps) simp
next
  case (Cons c cs)
  have "rd buf x = c" "drop (Suc x) buf = cs @ [NUL]" using drop_terminated[OF Cons.prems] by auto
  moreover have "blank c \<longleftrightarrow> c = CHR '' '' \<or> c = TAB" by (rule blank_def)
  ultimately show ?case using Cons by (subst eat_blanks.simps) auto
qed

lemma skip_blank_lex:
  "drop x buf = inp @ [NUL] \<Longrightarrow> NUL \<notin> set inp \<Longrightarrow> lex_blank inp = (k, rest) \<Longrightarrow>
     \<exists>y. skip_blank buf x = (k, y) \<and> drop y buf = rest @ [NUL] \<and> x \<le> y"
proof (induction inp arbitrary: x)
  case Nil
  then show ?case using drop_terminated[of x buf "[]"] by (subst skip_blank.simps) auto
next
  case (Cons c cs)
  have c: "rd buf x = c" "drop (Suc x) buf = cs @ [NUL]" using drop_terminated[OF Cons.prems(1,2)] by auto
  have nn: "c \<noteq> NUL" using Cons.prems(2) by auto
  show ?case
  proof (cases "c = CHR ''#''")
    case True
    let ?y = "skip_comment buf x"
    define w where "w = dropWhile (\<lambda>c. c \<noteq> NL) (c # cs)"
    have y: "drop ?y buf = w @ [NUL]" unfolding w_def by (rule skip_comment_lex[OF Cons.prems(1,2)])
    have "length w \<le> length (c # cs)" unfolding w_def by (rule length_dropWhile_le)
    then have xy: "x \<le> ?y" using arg_cong[OF y, of length] arg_cong[OF Cons.prems(1), of length] by simp
    have nd: "NUL \<notin> set w" using Cons.prems(2) unfolding w_def by (meson set_dropWhileD)
    note dt = drop_terminated[OF y nd]
    have run: "skip_blank buf x = (if rd buf ?y = NL then (At_Newline, Suc ?y) else (At_EOF, ?y))"
      using True c(1) by (subst skip_blank.simps) simp
    have lb: "(case w of [] \<Rightarrow> (At_EOF, []) | _ # r \<Rightarrow> (At_Newline, r)) = (k, rest)"
      using Cons.prems(3) True unfolding w_def by simp
    show ?thesis
    proof (cases w)
      case Nil
      then show ?thesis using dt(1) run xy y lb by simp
    next
      fix d ds assume w: "w = d # ds"
      then have "d = NL" using hd_dropWhile[of "\<lambda>c. c \<noteq> NL" "c # cs"] unfolding w_def by simp
      then show ?thesis using dt(1) dt(3)[OF w] run xy w lb by simp
    qed
  next
    case False
    show ?thesis
    proof (cases "c = CHR '' '' \<or> c = TAB \<or> c = CR")
      case True
      then obtain y where "skip_blank buf (Suc x) = (k, y) \<and> drop y buf = rest @ [NUL] \<and> Suc x \<le> y"
        using Cons.IH[OF c(2)] Cons.prems(2,3) by auto
      then show ?thesis using True c by (subst skip_blank.simps) auto
    next
      case nb: False
      then show ?thesis using False c nn Cons.prems(1,3) by (subst skip_blank.simps) auto
    qed
  qed
qed

text \<open>
  What the two results have in common. The writing position is at most the reading position,
  and strictly behind it unless the input is used up, so that the NUL written after the token
  destroys nothing.
\<close>

definition agree ::
  "lexed \<Rightarrow> string \<Rightarrow> nat \<Rightarrow> nat \<Rightarrow> finish \<times> string \<times> nat \<times> nat \<times> nat \<Rightarrow> bool" where
  "agree r buf s line res =
     (case (r, res) of ((f, out, rest, n), (f', buf', s', y, line')) \<Rightarrow>
        f' = f \<and> line' = line + n \<and> length buf' = length buf \<and> s' = s + length out
        \<and> take s' buf' = take s buf @ out \<and> drop y buf' = rest @ [NUL]
        \<and> s' \<le> y \<and> (f \<noteq> Unterminated \<longrightarrow> s' < y \<or> rest = []))"

lemma agree_emit:
  assumes "agree r (buf[s := c]) (Suc s) line res" "s < length buf"
  shows "agree (emit c r) buf s line res"
  using assms by (auto simp: agree_def emit_def take_Suc_conv_app_nth split: prod.splits)

lemma agree_next_line:
  assumes "agree r buf s (Suc line) res"
  shows "agree (next_line r) buf s line res"
  using assms by (auto simp: agree_def next_line_def split: prod.splits)

lemma agree_stop:
  assumes "drop y buf = rest @ [NUL]" "s \<le> y" "f \<noteq> Unterminated \<Longrightarrow> s < y \<or> rest = []"
  shows "agree (f, [], rest, 0) buf s line (f, buf, s, y, line)"
  using assms by (auto simp: agree_def)

lemma text_loop_lex:
  "drop x buf = inp @ [NUL] \<Longrightarrow> NUL \<notin> set inp \<Longrightarrow> s \<le> x \<Longrightarrow>
     agree (lex_text q inp) buf s line (text_loop q buf s x line)"
proof (induction "length inp" arbitrary: q inp buf s x line rule: less_induct)
  case less
  note pr = less.prems
  note d = drop_terminated[OF pr(1,2)]
  show ?case
  proof (cases inp)
    case Nil
    then show ?thesis using d(1) pr by (subst text_loop.simps) (auto intro: agree_stop)
  next
    case (Cons c cs)
    have c: "rd buf x = c" "drop (Suc x) buf = cs @ [NUL]" "c \<noteq> NUL" "NUL \<notin> set cs" "s < length buf"
      using d pr Cons by auto
    have ih: "agree (lex_text q ds) b t l (text_loop q b t y l)"
      if "drop y b = ds @ [NUL]" "NUL \<notin> set ds" "t \<le> y" "length ds \<le> length cs" for q ds b t y l
      using less.hyps[of ds y b t q l] that Cons by simp
    have copy: "agree (emit e (lex_text q ds)) buf s line (text_loop q (buf[s := e]) (Suc s) y line)"
      if "drop y buf = ds @ [NUL]" "NUL \<notin> set ds" "s < y" "length ds \<le> length cs" for e q ds y
      using ih[of y "buf[s := e]" ds "Suc s" q line] that c(5) by (intro agree_emit) auto
    show ?thesis
    proof (cases "q \<or> c \<noteq> CHR 0x5C")
      case True
      then show ?thesis
        using Cons c pr ih[OF c(2,4)] copy[OF c(2,4)]
        by (subst text_loop.simps; cases q) (auto simp: Let_def intro: agree_stop)
    next
      case False
      then show ?thesis
      proof (cases cs)
        case Nil
        then show ?thesis
          using False \<open>inp = c # cs\<close> c pr drop_terminated(1)[OF c(2,4)]
          by (subst text_loop.simps) (auto simp: Let_def intro: agree_stop)
      next
        fix e ds assume cs: "cs = e # ds"
        have e: "rd buf (Suc x) = e" "drop (Suc (Suc x)) buf = ds @ [NUL]" "e \<noteq> NUL" "NUL \<notin> set ds"
          using drop_terminated[OF c(2,4)] c(4) cs by auto
        have nx: "rd buf (Suc (Suc x)) \<noteq> NL \<longleftrightarrow> ds = [] \<or> hd ds \<noteq> NL"
          using drop_terminated(1)[OF e(2,4)] by (cases ds) auto
        have eb: "drop (eat_blanks buf (Suc (Suc x))) buf = dropWhile blank ds @ [NUL]"
          by (rule eat_blanks_lex[OF e(2,4)])
        have "NUL \<notin> set (dropWhile blank ds)" using e(4) by (meson set_dropWhileD)
        then have cont: "agree (next_line (lex_text False (dropWhile blank ds))) buf s line
            (text_loop False buf s (eat_blanks buf (Suc (Suc x))) (Suc line))"
          using eat_blanks_ge[of "Suc (Suc x)" buf] pr(3) cs length_dropWhile_le[of blank ds]
          by (intro agree_next_line ih[OF eb]) auto
        show ?thesis
          using False Cons c e pr ih[OF e(2,4)] copy[OF c(2,4)] copy[OF e(2,4)] cont cs nx
          by (subst text_loop.simps) (auto simp: Let_def lex_text_escape simp del: lex_text.simps)
      qed
    qed
  qed
qed

section \<open>Tokens and lines\<close>

text \<open>The list tokenizer: the input left and whether a newline token is pending.\<close>

definition lex_next :: "string \<Rightarrow> bool \<Rightarrow> token \<times> string \<times> string \<times> bool \<times> nat" where
  "lex_next inp pend =
     (if pend then (T_NEWLINE, [], inp, False, 0)
      else case lex_blank inp of
        (At_EOF, r) \<Rightarrow> (T_EOF, [], r, False, 0)
      | (At_Newline, r) \<Rightarrow> (T_NEWLINE, [], r, False, 0)
      | (At_Text, r) \<Rightarrow>
          (case lex_text False r of
             (Unterminated, out, rest, n) \<Rightarrow> (T_EOF, [], rest, False, n)
           | (Done_Newline, out, rest, n) \<Rightarrow> (T_TEXT, out, rest, True, n)
           | (Done, out, rest, n) \<Rightarrow> (T_TEXT, out, rest, False, n)))"

definition state_rep :: "parse_state \<Rightarrow> string \<Rightarrow> bool \<Rightarrow> bool" where
  "state_rep st inp pend \<longleftrightarrow> NUL \<notin> set inp \<and> drop (st_ptr st) (st_buf st) = inp @ [NUL]
     \<and> st_nexttoken st = (if pend then Some T_NEWLINE else None)"

lemma lex_blank_suffix: "lex_blank inp = (k, r) \<Longrightarrow> suffix r inp"
proof (induction inp)
  case (Cons c cs)
  have "suffix (dropWhile (\<lambda>c. c \<noteq> NL) (c # cs)) (c # cs)" by (rule suffix_dropWhile)
  then have "suffix ds (c # cs)" if "dropWhile (\<lambda>c. c \<noteq> NL) (c # cs) = d # ds" for d ds
    using that suffix_ConsD by metis
  with Cons show ?case
    by (auto simp: suffix_Cons simp del: dropWhile.simps split: if_splits list.splits)
qed simp

definition lexed_ok :: "string \<Rightarrow> lexed \<Rightarrow> bool" where
  "lexed_ok inp r = (case r of (f, out, rest, n) \<Rightarrow> suffix rest inp \<and> NUL \<notin> set out)"

lemma lexed_ok_emit: "lexed_ok ds r \<Longrightarrow> suffix ds inp \<Longrightarrow> c \<noteq> NUL \<Longrightarrow> lexed_ok inp (emit c r)"
  by (auto simp: lexed_ok_def emit_def split: prod.splits intro: suffix_order.trans)

lemma lexed_ok_line: "lexed_ok ds r \<Longrightarrow> suffix ds inp \<Longrightarrow> lexed_ok inp (next_line r)"
  by (auto simp: lexed_ok_def next_line_def split: prod.splits intro: suffix_order.trans)

lemma lexed_ok_mono: "lexed_ok ds r \<Longrightarrow> suffix ds inp \<Longrightarrow> lexed_ok inp r"
  by (auto simp: lexed_ok_def split: prod.splits intro: suffix_order.trans)

lemma lex_text_ok: "NUL \<notin> set inp \<Longrightarrow> lexed_ok (tl inp) (lex_text q inp)"
proof (induction "length inp" arbitrary: q inp rule: less_induct)
  case less
  show ?case
  proof (cases inp)
    case Nil
    then show ?thesis by (simp add: lexed_ok_def)
  next
    case (Cons c cs)
    have ih: "lexed_ok ds (lex_text q ds)" if "suffix ds cs" for q ds
    proof -
      have "NUL \<notin> set ds" "length ds < length inp"
        using that less.prems Cons set_mono_suffix[OF that] suffix_length_le[OF that] by auto
      from less.hyps[OF this(2,1)] show ?thesis
        by (rule lexed_ok_mono) (cases ds, auto simp: suffix_Cons)
    qed
    have sfx: "suffix ds cs" "suffix (dropWhile blank ds) cs" if "cs = d # ds" for d ds
      using that suffix_dropWhile[of blank ds] by (auto simp: suffix_Cons)
    have nn: "c \<noteq> NUL" "d \<noteq> NUL" if "cs = d # ds" for d ds using less.prems Cons that by auto
    have nc: "c \<noteq> NUL" using less.prems Cons by auto
    note rules = lexed_ok_emit[OF ih] lexed_ok_line[OF ih] lexed_ok_mono[OF ih]
    show ?thesis
    proof (cases "q \<or> c \<noteq> CHR 0x5C")
      case True
      then show ?thesis using Cons nc rules by (cases q) (auto simp: lexed_ok_def)
    next
      case False
      show ?thesis
      proof (cases cs)
        case Nil
        then show ?thesis using Cons False by (simp add: lexed_ok_def)
      next
        fix d ds assume cs: "cs = d # ds"
        have i: "inp = CHR 0x5C # d # ds" using Cons False cs by simp
        have q: "q = False" using False by simp
        have "lexed_ok cs (emit e (lex_text False (d # ds)))" if "e \<noteq> NUL" for e
          using lexed_ok_emit[OF ih[of cs False], of cs e] that cs by (simp del: lex_text.simps)
        moreover have "lexed_ok cs (lex_text False ds)" by (rule rules(3)[OF sfx(1)[OF cs] sfx(1)[OF cs]])
        moreover have "lexed_ok cs (next_line (lex_text False (dropWhile blank ds)))"
          by (rule rules(2)[OF sfx(2)[OF cs] sfx(2)[OF cs]])
        moreover have "lexed_ok cs (emit d (lex_text False ds))"
          by (rule rules(1)[OF sfx(1)[OF cs] sfx(1)[OF cs] nn(2)[OF cs]])
        ultimately show ?thesis using cs unfolding i q lex_text_escape by (auto simp del: lex_text.simps)
      qed
    qed
  qed
qed

lemma lex_text_rest:
  assumes "lex_text q inp = (f, out, rest, n)" "NUL \<notin> set inp"
  shows "NUL \<notin> set out" "NUL \<notin> set rest" "inp \<noteq> [] \<Longrightarrow> length rest < length inp"
proof -
  have "suffix rest (tl inp)" "NUL \<notin> set out" using lex_text_ok[OF assms(2), of q] assms(1) by (auto simp: lexed_ok_def)
  then show "NUL \<notin> set out" "NUL \<notin> set rest" "inp \<noteq> [] \<Longrightarrow> length rest < length inp"
    using assms(2) set_mono_suffix[of rest "tl inp"] suffix_length_le[of rest "tl inp"] by (cases inp; auto)+
qed

lemma state_rep_next:
  assumes st: "state_rep st inp pend" and lx: "lex_next inp pend = (t, out, inp', pend', n)"
  shows "\<exists>st'. next_token st = (t, st') \<and> state_rep st' inp' pend' \<and> st_line st' = st_line st + n
    \<and> (t = T_TEXT \<longrightarrow> token_text st' = out)"
proof (cases pend)
  case True
  then show ?thesis using st lx by (auto simp: state_rep_def lex_next_def next_token_def)
next
  case False
  have rep: "NUL \<notin> set inp" "drop (st_ptr st) (st_buf st) = inp @ [NUL]" "st_nexttoken st = None"
    using st False by (auto simp: state_rep_def)
  obtain k r where k: "lex_blank inp = (k, r)" by fastforce
  obtain x where x: "skip_blank (st_buf st) (st_ptr st) = (k, x)" "drop x (st_buf st) = r @ [NUL]"
    using skip_blank_lex[OF rep(2,1) k] by blast
  have nr: "NUL \<notin> set r" using rep(1) set_mono_suffix[OF lex_blank_suffix[OF k]] by auto
  show ?thesis
  proof (cases "k = At_Text")
    case False
    then show ?thesis using rep k x lx nr \<open>\<not> pend\<close>
      by (cases k) (auto simp: lex_next_def next_token_def state_rep_def)
  next
    case True
    obtain f o1 rest m where lt: "lex_text False r = (f, o1, rest, m)" by (cases "lex_text False r")
    obtain f' buf' s' y line' where tl: "text_loop False (st_buf st) x x (st_line st) = (f', buf', s', y, line')"
      by (cases "text_loop False (st_buf st) x x (st_line st)")
    have ag: "f' = f" "line' = st_line st + m" "length buf' = length (st_buf st)" "s' = x + length o1"
      "take s' buf' = take x (st_buf st) @ o1" "drop y buf' = rest @ [NUL]" "s' \<le> y"
      "f \<noteq> Unterminated \<Longrightarrow> s' < y \<or> rest = []"
      using text_loop_lex[OF x(2) nr, of x False "st_line st"] lt tl by (auto simp: agree_def)
    note rest = lex_text_rest[OF lt nr]
    have xl: "x < length (st_buf st)" by (rule drop_terminated(2)[OF x(2) nr])
    have yl: "y < length buf'" by (rule drop_terminated(2)[OF ag(6) rest(2)])
    have dy: "drop y (buf'[s' := NUL]) = rest @ [NUL]" if "f \<noteq> Unterminated"
    proof (cases "s' < y")
      case False
      then have "s' = y" "rest = []" using ag(7) ag(8)[OF that] by auto
      then show ?thesis using ag(6) yl by (simp add: drop_update_swap)
    qed (use ag(6) in simp)
    have "buf'[s' := NUL] = take s' buf' @ NUL # drop (Suc s') buf'"
      using ag(7) yl by (simp add: upd_conv_take_nth_drop)
    then have "drop x (buf'[s' := NUL]) = o1 @ NUL # drop (Suc s') buf'"
      using ag(5) xl by simp
    then have tt: "c_str (drop x (buf'[s' := NUL])) = o1"
      using rest(1) by (simp add: c_str_append_NUL)
    show ?thesis
      using rep k x lx True \<open>\<not> pend\<close> lt tl ag(1,2,6) rest(2) dy tt
      by (cases f) (auto simp: lex_next_def next_token_def state_rep_def token_text_def)
  qed
qed

text \<open>
  The loop of \<open>ParseData\<close> over the tokens: it gathers the texts of a line and hands a
  non-empty line over with its number. What the section parsers do with it does not touch the
  tokenizer, so the lines are collected here; \<open>None\<close> would mean that the loop does not end.
  A last line without a newline is dropped.
\<close>

partial_function (option) token_lines ::
  "parse_state \<Rightarrow> string list \<Rightarrow> (string list \<times> nat) list option" where
  "token_lines state args =
     (case next_token state of
        (T_EOF, st) \<Rightarrow> Some []
      | (T_NEWLINE, st) \<Rightarrow>
          (let st1 = st\<lparr>st_line := Suc (st_line st)\<rparr> in
           if args = [] then token_lines st1 []
           else Option.bind (token_lines st1 []) (\<lambda>ls. Some ((args, st_line st1) # ls)))
      | (T_TEXT, st) \<Rightarrow> token_lines st (args @ [token_text st]))"

lemma lex_blank_newline: "lex_blank inp = (At_Newline, r) \<Longrightarrow> length r < length inp"
proof (induction inp)
  case (Cons c cs)
  have "length (dropWhile (\<lambda>c. c \<noteq> NL) (c # cs)) \<le> length (c # cs)" by (rule length_dropWhile_le)
  then have "length ds < length (c # cs)" if "dropWhile (\<lambda>c. c \<noteq> NL) (c # cs) = d # ds" for d ds
    using that by (metis Suc_le_lessD length_Cons)
  with Cons show ?case by (auto simp del: dropWhile.simps split: if_splits list.splits)
qed simp

lemma lex_blank_text: "lex_blank inp = (At_Text, r) \<Longrightarrow> r \<noteq> []"
  by (induction inp) (auto simp del: dropWhile.simps split: if_splits list.splits)

lemma lex_next_progress:
  assumes lx: "lex_next inp pend = (t, out, r, p, n)" and "t \<noteq> T_EOF" "NUL \<notin> set inp"
  shows "2 * length r + (if p then 1 else 0) < 2 * length inp + (if pend then 1 else 0)" "NUL \<notin> set r"
proof -
  have "2 * length r + (if p then 1 else 0) < 2 * length inp + (if pend then 1 else 0) \<and> NUL \<notin> set r"
  proof (cases pend)
    case True
    then show ?thesis using assms by (auto simp: lex_next_def)
  next
    case False
    obtain k q where k: "lex_blank inp = (k, q)" by fastforce
    note sfx = lex_blank_suffix[OF k]
    have nq: "NUL \<notin> set q" "length q \<le> length inp"
      using set_mono_suffix[OF sfx] suffix_length_le[OF sfx] assms(3) by auto
    show ?thesis
    proof (cases k)
      case At_EOF
      then show ?thesis using lx False k assms(2) by (simp add: lex_next_def)
    next
      case At_Newline
      then show ?thesis using lx False k lex_blank_newline[of inp q] nq by (auto simp: lex_next_def)
    next
      case At_Text
      obtain f o1 rest m where lt: "lex_text False q = (f, o1, rest, m)" by (cases "lex_text False q")
      have "length rest < length q" "NUL \<notin> set rest"
        using lex_text_rest[OF lt nq(1)] lex_blank_text k At_Text by auto
      then show ?thesis using lx False k lt At_Text assms(2) nq(2)
        by (cases f) (auto simp: lex_next_def)
    qed
  qed
  then show "2 * length r + (if p then 1 else 0) < 2 * length inp + (if pend then 1 else 0)" "NUL \<notin> set r"
    by auto
qed

lemma lex_next_less:
  assumes "lex_next (c_str inp) pend = (t, out, r, p, n)" "t \<noteq> T_EOF"
  shows "2 * length r + (if p then 1 else 0) < 2 * length inp + (if pend then 1 else (0 :: nat))"
proof -
  have "length (c_str inp) \<le> length inp" by (simp add: c_str_def length_takeWhile_le)
  then show ?thesis using lex_next_progress(1)[OF assms] by simp
qed

function lex_lines :: "string \<Rightarrow> bool \<Rightarrow> nat \<Rightarrow> string list \<Rightarrow> (string list \<times> nat) list" where
  "lex_lines inp pend line args =
     (case lex_next (c_str inp) pend of
        (T_EOF, _, _, _, _) \<Rightarrow> []
      | (T_NEWLINE, _, r, p, n) \<Rightarrow>
          (if args = [] then lex_lines r p (Suc (line + n)) []
           else (args, Suc (line + n)) # lex_lines r p (Suc (line + n)) [])
      | (T_TEXT, out, r, p, n) \<Rightarrow> lex_lines r p (line + n) (args @ [out]))"
  by pat_completeness auto
termination
  by (relation "measure (\<lambda>(inp, pend, _, _). 2 * length inp + (if pend then 1 else 0))")
    (auto dest!: lex_next_less[OF sym] split: if_splits)

declare lex_lines.simps [simp del]

lemma token_lines_lex:
  "state_rep st inp pend \<Longrightarrow> token_lines st args = Some (lex_lines inp pend (st_line st) args)"
proof (induction inp pend "st_line st" args arbitrary: st rule: lex_lines.induct)
  case (1 inp pend args)
  have id: "c_str inp = inp" using 1(4) by (simp add: state_rep_def c_str_id)
  obtain t out r p n where lx: "lex_next inp pend = (t, out, r, p, n)" by (cases "lex_next inp pend")
  obtain st' where st': "next_token st = (t, st')" "state_rep st' r p" "st_line st' = st_line st + n"
    "t = T_TEXT \<longrightarrow> token_text st' = out" using state_rep_next[OF 1(4) lx] by blast
  have rep1: "state_rep (st'\<lparr>st_line := x\<rparr>) r p" for x using st'(2) by (simp add: state_rep_def)
  show ?case
  proof (cases t)
    case T_EOF
    then show ?thesis using st'(1) lx id by (subst token_lines.simps, subst lex_lines.simps) simp
  next
    case T_NEWLINE
    have "token_lines (st'\<lparr>st_line := Suc (st_line st')\<rparr>) [] = Some (lex_lines r p (Suc (st_line st + n)) [])"
      using 1(1,2)[of t "(out, r, p, n)" out "(r, p, n)" r "(p, n)" p n "st'\<lparr>st_line := Suc (st_line st')\<rparr>"]
        lx id T_NEWLINE rep1 st'(3) by (cases "args = []") simp_all
    then show ?thesis
      using st'(1,3) lx id T_NEWLINE by (subst token_lines.simps, subst lex_lines.simps) (simp add: Let_def)
  next
    case T_TEXT
    have "token_lines st' (args @ [out]) = Some (lex_lines r p (st_line st + n) (args @ [out]))"
      using 1(3)[of t "(out, r, p, n)" out "(r, p, n)" r "(p, n)" p n st'] lx id T_TEXT st'(2,3) by simp
    then show ?thesis
      using st'(1,4) lx id T_TEXT by (subst token_lines.simps, subst lex_lines.simps) simp
  qed
qed

section \<open>Reading back what was written\<close>

text \<open>The state in which \<open>ParseData\<close> starts.\<close>

definition start_state :: "string \<Rightarrow> parse_state" where
  "start_state data =
     \<lparr>st_buf = data @ [NUL], st_ptr = 0, st_text = 0, st_line = 0, st_nexttoken = None\<rparr>"

lemma start_state_lines:
  "NUL \<notin> set data \<Longrightarrow> token_lines (start_state data) [] = Some (lex_lines data False 0 [])"
  using token_lines_lex[of "start_state data" data False "[]"] by (simp add: start_state_def state_rep_def)

text \<open>Words in quotation marks, separated by blanks, a newline after each line.\<close>

definition quote_word :: "string \<Rightarrow> string" where
  "quote_word w = CHR 0x22 # w @ [CHR 0x22, CHR '' '']"

definition print_line :: "string list \<Rightarrow> string" where
  "print_line ws = concat (map quote_word ws) @ [NL]"

definition word_ok :: "string \<Rightarrow> bool" where
  "word_ok w \<longleftrightarrow> CHR 0x22 \<notin> set w \<and> NUL \<notin> set w"

lemma lex_text_quoted:
  "CHR 0x22 \<notin> set w \<Longrightarrow> lex_text True (w @ CHR 0x22 # CHR '' '' # rest) = (Done, w, rest, 0)"
  by (induction w) (auto simp: emit_def)

lemma lex_next_word:
  "word_ok w \<Longrightarrow> lex_next (quote_word w @ rest) False = (T_TEXT, w, rest, False, 0)"
  by (simp add: lex_next_def quote_word_def word_ok_def lex_text_quoted)

lemma lex_lines_word:
  assumes "word_ok w" "NUL \<notin> set rest"
  shows "lex_lines (quote_word w @ rest) False line args = lex_lines rest False line (args @ [w])"
proof -
  have "c_str (quote_word w @ rest) = quote_word w @ rest"
    using assms by (intro c_str_id) (auto simp: quote_word_def word_ok_def)
  then show ?thesis using lex_next_word[OF assms(1)] by (subst lex_lines.simps) simp
qed

lemma lex_lines_newline:
  assumes "NUL \<notin> set rest"
  shows "lex_lines (NL # rest) False line args =
    (if args = [] then [] else [(args, Suc line)]) @ lex_lines rest False (Suc line) []"
proof -
  have "c_str (NL # rest) = NL # rest" using assms by (intro c_str_id) auto
  then show ?thesis by (subst lex_lines.simps) (simp add: lex_next_def)
qed

lemma lex_lines_words:
  "\<forall>w \<in> set ws. word_ok w \<Longrightarrow> NUL \<notin> set rest \<Longrightarrow>
     lex_lines (concat (map quote_word ws) @ NL # rest) False line args =
       (if args @ ws = [] then [] else [(args @ ws, Suc line)]) @ lex_lines rest False (Suc line) []"
proof (induction ws arbitrary: args)
  case Nil
  then show ?case by (simp add: lex_lines_newline)
next
  case (Cons w ws)
  have "NUL \<notin> set (concat (map quote_word ws) @ NL # rest)"
    using Cons.prems by (auto simp: quote_word_def word_ok_def)
  then show ?case
    using Cons lex_lines_word[of w "concat (map quote_word ws) @ NL # rest" line args] by simp
qed

lemma print_line_no_NUL: "\<forall>w \<in> set ws. word_ok w \<Longrightarrow> NUL \<notin> set (print_line ws)"
  by (auto simp: print_line_def quote_word_def word_ok_def)

lemma lex_lines_print:
  "\<forall>ws \<in> set lss. \<forall>w \<in> set ws. word_ok w \<Longrightarrow>
     lex_lines (concat (map print_line lss)) False line [] =
       filter (\<lambda>(ws, i). ws \<noteq> []) (zip lss [Suc line..<Suc line + length lss])"
proof (induction lss arbitrary: line)
  case Nil
  then show ?case by (subst lex_lines.simps) (simp add: lex_next_def c_str_def)
next
  case (Cons ws lss)
  let ?rest = "concat (map print_line lss)"
  have "NUL \<notin> set ?rest" using Cons.prems print_line_no_NUL by auto
  then have "lex_lines (print_line ws @ ?rest) False line [] =
      (if ws = [] then [] else [(ws, Suc line)]) @ lex_lines ?rest False (Suc line) []"
    using lex_lines_words[of ws ?rest line "[]"] Cons.prems by (simp add: print_line_def)
  moreover have "[Suc line..<Suc line + length (ws # lss)] = Suc line # [Suc (Suc line)..<Suc (Suc line) + length lss]"
    using upt_conv_Cons[of "Suc line" "Suc line + length (ws # lss)"] by simp
  ultimately show ?case using Cons by (simp del: upt_Suc)
qed

section \<open>Properties\<close>

text \<open>
  C23. The tokenizer that works in its own buffer yields the same lines, with the same line
  numbers, as the tokenizer on lists that never writes. In particular reading a file always
  ends, and the NUL and the characters written into the buffer never destroy input that is
  still to be read.
\<close>

theorem tokenizer_in_place_equiv:
  assumes "NUL \<notin> set data"
  shows "token_lines (start_state data) [] = Some (lex_lines data False 0 [])"
  by (rule start_state_lines[OF assms])

theorem tokenizer_in_place_equiv_witness:
  "token_lines (start_state ''on boot'') [] = Some (lex_lines ''on boot'' False 0 [])"
  by (rule tokenizer_in_place_equiv) simp

text \<open>
  C24. Lines of words, each in quotation marks, are read back as they were written, with the
  number of each line; empty lines are counted and dropped. The words may contain blanks,
  newlines, backslashes and number signs, everything but the quotation mark and NUL.
\<close>

theorem tokenizer_reads_back:
  assumes "\<forall>ws \<in> set lss. \<forall>w \<in> set ws. word_ok w"
  shows "token_lines (start_state (concat (map print_line lss))) [] =
    Some (filter (\<lambda>(ws, i). ws \<noteq> []) (zip lss [1..<1 + length lss]))"
proof -
  have "NUL \<notin> set (concat (map print_line lss))" using assms print_line_no_NUL by auto
  then show ?thesis using lex_lines_print[OF assms, of 0] by (simp add: start_state_lines)
qed

theorem tokenizer_reads_back_witness:
  "token_lines (start_state (concat (map print_line [[''on'', ''a b''], [], [''#'']]))) [] =
    Some (filter (\<lambda>(ws, i). ws \<noteq> []) (zip [[''on'', ''a b''], [], [''#'']] [1..<1 + length [[''on'', ''a b''], [], [''#'']]]))"
  by (rule tokenizer_reads_back) (auto simp: word_ok_def)

text \<open>
  C28. An escape leaves its letter in the token: the text \<^verbatim>\<open>a\nb\<close> (with a backslash) is read as
  the four characters a, newline, n, b and not as a, newline, b, as the documentation of the
  language says; and a backslash before a carriage return and a newline does not continue the
  line.
\<close>

theorem escape_keeps_its_letter:
  "lex_text False (''a'' @ [CHR 0x5C] @ ''nb'') = (Done, [CHR ''a'', NL, CHR ''n'', CHR ''b''], [], 0)
   \<and> lex_text False (''a'' @ [CHR 0x5C, CR, NL] @ ''b'') = (Done_Newline, ''a'', ''b'', 1)"
  by (simp add: emit_def next_line_def blank_def)

end
