(* ===== verification/Util.thy ===== *)
theory Util
  imports Prelude
begin

text \<open>
  The helpers of \<^verbatim>\<open>init/util.cpp\<close>: property expansion in strings, decoding of user ids,
  reading and writing of files, creation of directory chains, \<^verbatim>\<open>sanitize\<close>,
  \<^verbatim>\<open>bytes_to_hex\<close> and the walk over the kernel command line.

  What the functions ask of the outside is an argument: \<open>gp\<close> is
  \<^verbatim>\<open>android::base::GetProperty(name, "")\<close>, \<open>getpwnam\<close> the user database, and the file
  operations are functions on a file system of any type.
\<close>

section \<open>Property expansion\<close>

text \<open>\<^verbatim>\<open>prop_name.find(":-")\<close>: the text before and after the first occurrence.\<close>

fun find_default :: "string \<Rightarrow> (string \<times> string) option" where
  "find_default (a # b # s) =
     (if a = CHR '':'' \<and> b = CHR ''-'' then Some ([], s)
      else (case find_default (b # s) of
              None \<Rightarrow> None
            | Some (n, d) \<Rightarrow> Some (a # n, d)))"
| "find_default _ = None"

text \<open>The lookup after the name and the default have been read.\<close>

definition prop_or_default :: "(string \<Rightarrow> string) \<Rightarrow> string \<Rightarrow> string \<Rightarrow> string option" where
  "prop_or_default gp prop_name def_val =
     (if prop_name = [] then None
      else if gp prop_name \<noteq> [] then Some (gp prop_name)
      else if def_val = [] then None
      else Some def_val)"

function expand_loop :: "(string \<Rightarrow> string) \<Rightarrow> string \<Rightarrow> string \<Rightarrow> string option" where
  "expand_loop gp src dst =
     (if src = [] then Some dst
      else case strchr_split (CHR ''$'') src of
        None \<Rightarrow> Some (dst @ src)
      | Some (lit, c) \<Rightarrow>
         (case c of
            [] \<Rightarrow> Some (dst @ lit)
          | x # c' \<Rightarrow>
             (if x = CHR ''$'' then expand_loop gp c' (dst @ lit @ ''$'')
              else if x = CHR ''{'' then
                (case strchr_split (CHR ''}'') c' of
                   None \<Rightarrow> None
                 | Some (inside, rest) \<Rightarrow>
                    (case prop_or_default gp
                            (case find_default inside of None \<Rightarrow> inside | Some (n, d) \<Rightarrow> n)
                            (case find_default inside of None \<Rightarrow> [] | Some (n, d) \<Rightarrow> d) of
                       None \<Rightarrow> None
                     | Some v \<Rightarrow> expand_loop gp rest (dst @ lit @ v)))
              else
                (case prop_or_default gp c [] of
                   None \<Rightarrow> None
                 | Some v \<Rightarrow> Some (dst @ lit @ v)))))"
  by pat_completeness auto
termination
  by (relation "measure (\<lambda>(_, src, _). length src)")
    (auto dest!: strchr_split_SomeD[OF sym] strchr_split_SomeD)

declare expand_loop.simps [simp del]

definition expand_props :: "(string \<Rightarrow> string) \<Rightarrow> string \<Rightarrow> string option" where
  "expand_props gp src = expand_loop gp (c_str src) []"

section \<open>User ids\<close>

definition UINT_MAX :: u32 where
  "UINT_MAX = 0xFFFFFFFF"

definition ULONG_MAX :: int where
  "ULONG_MAX = 2 ^ 64 - 1"

definition in_range :: "char \<Rightarrow> char \<Rightarrow> char \<Rightarrow> bool" where
  "in_range lo hi c = ((of_char lo :: nat) \<le> of_char c \<and> (of_char c :: nat) \<le> of_char hi)"

definition isalpha :: "char \<Rightarrow> bool" where
  "isalpha c = (in_range (CHR ''a'') (CHR ''z'') c \<or> in_range (CHR ''A'') (CHR ''Z'') c)"

text \<open>
  \<^verbatim>\<open>strtoul(s, 0, 0)\<close> where \<^verbatim>\<open>unsigned long\<close> has 64 bits: leading white space, a sign, a
  base given by the prefix, and as many digits as there are. The result is \<open>None\<close> when the
  call sets \<^verbatim>\<open>errno\<close> (the value does not fit).
\<close>

definition digit_val :: "char \<Rightarrow> int" where
  "digit_val c =
     (if in_range (CHR ''0'') (CHR ''9'') c then of_char c - 48
      else if in_range (CHR ''a'') (CHR ''z'') c then of_char c - 87
      else if in_range (CHR ''A'') (CHR ''Z'') c then of_char c - 55
      else 36)"

fun read_digits :: "int \<Rightarrow> int \<Rightarrow> string \<Rightarrow> int" where
  "read_digits base acc [] = acc"
| "read_digits base acc (c # s) =
     (if digit_val c < base then read_digits base (acc * base + digit_val c) s else acc)"

definition strtoul_abs :: "string \<Rightarrow> int" where
  "strtoul_abs s =
     (if take 2 s = ''0x'' \<or> take 2 s = ''0X'' then read_digits 16 0 (drop 2 s)
      else if take 1 s = ''0'' then read_digits 8 0 (drop 1 s)
      else read_digits 10 0 s)"

definition strtoul :: "string \<Rightarrow> int option" where
  "strtoul s0 =
     (let s = dropWhile isspace s0;
          neg = (s \<noteq> [] \<and> hd s = CHR ''-'');
          u = (if s \<noteq> [] \<and> (hd s = CHR ''-'' \<or> hd s = CHR ''+'') then tl s else s);
          v = strtoul_abs u
      in if v > ULONG_MAX then None
         else if neg then Some ((- v) mod (ULONG_MAX + 1))
         else Some v)"

definition decode_uid :: "(string \<Rightarrow> u32 option) \<Rightarrow> string \<Rightarrow> u32" where
  "decode_uid getpwnam s0 =
     (let s = c_str s0 in
      if s = [] then UINT_MAX
      else if isalpha (hd s) then
        (case getpwnam s of None \<Rightarrow> UINT_MAX | Some uid \<Rightarrow> uid)
      else
        (case strtoul s of None \<Rightarrow> UINT_MAX | Some v \<Rightarrow> word_of_int v))"

section \<open>Files and directories\<close>

text \<open>
  What a path opens to with \<^verbatim>\<open>O_NOFOLLOW\<close>: nothing, or a file whose status may be
  unavailable (\<open>st_mode\<close> is \<open>None\<close>) and whose content may be unreadable.
\<close>

record opened_file =
  st_mode :: "u32 option"
  content :: "string option"

definition S_IWGRP :: u32 where "S_IWGRP = 0x10"
definition S_IWOTH :: u32 where "S_IWOTH = 0x2"

definition read_file :: "(string \<Rightarrow> opened_file option) \<Rightarrow> string \<Rightarrow> string option" where
  "read_file open_ro path =
     (case open_ro path of
        None \<Rightarrow> None
      | Some fd \<Rightarrow>
         (case st_mode fd of
            None \<Rightarrow> None
          | Some mode \<Rightarrow>
             if mode AND (S_IWGRP OR S_IWOTH) \<noteq> 0 then None else content fd))"

text \<open>
  \<^verbatim>\<open>make_dir\<close> is an argument: it returns its result, \<^verbatim>\<open>errno\<close> and the new file system.
  \<open>done\<close> is the text before \<^verbatim>\<open>p\<close> and \<open>p\<close> the text from it.
\<close>

definition EEXIST :: int where "EEXIST = 17"

function mkdir_loop ::
  "('fs \<Rightarrow> string \<Rightarrow> bool) \<Rightarrow> (string \<Rightarrow> 'fs \<Rightarrow> (int \<times> int) \<times> 'fs) \<Rightarrow> string \<Rightarrow> string \<Rightarrow> 'fs
   \<Rightarrow> int option \<times> 'fs" where
  "mkdir_loop stat make_dir before p fs =
     (case strchr_split (CHR ''/'') p of
        None \<Rightarrow> (None, fs)
      | Some (a, rest) \<Rightarrow>
         (let buf = before @ a; next = before @ a @ ''/'' in
          if length buf = 0 then mkdir_loop stat make_dir next rest fs
          else if length buf > 127 then (Some (- 1), fs)
          else if stat fs buf then mkdir_loop stat make_dir next rest fs
          else
            (case make_dir buf fs of
               ((ret, errno), fs') \<Rightarrow>
                 if ret \<noteq> 0 \<and> errno \<noteq> EEXIST then (Some ret, fs')
                 else mkdir_loop stat make_dir next rest fs')))"
  by pat_completeness auto
termination
  by (relation "measure (\<lambda>(_, _, _, p, _). length p)")
    (auto dest!: strchr_split_SomeD[OF sym] strchr_split_SomeD)

declare mkdir_loop.simps [simp del]

definition mkdir_recursive ::
  "('fs \<Rightarrow> string \<Rightarrow> bool) \<Rightarrow> (string \<Rightarrow> 'fs \<Rightarrow> (int \<times> int) \<times> 'fs) \<Rightarrow> string \<Rightarrow> 'fs \<Rightarrow> int \<times> 'fs" where
  "mkdir_recursive stat make_dir pathname fs =
     (case mkdir_loop stat make_dir [] pathname fs of
        (Some ret, fs1) \<Rightarrow> (ret, fs1)
      | (None, fs1) \<Rightarrow>
         (case make_dir pathname fs1 of
            ((ret, errno), fs2) \<Rightarrow>
              if ret \<noteq> 0 \<and> errno \<noteq> EEXIST then (ret, fs2) else (0, fs2)))"

section \<open>Text\<close>

definition accept_char :: "char \<Rightarrow> bool" where
  "accept_char c =
     (in_range (CHR ''a'') (CHR ''z'') c \<or> in_range (CHR ''A'') (CHR ''Z'') c
      \<or> in_range (CHR ''0'') (CHR ''9'') c
      \<or> c = CHR ''_'' \<or> c = CHR ''-'' \<or> c = CHR ''.'')"

lemma dropWhile_ConsD_length: "dropWhile P s = c # rest \<Longrightarrow> length rest < length s"
  by (metis length_dropWhile_le length_Cons less_eq_Suc_le)

function sanitize :: "string \<Rightarrow> string" where
  "sanitize s =
     (if s = [] then []
      else takeWhile accept_char s @
        (case dropWhile accept_char s of [] \<Rightarrow> [] | c # rest \<Rightarrow> CHR ''_'' # sanitize rest))"
  by pat_completeness auto
termination
  by (relation "measure length")
    (auto dest: dropWhile_ConsD_length)

declare sanitize.simps [simp del]

definition hex_digit :: "nat \<Rightarrow> char" where
  "hex_digit n = ''0123456789abcdef'' ! n"

fun bytes_hex :: "8 word list \<Rightarrow> string" where
  "bytes_hex [] = []"
| "bytes_hex (b # bs) = hex_digit (unat b div 16) # hex_digit (unat b mod 16) # bytes_hex bs"

definition bytes_to_hex :: "8 word list \<Rightarrow> string" where
  "bytes_to_hex bytes = ''0x'' @ bytes_hex bytes"

text \<open>
  \<^verbatim>\<open>Split\<close> and \<^verbatim>\<open>Trim\<close> of \<^verbatim>\<open>android-base\<close> are arguments, as is the callback, which works on a
  state of any type.
\<close>

definition import_kernel_cmdline ::
  "(string \<Rightarrow> string \<Rightarrow> string list) \<Rightarrow> (string \<Rightarrow> string) \<Rightarrow> string \<Rightarrow> bool
   \<Rightarrow> (string \<Rightarrow> string \<Rightarrow> bool \<Rightarrow> 's \<Rightarrow> 's) \<Rightarrow> 's \<Rightarrow> 's" where
  "import_kernel_cmdline Split Trim cmdline in_qemu fn s =
     fold (\<lambda>entry s.
       (case Split entry ''='' of [k, v] \<Rightarrow> fn k v in_qemu s | _ \<Rightarrow> s))
       (Split (Trim cmdline) '' '') s"

section \<open>Lemmas\<close>

text \<open>Templates: what the source's comment on the syntax of variables describes.\<close>

datatype piece = Lit string | Dollar | Var string "string option"

fun render :: "piece \<Rightarrow> string" where
  "render (Lit s) = s"
| "render Dollar = ''$$''"
| "render (Var n None) = ''${'' @ n @ ''}''"
| "render (Var n (Some d)) = ''${'' @ n @ '':-'' @ d @ ''}''"

fun piece_ok :: "piece \<Rightarrow> bool" where
  "piece_ok (Lit s) = (CHR ''$'' \<notin> set s \<and> NUL \<notin> set s)"
| "piece_ok Dollar = True"
| "piece_ok (Var n d) =
     (CHR ''}'' \<notin> set n \<and> CHR '':'' \<notin> set n \<and> NUL \<notin> set n
      \<and> (case d of None \<Rightarrow> True | Some d \<Rightarrow> CHR ''}'' \<notin> set d \<and> NUL \<notin> set d))"

fun piece_val :: "(string \<Rightarrow> string) \<Rightarrow> piece \<Rightarrow> string option" where
  "piece_val gp (Lit s) = Some s"
| "piece_val gp Dollar = Some ''$''"
| "piece_val gp (Var n d) = prop_or_default gp n (case d of None \<Rightarrow> [] | Some d \<Rightarrow> d)"

fun pieces_val :: "(string \<Rightarrow> string) \<Rightarrow> piece list \<Rightarrow> string option" where
  "pieces_val gp [] = Some []"
| "pieces_val gp (p # ps) =
     (case piece_val gp p of
        None \<Rightarrow> None
      | Some v \<Rightarrow> (case pieces_val gp ps of None \<Rightarrow> None | Some w \<Rightarrow> Some (v @ w)))"

lemma find_default_absent: "CHR '':'' \<notin> set n \<Longrightarrow> find_default n = None"
  by (induction n rule: find_default.induct) auto

lemma find_default_found:
  "CHR '':'' \<notin> set n \<Longrightarrow> find_default (n @ CHR '':'' # CHR ''-'' # d) = Some (n, d)"
proof (induction n)
  case (Cons a n)
  then show ?case by (cases n) auto
qed simp

lemma expand_loop_plain: "CHR ''$'' \<notin> set s \<Longrightarrow> expand_loop gp s dst = Some (dst @ s)"
  by (subst expand_loop.simps) (auto split: option.splits)

lemma expand_loop_lit:
  assumes "CHR ''$'' \<notin> set s"
  shows "expand_loop gp (s @ t) dst = expand_loop gp t (dst @ s)"
proof (cases "strchr_split (CHR ''$'') t")
  case None
  then show ?thesis using assms by (simp add: expand_loop_plain)
next
  case (Some ab)
  obtain a b where ab: "ab = (a, b)" by (cases ab)
  with Some have t: "t = a @ CHR ''$'' # b" "CHR ''$'' \<notin> set a"
    by (auto dest: strchr_split_SomeD)
  have split: "strchr_split (CHR ''$'') (s @ t) = Some (s @ a, b)"
    using strchr_split_append[of "CHR ''$''" "s @ a" b] t assms by simp
  have "t \<noteq> []" using t by simp
  then show ?thesis
    using Some ab split
    by (subst (1 2) expand_loop.simps) (simp split: list.split option.split)
qed

lemma expand_loop_dollar:
  "expand_loop gp (CHR ''$'' # CHR ''$'' # t) dst = expand_loop gp t (dst @ ''$'')"
  by (subst expand_loop.simps) simp

lemma expand_loop_var:
  assumes "CHR ''}'' \<notin> set inside"
  shows "expand_loop gp (CHR ''$'' # CHR ''{'' # inside @ CHR ''}'' # t) dst =
    (case prop_or_default gp
            (case find_default inside of None \<Rightarrow> inside | Some (n, d) \<Rightarrow> n)
            (case find_default inside of None \<Rightarrow> [] | Some (n, d) \<Rightarrow> d) of
       None \<Rightarrow> None | Some v \<Rightarrow> expand_loop gp t (dst @ v))"
  using assms by (subst expand_loop.simps) (simp split: option.split)

lemma expand_loop_piece:
  assumes "piece_ok p"
  shows "expand_loop gp (render p @ t) dst =
    (case piece_val gp p of None \<Rightarrow> None | Some v \<Rightarrow> expand_loop gp t (dst @ v))"
proof (cases p)
  case (Lit s)
  then show ?thesis using assms by (simp add: expand_loop_lit)
next
  case Dollar
  then show ?thesis by (simp add: expand_loop_dollar)
next
  case (Var n d)
  show ?thesis
  proof (cases d)
    case None
    then show ?thesis using Var assms expand_loop_var[of n gp t dst]
      by (simp add: find_default_absent)
  next
    case (Some e)
    then show ?thesis
      using Var assms expand_loop_var[of "n @ '':-'' @ e" gp t dst]
      by (simp add: find_default_found)
  qed
qed

lemma expand_loop_pieces:
  "\<forall>p \<in> set ps. piece_ok p \<Longrightarrow>
   expand_loop gp (concat (map render ps)) dst = map_option ((@) dst) (pieces_val gp ps)"
proof (induction ps arbitrary: dst)
  case Nil
  then show ?case by (simp add: expand_loop_plain)
next
  case (Cons p ps)
  then show ?case
    by (simp add: expand_loop_piece split: option.split)
qed

lemma render_no_NUL: "piece_ok p \<Longrightarrow> NUL \<notin> set (render p)"
  by (cases p rule: render.cases) auto

lemma sanitize_eq_map: "sanitize s = map (\<lambda>c. if accept_char c then c else CHR ''_'') s"
proof (induction s rule: sanitize.induct)
  case (1 s)
  let ?f = "\<lambda>c. if accept_char c then c else CHR ''_''"
  have t: "map ?f (takeWhile accept_char s) = takeWhile accept_char s"
    by (rule map_idI) (auto dest: set_takeWhileD)
  have d: "map ?f (dropWhile accept_char s) =
      (case dropWhile accept_char s of [] \<Rightarrow> [] | c # rest \<Rightarrow> CHR ''_'' # map ?f rest)"
  proof (cases "dropWhile accept_char s")
    case (Cons a r)
    then have "\<not> accept_char a" using hd_dropWhile[of accept_char s] by (metis list.sel(1) list.distinct(1))
    with Cons show ?thesis by simp
  qed (simp del: dropWhile_eq_Nil_conv)
  have "sanitize s = map ?f (takeWhile accept_char s) @ map ?f (dropWhile accept_char s)"
  proof (cases "s = []")
    case True
    then show ?thesis by (simp add: sanitize.simps)
  next
    case False
    show ?thesis
      unfolding d t using 1[OF False]
      by (subst sanitize.simps) (simp add: False del: dropWhile_eq_Nil_conv split: list.split)
  qed
  also have "\<dots> = map ?f s" by (simp flip: map_append)
  finally show ?case .
qed

lemma hex_digit_inj: "m < 16 \<Longrightarrow> n < 16 \<Longrightarrow> hex_digit m = hex_digit n \<Longrightarrow> m = n"
  unfolding hex_digit_def by (subst (asm) nth_eq_iff_index_eq) auto

lemma bytes_hex_inj: "bytes_hex xs = bytes_hex ys \<Longrightarrow> xs = ys"
proof (induction xs arbitrary: ys)
  case Nil
  then show ?case by (cases ys) auto
next
  case (Cons x xs)
  then obtain y ys' where ys: "ys = y # ys'" by (cases ys) auto
  have b: "unat (z :: 8 word) < 256" for z
    using unsigned_less[of z, where ?'a = nat] by simp
  have "unat x div 16 = unat y div 16" "unat x mod 16 = unat y mod 16"
    using Cons.prems ys b[of x] b[of y] by (auto intro!: hex_digit_inj)
  then have "unat x = unat y" by (metis div_mult_mod_eq)
  then have "x = y" by (simp add: word_unat_eq_iff)
  then show ?case using Cons ys by auto
qed

text \<open>The directories on the way to a path: its proper prefixes that end before a slash.\<close>

fun parents_from :: "string \<Rightarrow> string \<Rightarrow> string list" where
  "parents_from before [] = []"
| "parents_from before (c # p) =
     (if c = CHR ''/'' \<and> before \<noteq> [] then [before] else []) @ parents_from (before @ [c]) p"

lemma parents_from_absent: "CHR ''/'' \<notin> set p \<Longrightarrow> parents_from before p = []"
  by (induction p arbitrary: before) auto

lemma parents_from_split:
  "CHR ''/'' \<notin> set a \<Longrightarrow>
   parents_from before (a @ CHR ''/'' # rest) =
     (if before @ a \<noteq> [] then [before @ a] else []) @ parents_from (before @ a @ ''/'') rest"
  by (induction a arbitrary: before) auto

lemma mkdir_loop_not_zero: "fst (mkdir_loop stat make_dir before p fs) \<noteq> Some 0"
proof (induction stat make_dir before p fs rule: mkdir_loop.induct)
  case (1 stat make_dir before p fs)
  show ?case
  proof (cases "strchr_split (CHR ''/'') p")
    case None
    then show ?thesis by (simp add: mkdir_loop.simps)
  next
    case (Some ab)
    with 1 show ?thesis
      by (cases ab) (subst mkdir_loop.simps, auto simp: Let_def split: prod.split)
  qed
qed

lemma mkdir_loop_creates:
  assumes made: "\<And>p fs r e fs'. make_dir p fs = ((r, e), fs') \<Longrightarrow> r = 0 \<or> e = EEXIST \<Longrightarrow> stat fs' p"
    and keeps: "\<And>p fs re fs' q. make_dir p fs = (re, fs') \<Longrightarrow> stat fs q \<Longrightarrow> stat fs' q"
  shows "mkdir_loop stat make_dir before p fs = (None, fs') \<Longrightarrow>
    (\<forall>q \<in> set (parents_from before p). stat fs' q) \<and> (\<forall>q. stat fs q \<longrightarrow> stat fs' q)"
proof (induction "length p" arbitrary: before p fs rule: less_induct)
  case less
  show ?case
  proof (cases "strchr_split (CHR ''/'') p")
    case None
    with less.prems show ?thesis by (simp add: mkdir_loop.simps parents_from_absent)
  next
    case (Some ab)
    obtain a rest where ab: "ab = (a, rest)" by (cases ab)
    with Some have p: "p = a @ CHR ''/'' # rest" and a: "CHR ''/'' \<notin> set a"
      by (auto dest: strchr_split_SomeD)
    let ?buf = "before @ a"
    have IH: "mkdir_loop stat make_dir (before @ a @ ''/'') rest g = (None, fs') \<Longrightarrow>
        (\<forall>q \<in> set (parents_from (before @ a @ ''/'') rest). stat fs' q) \<and> (\<forall>q. stat g q \<longrightarrow> stat fs' q)" for g
      by (rule less.hyps) (simp add: p)
    have body: "mkdir_loop stat make_dir before p fs =
        (if ?buf = [] \<or> length ?buf \<le> 127 \<and> stat fs ?buf then mkdir_loop stat make_dir (before @ a @ ''/'') rest fs
         else if length ?buf > 127 then (Some (- 1), fs)
         else (case make_dir ?buf fs of ((ret, errno), g) \<Rightarrow>
            if ret \<noteq> 0 \<and> errno \<noteq> EEXIST then (Some ret, g)
            else mkdir_loop stat make_dir (before @ a @ ''/'') rest g))"
      using Some ab by (subst mkdir_loop.simps) (simp add: Let_def)
    show ?thesis
    proof (cases "?buf = [] \<or> length ?buf \<le> 127 \<and> stat fs ?buf")
      case True
      then have "mkdir_loop stat make_dir (before @ a @ ''/'') rest fs = (None, fs')"
        using less.prems unfolding body by simp
      from IH[OF this] True show ?thesis
        unfolding p parents_from_split[OF a] by auto
    next
      case False
      obtain r e g where md: "make_dir ?buf fs = ((r, e), g)" by (metis surj_pair)
      have r: "r = 0 \<or> e = EEXIST" and lp: "mkdir_loop stat make_dir (before @ a @ ''/'') rest g = (None, fs')"
        using less.prems False md unfolding body by (auto split: if_splits)
      from IH[OF lp] made[OF md r] keeps[OF md] show ?thesis
        unfolding p parents_from_split[OF a] by auto
    qed
  qed
qed

section \<open>Properties\<close>



text \<open>
  C29. The user id decoder truncates. A number that fits in 64 bits is reduced modulo
  \<^verbatim>\<open>2^32\<close> without an error: the text \<^verbatim>\<open>4294967296\<close> decodes to user 0, whatever the user
  database holds, while the next larger error case, a number that does not fit in 64 bits,
  decodes to \<^verbatim>\<open>UINT_MAX\<close>.
\<close>

theorem decode_uid_truncates:
  "decode_uid getpwnam ''4294967296'' = 0
   \<and> decode_uid getpwnam ''18446744073709551616'' = UINT_MAX
   \<and> decode_uid getpwnam ''0x3e8'' = 1000 \<and> decode_uid getpwnam ''-1'' = UINT_MAX"
  by (simp add: decode_uid_def c_str_def isalpha_def in_range_def strtoul_def isspace_def
      strtoul_abs_def ULONG_MAX_def digit_val_def UINT_MAX_def)

text \<open>
  \<^verbatim>\<open>sanitize\<close> keeps the length of its argument, keeps every acceptable character in its
  place and puts an underscore for every other one; a second call changes nothing.
\<close>

theorem sanitize_pointwise:
  "sanitize s = map (\<lambda>c. if accept_char c then c else CHR ''_'') s
   \<and> length (sanitize s) = length s \<and> sanitize (sanitize s) = sanitize s"
proof -
  have "accept_char (CHR ''_'')" by (simp add: accept_char_def)
  then show ?thesis by (simp add: sanitize_eq_map)
qed

text \<open>
  C29. \<^verbatim>\<open>read_file\<close> never returns the content of a file that its group or everybody may
  write, and returns exactly the content of any other readable file.
\<close>

theorem read_file_secure:
  "read_file open_ro path = Some data \<longleftrightarrow>
   (\<exists>fd mode. open_ro path = Some fd \<and> st_mode fd = Some mode \<and> content fd = Some data
      \<and> \<not> bit mode 4 \<and> \<not> bit mode 1)"
proof -
  have mask: "bit (S_IWGRP OR S_IWOTH) n \<longleftrightarrow> n = 4 \<or> n = 1" for n
  proof -
    have "S_IWGRP OR S_IWOTH = push_bit 4 1 OR push_bit 1 1"
      by (simp add: S_IWGRP_def S_IWOTH_def)
    then show ?thesis
      by (simp only: bit_or_iff bit_push_bit_iff bit_1_iff) auto
  qed
  have "mode AND (S_IWGRP OR S_IWOTH) = 0 \<longleftrightarrow> \<not> bit mode 4 \<and> \<not> bit mode 1" for mode :: u32
  proof
    assume h: "mode AND (S_IWGRP OR S_IWOTH) = 0"
    have "\<not> bit (mode AND (S_IWGRP OR S_IWOTH)) n" for n unfolding h by simp
    then show "\<not> bit mode 4 \<and> \<not> bit mode 1" unfolding bit_and_iff mask by blast
  next
    assume "\<not> bit mode 4 \<and> \<not> bit mode 1"
    then show "mode AND (S_IWGRP OR S_IWOTH) = 0"
      by (intro bit_eqI) (auto simp: bit_and_iff mask)
  qed
  then show ?thesis
    by (auto simp: read_file_def split: option.splits)
qed

text \<open>
  The hexadecimal text of a byte string determines it (\<^verbatim>\<open>bytes_to_hex\<close>).
\<close>

theorem bytes_to_hex_injective: "inj bytes_to_hex"
  by (rule injI) (auto simp: bytes_to_hex_def dest: bytes_hex_inj)

text \<open>
  C33. When \<^verbatim>\<open>mkdir_recursive\<close> returns 0, the path and every directory on the way to it
  exist. It relies on what \<^verbatim>\<open>mkdir\<close> documents: success, or a failure with \<^verbatim>\<open>EEXIST\<close>, means
  that the path exists afterwards, and no other path is removed.
\<close>

theorem mkdir_recursive_creates:
  assumes made: "\<And>p fs r e fs'. make_dir p fs = ((r, e), fs') \<Longrightarrow> r = 0 \<or> e = EEXIST \<Longrightarrow> stat fs' p"
    and keeps: "\<And>p fs re fs' q. make_dir p fs = (re, fs') \<Longrightarrow> stat fs q \<Longrightarrow> stat fs' q"
    and ok: "mkdir_recursive stat make_dir pathname fs = (0, fs')"
  shows "stat fs' pathname \<and> (\<forall>q \<in> set (parents_from [] pathname). stat fs' q)
    \<and> (\<forall>q. stat fs q \<longrightarrow> stat fs' q)"
proof -
  obtain res fs1 where lp: "mkdir_loop stat make_dir [] pathname fs = (res, fs1)" by (metis surj_pair)
  obtain r e fs2 where md: "make_dir pathname fs1 = ((r, e), fs2)" by (metis surj_pair)
  have res: "res \<noteq> Some 0"
    using mkdir_loop_not_zero[of stat make_dir "[]" pathname fs] unfolding lp by simp
  then have "res = None" and r: "r = 0 \<or> e = EEXIST" and fs': "fs' = fs2"
    using ok lp md unfolding mkdir_recursive_def by (auto split: option.splits if_splits)
  with lp have loop: "mkdir_loop stat make_dir [] pathname fs = (None, fs1)" by simp
  have "(\<forall>q \<in> set (parents_from [] pathname). stat fs1 q) \<and> (\<forall>q. stat fs q \<longrightarrow> stat fs1 q)"
    by (rule mkdir_loop_creates[of make_dir stat, OF _ _ loop]) (fact made, fact keeps)
  with made[OF md r] keeps[OF md] show ?thesis unfolding fs' by blast
qed

definition sample_mkdir :: "string \<Rightarrow> string list \<Rightarrow> (int \<times> int) \<times> string list" where
  "sample_mkdir p fs = (if p \<in> set fs then ((- 1, EEXIST), fs) else ((0, 0), p # fs))"

theorem mkdir_recursive_creates_witness:
  "mkdir_recursive (\<lambda>fs p. p \<in> set fs) sample_mkdir ''/a/b'' [] = (0, [''/a/b'', ''/a''])
   \<and> ''/a'' \<in> set [''/a/b'', ''/a'']"
proof -
  have run: "mkdir_recursive (\<lambda>fs p. p \<in> set fs) sample_mkdir ''/a/b'' [] = (0, [''/a/b'', ''/a''])"
    by (simp add: mkdir_recursive_def mkdir_loop.simps sample_mkdir_def)
  have "\<forall>q \<in> set (parents_from [] ''/a/b''). q \<in> set [''/a/b'', ''/a'']"
    by (rule mkdir_recursive_creates[THEN conjunct2, THEN conjunct1, OF _ _ run])
      (auto simp: sample_mkdir_def split: if_splits)
  then show ?thesis using run by simp
qed

end
