(* ===== verification/Keyword_Map.thy ===== *)
theory Keyword_Map
  imports Prelude
begin

text \<open>
  The keyword tables of \<^verbatim>\<open>init/keyword_map.h\<close>. A table maps a keyword to the smallest and
  the largest number of arguments and to a function; \<open>FindFunction\<close> returns the function or
  the error message of the source.
\<close>

type_synonym 'f keyword_map = "string \<rightharpoonup> nat \<times> nat \<times> 'f"

text \<open>\<^verbatim>\<open>std::numeric_limits<std::size_t>::max()\<close>.\<close>

definition kMax :: nat where
  "kMax = 2 ^ 64 - 1"

text \<open>The conversion \<^verbatim>\<open>%zu\<close>.\<close>

fun show_nat :: "nat \<Rightarrow> string" where
  "show_nat n =
     (if n < 10 then [char_of (48 + n)] else show_nat (n div 10) @ [char_of (48 + n mod 10)])"

declare show_nat.simps [simp del]

definition FindFunction :: "'f keyword_map \<Rightarrow> string \<Rightarrow> nat \<Rightarrow> string + 'f" where
  "FindFunction m keyword num_args =
     (case m keyword of
        None \<Rightarrow> Inl (''invalid keyword '' @ [CHR 0x27] @ keyword @ [CHR 0x27])
      | Some (min_args, max_args, f) \<Rightarrow>
         if min_args = max_args \<and> num_args \<noteq> min_args then
           Inl (keyword @ '' requires '' @ show_nat min_args @ '' argument'' @
             (if min_args > 1 \<or> min_args = 0 then ''s'' else []))
         else if num_args < min_args \<or> num_args > max_args then
           (if max_args = kMax then
              Inl (keyword @ '' requires at least '' @ show_nat min_args @ '' argument'' @
                (if min_args > 1 then ''s'' else []))
            else
              Inl (keyword @ '' requires between '' @ show_nat min_args @ '' and '' @
                show_nat max_args @ '' arguments''))
         else Inr f)"

lemma FindFunction_Inr:
  "FindFunction m k n = Inr f \<longleftrightarrow> (\<exists>lo hi. m k = Some (lo, hi, f) \<and> lo \<le> n \<and> n \<le> hi)"
  by (auto simp: FindFunction_def split: option.splits)

lemma FindFunction_cases:
  obtains e where "FindFunction m k n = Inl e"
  | f lo hi where "FindFunction m k n = Inr f" "m k = Some (lo, hi, f)" "lo \<le> n" "n \<le> hi"
  by (cases "FindFunction m k n") (auto simp: FindFunction_Inr)

end
