(* ===== verification/Action.thy ===== *)
theory Action
  imports Util Keyword_Map "HOL-Library.List_Lexorder" "HOL-Library.Char_ord"
begin

text \<open>
  Actions, triggers and the action manager (\<^verbatim>\<open>init/action.h\<close>, \<^verbatim>\<open>init/action.cpp\<close>).

  A \<^verbatim>\<open>std::map\<close> is the list of its entries in the order of the keys. An action lives at an
  address, a number that is never used twice; the manager owns the actions and refers to them
  by address from its triggers and from the list of executing actions. A use of an address
  the manager does not own, or of a command index out of range, is \<open>None\<close>.

  The functions the commands call work on a world of any type (\<open>run\<close>). They reach the manager
  only through its public operations, which they return as a list (\<open>am_op\<close>). \<open>gp\<close> reads a
  property in a world.
\<close>

section \<open>Actions\<close>

record 'f command =
  cmd_func :: 'f
  cmd_args :: "string list"
  cmd_filename :: string
  cmd_line :: int

record 'f action =
  property_triggers :: "(string \<times> string) list"
  event_trigger :: string
  commands :: "'f command list"
  oneshot :: bool

definition mk_action :: "bool \<Rightarrow> 'f action" where
  "mk_action os = \<lparr>property_triggers = [], event_trigger = [], commands = [], oneshot = os\<rparr>"

definition EINVAL :: int where "EINVAL = 22"

fun expand_args :: "(string \<Rightarrow> string) \<Rightarrow> string list \<Rightarrow> string list option" where
  "expand_args gp [] = Some []"
| "expand_args gp (a # as) =
     (case expand_props gp a of
        None \<Rightarrow> None
      | Some e \<Rightarrow> (case expand_args gp as of None \<Rightarrow> None | Some es \<Rightarrow> Some (e # es)))"

text \<open>The outer option is \<open>None\<close> when \<^verbatim>\<open>args_[0]\<close> does not exist.\<close>

definition InvokeFunc ::
  "('w \<Rightarrow> string \<Rightarrow> string) \<Rightarrow> ('f \<Rightarrow> string list \<Rightarrow> 'w \<Rightarrow> int \<times> 'o list \<times> 'w) \<Rightarrow> 'f command \<Rightarrow> 'w
   \<Rightarrow> (int \<times> 'o list \<times> 'w) option" where
  "InvokeFunc gp run c w =
     (case cmd_args c of
        [] \<Rightarrow> None
      | a # as \<Rightarrow>
         (case expand_args (gp w) as of
            None \<Rightarrow> Some (- EINVAL, [], w)
          | Some es \<Rightarrow> Some (run (cmd_func c) (a # es) w)))"

definition AddCommand_func :: "'f \<Rightarrow> string list \<Rightarrow> string \<Rightarrow> int \<Rightarrow> 'f action \<Rightarrow> 'f action" where
  "AddCommand_func f args filename line a =
     a\<lparr>commands := commands a @
       [\<lparr>cmd_func = f, cmd_args = args, cmd_filename = filename, cmd_line = line\<rparr>]\<rparr>"

definition AddCommand ::
  "'f keyword_map option \<Rightarrow> string list \<Rightarrow> string \<Rightarrow> int \<Rightarrow> 'f action \<Rightarrow> string + 'f action" where
  "AddCommand function_map args filename line a =
     (case function_map of
        None \<Rightarrow> Inl ''no function map available''
      | Some fm \<Rightarrow>
         if args = [] then Inl ''command needed, but not provided''
         else (case FindFunction fm (hd args) (length args - 1) of
                 Inl err \<Rightarrow> Inl err
               | Inr f \<Rightarrow> Inr (AddCommand_func f args filename line a)))"

definition CombineAction :: "'f action \<Rightarrow> 'f action \<Rightarrow> 'f action" where
  "CombineAction other a = a\<lparr>commands := commands a @ commands other\<rparr>"

definition NumCommands :: "'f action \<Rightarrow> nat" where
  "NumCommands a = length (commands a)"

fun ExecuteAll ::
  "('w \<Rightarrow> string \<Rightarrow> string) \<Rightarrow> ('f \<Rightarrow> string list \<Rightarrow> 'w \<Rightarrow> int \<times> 'o list \<times> 'w) \<Rightarrow> 'f command list \<Rightarrow> 'w
   \<Rightarrow> ('o list \<times> 'w) option" where
  "ExecuteAll gp run [] w = Some ([], w)"
| "ExecuteAll gp run (c # cs) w =
     (case InvokeFunc gp run c w of
        None \<Rightarrow> None
      | Some (result, ops, w1) \<Rightarrow>
         (case ExecuteAll gp run cs w1 of
            None \<Rightarrow> None
          | Some (ops', w2) \<Rightarrow> Some (ops @ ops', w2)))"

section \<open>Triggers of an action\<close>

definition prop_str :: string where
  "prop_str = ''property:''"

text \<open>\<^verbatim>\<open>emplace\<close> keeps an existing entry and says whether it inserted.\<close>

definition emplace :: "string \<Rightarrow> string \<Rightarrow> (string \<times> string) list \<Rightarrow> (string \<times> string) list option" where
  "emplace k v m = (if k \<in> set (map fst m) then None else Some (insort_key fst (k, v) m))"

definition ParsePropertyTrigger :: "string \<Rightarrow> 'f action \<Rightarrow> string + 'f action" where
  "ParsePropertyTrigger trigger a =
     (case strchr_split (CHR ''='') (drop (length prop_str) trigger) of
        None \<Rightarrow> Inl (''property trigger found without matching '' @ [CHR 0x27, CHR ''='', CHR 0x27])
      | Some (n, v) \<Rightarrow>
         (case emplace n v (property_triggers a) of
            None \<Rightarrow> Inl ''multiple property triggers found for same property''
          | Some m \<Rightarrow> Inr (a\<lparr>property_triggers := m\<rparr>)))"

fun init_triggers :: "nat \<Rightarrow> string list \<Rightarrow> 'f action \<Rightarrow> string + 'f action" where
  "init_triggers i [] a = Inr a"
| "init_triggers i (arg # args) a =
     (if arg = [] then Inl ''empty trigger is not valid''
      else if i mod 2 \<noteq> 0 then
        (if arg \<noteq> ''&&'' then Inl ''&& is the only symbol allowed to concatenate actions''
         else init_triggers (Suc i) args a)
      else if starts_with arg prop_str then
        (case ParsePropertyTrigger arg a of
           Inl err \<Rightarrow> Inl err
         | Inr a' \<Rightarrow> init_triggers (Suc i) args a')
      else if event_trigger a \<noteq> [] then Inl ''multiple event triggers are not allowed''
      else init_triggers (Suc i) args (a\<lparr>event_trigger := arg\<rparr>))"

definition InitTriggers :: "string list \<Rightarrow> 'f action \<Rightarrow> string + 'f action" where
  "InitTriggers args a = init_triggers 0 args a"

definition InitSingleTrigger :: "string \<Rightarrow> 'f action \<Rightarrow> string + 'f action" where
  "InitSingleTrigger trigger a = InitTriggers [trigger] a"

text \<open>The loop of \<^verbatim>\<open>CheckPropertyTriggers\<close>; \<open>found\<close> is its local variable.\<close>

fun check_triggers :: "(string \<Rightarrow> string) \<Rightarrow> string \<Rightarrow> string \<Rightarrow> (string \<times> string) list \<Rightarrow> bool \<Rightarrow> bool" where
  "check_triggers gp name val [] found = found"
| "check_triggers gp name val ((tn, tv) # ts) found =
     (if tn = name then
        (if tv \<noteq> ''*'' \<and> tv \<noteq> val then False else check_triggers gp name val ts True)
      else
        (if gp tn = [] \<or> (tv \<noteq> ''*'' \<and> tv \<noteq> gp tn) then False
         else check_triggers gp name val ts found))"

definition CheckPropertyTriggers :: "(string \<Rightarrow> string) \<Rightarrow> string \<Rightarrow> string \<Rightarrow> 'f action \<Rightarrow> bool" where
  "CheckPropertyTriggers gp name val a =
     (if property_triggers a = [] then True
      else check_triggers gp name val (property_triggers a) (name = []))"

definition CheckEventTrigger :: "(string \<Rightarrow> string) \<Rightarrow> string \<Rightarrow> 'f action \<Rightarrow> bool" where
  "CheckEventTrigger gp trigger a =
     (event_trigger a \<noteq> [] \<and> trigger = event_trigger a \<and> CheckPropertyTriggers gp [] [] a)"

definition CheckPropertyTrigger :: "(string \<Rightarrow> string) \<Rightarrow> string \<Rightarrow> string \<Rightarrow> 'f action \<Rightarrow> bool" where
  "CheckPropertyTrigger gp name val a =
     (event_trigger a = [] \<and> CheckPropertyTriggers gp name val a)"

definition TriggersEqual :: "'f action \<Rightarrow> 'f action \<Rightarrow> bool" where
  "TriggersEqual a b =
     (property_triggers a = property_triggers b \<and> event_trigger a = event_trigger b)"

section \<open>The action manager\<close>

datatype trigger = EventTrigger string | PropertyTrigger string string | BuiltinTrigger nat

fun CheckTriggers :: "(string \<Rightarrow> string) \<Rightarrow> trigger \<Rightarrow> nat \<times> 'f action \<Rightarrow> bool" where
  "CheckTriggers gp (EventTrigger t) (p, a) = CheckEventTrigger gp t a"
| "CheckTriggers gp (PropertyTrigger n v) (p, a) = CheckPropertyTrigger gp n v a"
| "CheckTriggers gp (BuiltinTrigger q) (p, a) = (q = p)"

record 'f action_manager =
  am_actions :: "(nat \<times> 'f action) list"
  trigger_queue :: "trigger list"
  current_executing :: "nat list"
  current_command :: nat
  next_address :: nat

definition new_action_manager :: "'f action_manager" where
  "new_action_manager =
     \<lparr>am_actions = [], trigger_queue = [], current_executing = [], current_command = 0,
      next_address = 0\<rparr>"

fun combine_first :: "'f action \<Rightarrow> (nat \<times> 'f action) list \<Rightarrow> (nat \<times> 'f action) list option" where
  "combine_first action [] = None"
| "combine_first action ((p, a) # as) =
     (if TriggersEqual action a then Some ((p, CombineAction action a) # as)
      else map_option ((#) (p, a)) (combine_first action as))"

definition AddAction :: "'f action \<Rightarrow> 'f action_manager \<Rightarrow> 'f action_manager" where
  "AddAction action am =
     (case combine_first action (am_actions am) of
        Some as \<Rightarrow> am\<lparr>am_actions := as\<rparr>
      | None \<Rightarrow> am\<lparr>am_actions := am_actions am @ [(next_address am, action)],
                  next_address := Suc (next_address am)\<rparr>)"

definition QueueEventTrigger :: "string \<Rightarrow> 'f action_manager \<Rightarrow> 'f action_manager" where
  "QueueEventTrigger t am = am\<lparr>trigger_queue := trigger_queue am @ [EventTrigger t]\<rparr>"

definition QueuePropertyTrigger :: "string \<Rightarrow> string \<Rightarrow> 'f action_manager \<Rightarrow> 'f action_manager" where
  "QueuePropertyTrigger n v am = am\<lparr>trigger_queue := trigger_queue am @ [PropertyTrigger n v]\<rparr>"

definition QueueAllPropertyTriggers :: "'f action_manager \<Rightarrow> 'f action_manager" where
  "QueueAllPropertyTriggers = QueuePropertyTrigger [] []"

definition QueueBuiltinAction :: "'f \<Rightarrow> string \<Rightarrow> 'f action_manager \<Rightarrow> 'f action_manager" where
  "QueueBuiltinAction f name am =
     (case InitSingleTrigger name (mk_action True) of
        Inl err \<Rightarrow> am
      | Inr a \<Rightarrow>
         am\<lparr>am_actions := am_actions am @ [(next_address am, AddCommand_func f [name] [] 0 a)],
            trigger_queue := trigger_queue am @ [BuiltinTrigger (next_address am)],
            next_address := Suc (next_address am)\<rparr>)"

datatype 'f am_op =
    OpAddAction "'f action"
  | OpQueueEvent string
  | OpQueueProperty string string
  | OpQueueBuiltin 'f string

fun apply_op :: "'f am_op \<Rightarrow> 'f action_manager \<Rightarrow> 'f action_manager" where
  "apply_op (OpAddAction a) am = AddAction a am"
| "apply_op (OpQueueEvent t) am = QueueEventTrigger t am"
| "apply_op (OpQueueProperty n v) am = QueuePropertyTrigger n v am"
| "apply_op (OpQueueBuiltin f n) am = QueueBuiltinAction f n am"

text \<open>The loop over the trigger queue: the actions of the first trigger that has any.\<close>

fun pick :: "(string \<Rightarrow> string) \<Rightarrow> (nat \<times> 'f action) list \<Rightarrow> trigger list \<Rightarrow> nat list \<times> trigger list" where
  "pick gp as [] = ([], [])"
| "pick gp as (t # ts) =
     (let e = map fst (filter (CheckTriggers gp t) as) in
      if e = [] then pick gp as ts else (e, ts))"

definition load_actions :: "(string \<Rightarrow> string) \<Rightarrow> 'f action_manager \<Rightarrow> 'f action_manager" where
  "load_actions gp am =
     (if current_executing am \<noteq> [] then am
      else (case pick gp (am_actions am) (trigger_queue am) of
              (e, q) \<Rightarrow> am\<lparr>trigger_queue := q, current_executing := e\<rparr>))"

text \<open>What follows the execution of a command of the action at \<open>p\<close>.\<close>

definition finish_command :: "nat \<Rightarrow> 'f action_manager \<Rightarrow> 'f action_manager option" where
  "finish_command p am =
     (case map_of (am_actions am) p of
        None \<Rightarrow> None
      | Some a \<Rightarrow>
         Some (if Suc (current_command am) = NumCommands a then
                 am\<lparr>am_actions := (if oneshot a then filter (\<lambda>(q, _). q \<noteq> p) (am_actions am)
                                   else am_actions am),
                    current_executing := tl (current_executing am),
                    current_command := 0\<rparr>
               else am\<lparr>current_command := Suc (current_command am)\<rparr>))"

text \<open>The first component of the result is the command that was executed, if any.\<close>

definition ExecuteOneCommand ::
  "('w \<Rightarrow> string \<Rightarrow> string) \<Rightarrow> ('f \<Rightarrow> string list \<Rightarrow> 'w \<Rightarrow> int \<times> 'f am_op list \<times> 'w)
   \<Rightarrow> 'f action_manager \<Rightarrow> 'w \<Rightarrow> ('f command option \<times> 'f action_manager \<times> 'w) option" where
  "ExecuteOneCommand gp run am0 w =
     (let am = load_actions (gp w) am0 in
      case current_executing am of
        [] \<Rightarrow> Some (None, am, w)
      | p # _ \<Rightarrow>
         (case map_of (am_actions am) p of
            None \<Rightarrow> None
          | Some a \<Rightarrow>
             if current_command am < NumCommands a then
               (let c = commands a ! current_command am in
                case InvokeFunc gp run c w of
                  None \<Rightarrow> None
                | Some (result, ops, w') \<Rightarrow>
                   map_option (\<lambda>am'. (Some c, am', w')) (finish_command p (fold apply_op ops am)))
             else None))"

definition HasMoreCommands :: "'f action_manager \<Rightarrow> bool" where
  "HasMoreCommands am = (current_executing am \<noteq> [] \<or> trigger_queue am \<noteq> [])"

section \<open>The section parser\<close>

type_synonym 'f action_parser = "'f action option"

definition ActionParser_ParseSection :: "string list \<Rightarrow> 'f action_parser \<Rightarrow> (string + unit) \<times> 'f action_parser" where
  "ActionParser_ParseSection args cur =
     (if tl args = [] then (Inl ''actions must have a trigger'', cur)
      else (case InitTriggers (tl args) (mk_action False) of
              Inl err \<Rightarrow> (Inl err, cur)
            | Inr a \<Rightarrow> (Inr (), Some a)))"

text \<open>\<open>None\<close> as error is the case in which the source leaves the message as it was.\<close>

definition ActionParser_ParseLineSection ::
  "'f keyword_map option \<Rightarrow> string list \<Rightarrow> string \<Rightarrow> int \<Rightarrow> 'f action_parser
   \<Rightarrow> (string option + unit) \<times> 'f action_parser" where
  "ActionParser_ParseLineSection fm args filename line cur =
     (case cur of
        None \<Rightarrow> (Inl None, None)
      | Some a \<Rightarrow>
         (case AddCommand fm args filename line a of
            Inl err \<Rightarrow> (Inl (Some err), cur)
          | Inr a' \<Rightarrow> (Inr (), Some a')))"

definition ActionParser_EndSection :: "'f action_parser \<Rightarrow> 'f action_manager \<Rightarrow> 'f action_parser \<times> 'f action_manager" where
  "ActionParser_EndSection cur am =
     (case cur of
        None \<Rightarrow> (None, am)
      | Some a \<Rightarrow> if NumCommands a > 0 then (None, AddAction a am) else (cur, am))"

end
