(* ===== verification/Action_Correct.thy ===== *)
theory Action_Correct
  imports Action
begin

text \<open>
  Lemmas on actions and the action manager: the invariant of the manager, that no address it
  follows is stale, the order in which commands run, that a manager whose commands queue
  nothing runs out of work, what the triggers of an action mean, and how they are parsed.
\<close>

section \<open>The invariant of the manager\<close>

definition action_ok :: "'f action \<Rightarrow> bool" where
  "action_ok a = (commands a \<noteq> [] \<and> (\<forall>c \<in> set (commands a). cmd_args c \<noteq> []))"

definition am_ok :: "'f action_manager \<Rightarrow> bool" where
  "am_ok am =
     (distinct (map fst (am_actions am))
      \<and> (\<forall>(p, a) \<in> set (am_actions am). p < next_address am \<and> action_ok a)
      \<and> distinct (current_executing am)
      \<and> set (current_executing am) \<subseteq> set (map fst (am_actions am))
      \<and> (if current_executing am = [] then current_command am = 0
         else \<exists>a. map_of (am_actions am) (hd (current_executing am)) = Some a
                \<and> current_command am < length (commands a)))"

fun op_ok :: "'f am_op \<Rightarrow> bool" where
  "op_ok (OpAddAction a) = action_ok a"
| "op_ok _ = True"

definition run_ok :: "('f \<Rightarrow> string list \<Rightarrow> 'w \<Rightarrow> int \<times> 'f am_op list \<times> 'w) \<Rightarrow> bool" where
  "run_ok run = (\<forall>f args w. list_all op_ok (fst (snd (run f args w))))"

lemma combine_first_SomeD:
  "combine_first action as = Some as' \<Longrightarrow>
   \<exists>xs p a ys. as = xs @ (p, a) # ys \<and> as' = xs @ (p, CombineAction action a) # ys
     \<and> TriggersEqual action a"
proof (induction action as arbitrary: as' rule: combine_first.induct)
  case (2 action p a as)
  show ?case
  proof (cases "TriggersEqual action a")
    case True
    then show ?thesis using 2(2) by (intro exI[of _ "[]"]) auto
  next
    case False
    then obtain bs where bs: "combine_first action as = Some bs" "as' = (p, a) # bs"
      using 2(2) by auto
    obtain xs q b ys where "as = xs @ (q, b) # ys" "bs = xs @ (q, CombineAction action b) # ys"
      "TriggersEqual action b"
      using 2(1)[OF False bs(1)] by blast
    then show ?thesis using bs by (intro exI[of _ "(p, a) # xs"] exI[of _ q] exI[of _ b] exI[of _ ys]) auto
  qed
qed simp

text \<open>
  \<open>am_grows am am'\<close>: every action of \<open>am\<close> is still there with the same mark and at least its
  commands, and the execution state is the same.
\<close>

definition am_grows :: "'f action_manager \<Rightarrow> 'f action_manager \<Rightarrow> bool" where
  "am_grows am am' =
     (current_executing am' = current_executing am \<and> current_command am' = current_command am
      \<and> (\<forall>p a. map_of (am_actions am) p = Some a \<longrightarrow>
           (\<exists>a'. map_of (am_actions am') p = Some a' \<and> prefix (commands a) (commands a'))))"

lemma am_grows_refl [simp]: "am_grows am am"
  by (simp add: am_grows_def)

lemma am_grows_trans: "am_grows a b \<Longrightarrow> am_grows b c \<Longrightarrow> am_grows a c"
proof -
  assume ab: "am_grows a b" and bc: "am_grows b c"
  have "\<exists>x'. map_of (am_actions c) p = Some x' \<and> prefix (commands x) (commands x')"
    if x: "map_of (am_actions a) p = Some x" for p x
  proof -
    obtain y where y: "map_of (am_actions b) p = Some y" "prefix (commands x) (commands y)"
      using ab x by (auto simp: am_grows_def)
    obtain z where "map_of (am_actions c) p = Some z" "prefix (commands y) (commands z)"
      using bc y(1) by (auto simp: am_grows_def)
    then show ?thesis using y(2) prefix_order.trans by blast
  qed
  then show "am_grows a c" using ab bc by (simp add: am_grows_def)
qed

lemma am_ok_growsI:
  assumes "am_ok am" "am_grows am am'"
    and "distinct (map fst (am_actions am'))"
    and "\<forall>(p, a) \<in> set (am_actions am'). p < next_address am' \<and> action_ok a"
    and "set (map fst (am_actions am)) \<subseteq> set (map fst (am_actions am'))"
  shows "am_ok am'"
proof -
  have "if current_executing am' = [] then current_command am' = 0
         else \<exists>a. map_of (am_actions am') (hd (current_executing am')) = Some a
                \<and> current_command am' < length (commands a)"
  proof (cases "current_executing am")
    case Nil
    then show ?thesis using assms(1,2) by (simp add: am_ok_def am_grows_def)
  next
    case (Cons p ps)
    then obtain a where "map_of (am_actions am) p = Some a" "current_command am < length (commands a)"
      using assms(1) by (auto simp: am_ok_def split: option.splits)
    moreover from this obtain a' where "map_of (am_actions am') p = Some a'" "prefix (commands a) (commands a')"
      using assms(2) unfolding am_grows_def by blast
    ultimately show ?thesis using Cons assms(2) prefix_length_le[of "commands a" "commands a'"]
      by (simp add: am_grows_def)
  qed
  then show ?thesis using assms unfolding am_ok_def am_grows_def by auto
qed

lemma map_of_replace:
  assumes "distinct (map fst (xs @ (p, a) # ys))"
  shows "map_of (xs @ (p, b) # ys) q = (if q = p then Some b else map_of (xs @ (p, a) # ys) q)"
proof (cases "q = p")
  case True
  have "map_of xs p = None" using assms by (auto simp: map_of_eq_None_iff)
  then show ?thesis using True by (simp add: map_add_def)
next
  case False
  then show ?thesis by (simp add: map_add_def split: option.split)
qed

lemma AddAction_ok:
  assumes "am_ok am" "action_ok action"
  shows "am_ok (AddAction action am) \<and> am_grows am (AddAction action am)"
proof (cases "combine_first action (am_actions am)")
  case None
  then have eq: "AddAction action am = am\<lparr>am_actions := am_actions am @ [(next_address am, action)],
      next_address := Suc (next_address am)\<rparr>"
    by (simp add: AddAction_def)
  have fresh: "next_address am \<notin> set (map fst (am_actions am))"
    using assms(1) by (auto simp: am_ok_def)
  have g: "am_grows am (AddAction action am)"
    unfolding eq am_grows_def by auto
  have "am_ok (AddAction action am)"
    by (rule am_ok_growsI[OF assms(1) g])
      (use assms fresh in \<open>auto simp: eq am_ok_def less_Suc_eq\<close>)
  with g show ?thesis by simp
next
  case (Some as)
  then have eq: "AddAction action am = am\<lparr>am_actions := as\<rparr>"
    by (simp add: AddAction_def)
  obtain xs p a ys where as: "am_actions am = xs @ (p, a) # ys"
    "as = xs @ (p, CombineAction action a) # ys"
    using combine_first_SomeD[OF Some] by blast
  have d: "distinct (map fst (xs @ (p, a) # ys))" using assms(1) as by (simp add: am_ok_def)
  have m: "map_of as q = (if q = p then Some (CombineAction action a) else map_of (am_actions am) q)" for q
    unfolding as by (rule map_of_replace[OF d])
  have mp: "map_of (am_actions am) p = Some a"
    using d unfolding as by (intro map_of_is_SomeI) auto
  have g: "am_grows am (AddAction action am)"
    unfolding am_grows_def eq by (simp add: m mp CombineAction_def)
  have "am_ok (AddAction action am)"
    by (rule am_ok_growsI[OF assms(1) g])
      (use assms as in \<open>auto simp: eq am_ok_def CombineAction_def action_ok_def\<close>)
  with g show ?thesis by simp
qed

lemma init_triggers_commands: "init_triggers i args a = Inr b \<Longrightarrow> commands b = commands a \<and> oneshot b = oneshot a"
  by (induction i args a rule: init_triggers.induct)
    (auto simp: ParsePropertyTrigger_def split: if_splits option.splits sum.splits)

lemma QueueBuiltinAction_ok:
  assumes "am_ok am"
  shows "am_ok (QueueBuiltinAction f name am) \<and> am_grows am (QueueBuiltinAction f name am)"
proof (cases "InitSingleTrigger name (mk_action True :: 'a action)")
  case (Inl e)
  then show ?thesis using assms by (simp add: QueueBuiltinAction_def)
next
  case (Inr a)
  then have c: "commands a = []"
    using init_triggers_commands[of 0 "[name]" "mk_action True" a]
    by (simp add: InitSingleTrigger_def InitTriggers_def mk_action_def del: init_triggers.simps)
  let ?am = "QueueBuiltinAction f name am"
  have eq: "am_actions ?am = am_actions am @ [(next_address am, AddCommand_func f [name] [] 0 a)]"
    "next_address ?am = Suc (next_address am)" "current_executing ?am = current_executing am"
    "current_command ?am = current_command am"
    using Inr by (simp_all add: QueueBuiltinAction_def)
  have fresh: "next_address am \<notin> set (map fst (am_actions am))"
    using assms(1) by (auto simp: am_ok_def)
  have new: "action_ok (AddCommand_func f [name] [] 0 a)"
    using c by (simp add: action_ok_def AddCommand_func_def)
  have g: "am_grows am ?am"
    unfolding am_grows_def eq by auto
  have "am_ok ?am"
    by (rule am_ok_growsI[OF assms(1) g])
      (use assms fresh new in \<open>auto simp: eq am_ok_def less_Suc_eq\<close>)
  with g show ?thesis by simp
qed

lemma apply_op_ok:
  assumes "am_ok am" "op_ok op"
  shows "am_ok (apply_op op am) \<and> am_grows am (apply_op op am)"
proof (cases op)
  case (OpAddAction a)
  then show ?thesis using assms AddAction_ok by auto
next
  case (OpQueueBuiltin f n)
  then show ?thesis using QueueBuiltinAction_ok[OF assms(1), of f n] by simp
qed (use assms in \<open>auto simp: QueueEventTrigger_def QueuePropertyTrigger_def am_ok_def am_grows_def\<close>)

lemma apply_ops_ok:
  "am_ok am \<Longrightarrow> list_all op_ok ops \<Longrightarrow> am_ok (fold apply_op ops am) \<and> am_grows am (fold apply_op ops am)"
proof (induction ops arbitrary: am)
  case (Cons op ops)
  then show ?case using apply_op_ok[of am op] am_grows_trans by auto
qed simp

section \<open>One step\<close>

lemma pick_subset: "pick gp as q = (e, q') \<Longrightarrow> set e \<subseteq> set (map fst as) \<and> suffix q' q"
  by (induction gp as q rule: pick.induct) (auto simp: Let_def suffix_ConsI split: if_splits)

lemma pick_distinct: "distinct (map fst as) \<Longrightarrow> pick gp as q = (e, q') \<Longrightarrow> distinct e"
proof (induction gp as q rule: pick.induct)
  case (2 gp as t ts)
  then show ?case
    by (auto simp: Let_def distinct_map split: if_splits intro: inj_on_subset)
qed simp

lemma load_actions_ok:
  assumes "am_ok am"
  shows "am_ok (load_actions gp am)"
proof (cases "current_executing am = []")
  case True
  obtain e q where p: "pick gp (am_actions am) (trigger_queue am) = (e, q)" by (metis surj_pair)
  have la: "load_actions gp am = am\<lparr>trigger_queue := q, current_executing := e\<rparr>"
    using True p by (simp add: load_actions_def)
  have "case e of [] \<Rightarrow> True | p # _ \<Rightarrow> (\<exists>a. map_of (am_actions am) p = Some a \<and> commands a \<noteq> [])"
  proof (cases e)
    case (Cons x xs)
    then obtain a where a: "map_of (am_actions am) x = Some a"
      using pick_subset[OF p] by (cases "map_of (am_actions am) x") (auto simp: map_of_eq_None_iff)
    then have "(x, a) \<in> set (am_actions am)" by (rule map_of_SomeD)
    then show ?thesis using assms Cons a by (auto simp: am_ok_def action_ok_def)
  qed simp
  then show ?thesis
    using assms True pick_subset[OF p] pick_distinct[OF _ p]
    unfolding la am_ok_def by (cases e) auto
next
  case False
  then show ?thesis using assms by (simp add: load_actions_def)
qed

lemma finish_command_ok:
  assumes "am_ok am" "current_executing am = p # ps"
  shows "\<exists>am'. finish_command p am = Some am' \<and> am_ok am'"
proof -
  obtain a where a: "map_of (am_actions am) p = Some a" "current_command am < length (commands a)"
    using assms by (auto simp: am_ok_def split: option.splits)
  have d: "distinct (map fst (am_actions am))" and nd: "p \<notin> set ps" "distinct ps"
    and sub: "set ps \<subseteq> fst ` set (am_actions am)"
    and all: "\<forall>(p, a) \<in> set (am_actions am). p < next_address am \<and> action_ok a"
    using assms by (auto simp: am_ok_def)
  let ?keep = "\<lambda>os. if os then filter (\<lambda>(q, _). q \<noteq> p) (am_actions am) else am_actions am"
  have first: "\<exists>b. map_of (?keep os) q = Some b \<and> commands b \<noteq> []" if q: "q \<in> set ps" for q os
  proof -
    obtain b where b: "(q, b) \<in> set (am_actions am)" using q sub by auto
    then have "(q, b) \<in> set (?keep os)" using q nd by auto
    moreover have "distinct (map fst (?keep os))"
      using d by (auto simp: distinct_map inj_on_def)
    ultimately have "map_of (?keep os) q = Some b" by (metis map_of_is_SomeI)
    then show ?thesis using b all by (auto simp: action_ok_def)
  qed
  have fin: "am_ok (am\<lparr>am_actions := ?keep os, current_executing := ps, current_command := 0\<rparr>)" for os
  proof -
    have "set ps \<subseteq> fst ` set (?keep os)" using sub nd by force
    moreover have "distinct (map fst (?keep os))" using d by (auto simp: distinct_map inj_on_def)
    moreover have "\<forall>(q, b) \<in> set (?keep os). q < next_address am \<and> action_ok b"
      using all by auto
    moreover have "ps \<noteq> [] \<Longrightarrow> \<exists>b. map_of (?keep os) (hd ps) = Some b \<and> 0 < length (commands b)"
      using first[of "hd ps" os] by simp
    ultimately show ?thesis
      using nd by (simp add: am_ok_def)
  qed
  show ?thesis
    using assms a fin[of "oneshot a"]
    by (auto simp: finish_command_def NumCommands_def am_ok_def)
qed

lemma InvokeFunc_total:
  "cmd_args c \<noteq> [] \<Longrightarrow> run_ok run \<Longrightarrow>
   \<exists>r ops w'. InvokeFunc gp run c w = Some (r, ops, w') \<and> list_all op_ok ops"
proof -
  assume "cmd_args c \<noteq> []" and r: "run_ok run"
  then obtain a as where "cmd_args c = a # as" by (cases "cmd_args c") auto
  moreover have "list_all op_ok (fst (snd (run f args w)))" for f args w
    using r by (simp add: run_ok_def)
  ultimately show ?thesis
    by (cases "expand_args (gp w) as") (auto simp: InvokeFunc_def, metis prod.collapse)
qed

lemma am_ok_front:
  assumes "am_ok am" "current_executing am = p # ps"
  obtains a where "map_of (am_actions am) p = Some a" "current_command am < length (commands a)"
    "action_ok a"
proof -
  obtain a where a: "map_of (am_actions am) p = Some a" "current_command am < length (commands a)"
    using assms by (auto simp: am_ok_def split: option.splits)
  moreover have "action_ok a"
    using assms(1) map_of_SomeD[OF a(1)] by (auto simp: am_ok_def)
  ultimately show ?thesis using that by blast
qed

text \<open>The commands still to be run for the executing actions, in order.\<close>

definition cmds_at :: "'f action_manager \<Rightarrow> nat \<Rightarrow> 'f command list" where
  "cmds_at am p = (case map_of (am_actions am) p of None \<Rightarrow> [] | Some a \<Rightarrow> commands a)"

definition pending :: "'f action_manager \<Rightarrow> 'f command list" where
  "pending am =
     (case current_executing am of
        [] \<Rightarrow> []
      | p # ps \<Rightarrow> drop (current_command am) (cmds_at am p) @ concat (map (cmds_at am) ps))"

lemma pending_front:
  assumes "am_ok am" "current_executing am = p # ps" "map_of (am_actions am) p = Some a"
  shows "pending am = commands a ! current_command am #
    drop (Suc (current_command am)) (commands a) @ concat (map (cmds_at am) ps)"
proof -
  have "current_command am < length (commands a)"
    using assms by (simp add: am_ok_def)
  then show ?thesis
    using assms by (simp add: pending_def cmds_at_def Cons_nth_drop_Suc[symmetric])
qed

lemma pending_empty:
  assumes "am_ok am"
  shows "pending am = [] \<longleftrightarrow> current_executing am = []"
proof (cases "current_executing am")
  case (Cons p ps)
  obtain a where "map_of (am_actions am) p = Some a"
    using am_ok_front[OF assms Cons] .
  then show ?thesis using Cons pending_front[OF assms Cons] by simp
qed (simp add: pending_def)

lemma finish_command_pending:
  assumes "am_ok am" "current_executing am = p # ps" "finish_command p am = Some am'"
  shows "pending am' = tl (pending am) \<and> trigger_queue am' = trigger_queue am"
proof -
  obtain a where a: "map_of (am_actions am) p = Some a" "current_command am < length (commands a)"
    "action_ok a"
    using am_ok_front[OF assms(1,2)] .
  have nd: "p \<notin> set ps" using assms by (auto simp: am_ok_def)
  have at: "map_of (filter (\<lambda>(q, _). q \<noteq> p) xs) r = map_of xs r" if "r \<noteq> p"
    for r and xs :: "(nat \<times> 'a action) list"
    using that by (induction xs) auto
  have tlp: "tl (pending am) = drop (Suc (current_command am)) (commands a) @ concat (map (cmds_at am) ps)"
    using pending_front[OF assms(1,2) a(1)] by simp
  show ?thesis
  proof (cases "Suc (current_command am) = NumCommands a")
    case True
    define as where "as = (if oneshot a then filter (\<lambda>(q, _). q \<noteq> p) (am_actions am) else am_actions am)"
    have am': "am' = am\<lparr>am_actions := as, current_executing := ps, current_command := 0\<rparr>"
      using assms(2,3) a(1) True by (simp add: finish_command_def as_def)
    have same: "cmds_at am' r = cmds_at am r" if "r \<in> set ps" for r
    proof -
      have "r \<noteq> p" using that nd by auto
      then show ?thesis using at[of r "am_actions am"] by (simp add: am' cmds_at_def as_def)
    qed
    have "pending am' = concat (map (cmds_at am') ps)"
      by (cases ps) (simp_all add: am' pending_def)
    also have "\<dots> = concat (map (cmds_at am) ps)"
      using same by (simp cong: map_cong)
    finally show ?thesis using tlp True by (simp add: am' NumCommands_def)
  next
    case False
    then have am': "am' = am\<lparr>current_command := Suc (current_command am)\<rparr>"
      using assms(3) a(1) by (simp add: finish_command_def)
    then have "cmds_at am' = cmds_at am" by (auto simp: cmds_at_def)
    then show ?thesis using tlp assms(2) a(1) by (simp add: pending_def am') (simp add: cmds_at_def)
  qed
qed

text \<open>All there is to one step.\<close>

lemma ExecuteOneCommand_step:
  assumes "am_ok am" "run_ok run" and am1_def: "am1 = load_actions (gp w) am"
  obtains "current_executing am1 = []" "ExecuteOneCommand gp run am w = Some (None, am1, w)"
  | c p ps r ops w' am' where "current_executing am1 = p # ps" "pending am1 = c # tl (pending am1)"
    "InvokeFunc gp run c w = Some (r, ops, w')" "list_all op_ok ops"
    "ExecuteOneCommand gp run am w = Some (Some c, am', w')" "am_ok am'"
    "pending am' = tl (pending (fold apply_op ops am1))"
    "trigger_queue am' = trigger_queue (fold apply_op ops am1)"
proof (cases "current_executing am1")
  case Nil
  then show ?thesis using that(1) by (simp add: ExecuteOneCommand_def am1_def Let_def)
next
  case (Cons p ps)
  have ok1: "am_ok am1" using assms load_actions_ok by simp
  obtain a where a: "map_of (am_actions am1) p = Some a" "current_command am1 < length (commands a)"
    "action_ok a"
    using am_ok_front[OF ok1 Cons] .
  define c where "c = commands a ! current_command am1"
  have "cmd_args c \<noteq> []" using a by (simp add: c_def action_ok_def)
  then obtain r ops w' where inv: "InvokeFunc gp run c w = Some (r, ops, w')" "list_all op_ok ops"
    using InvokeFunc_total assms(2) by metis
  have ok2: "am_ok (fold apply_op ops am1)" and g: "am_grows am1 (fold apply_op ops am1)"
    using apply_ops_ok[OF ok1 inv(2)] by simp_all
  then have ex2: "current_executing (fold apply_op ops am1) = p # ps"
    using Cons by (simp add: am_grows_def)
  obtain am' where fin: "finish_command p (fold apply_op ops am1) = Some am'" "am_ok am'"
    using finish_command_ok[OF ok2 ex2] by blast
  have "ExecuteOneCommand gp run am w = Some (Some c, am', w')"
    using Cons a inv(1) fin(1)
    by (simp add: ExecuteOneCommand_def Let_def NumCommands_def am1_def[symmetric] c_def)
  moreover have "pending am1 = c # tl (pending am1)"
    using pending_front[OF ok1 Cons a(1)] by (simp add: c_def)
  ultimately show ?thesis
    using that(2)[OF Cons _ inv _ fin(2)] finish_command_pending[OF ok2 ex2 fin(1)] by blast
qed

section \<open>Runs\<close>

text \<open>Repeated calls of \<^verbatim>\<open>ExecuteOneCommand\<close>, with the commands that were run.\<close>

fun exec_seq ::
  "('w \<Rightarrow> string \<Rightarrow> string) \<Rightarrow> ('f \<Rightarrow> string list \<Rightarrow> 'w \<Rightarrow> int \<times> 'f am_op list \<times> 'w) \<Rightarrow> nat
   \<Rightarrow> 'f action_manager \<Rightarrow> 'w \<Rightarrow> ('f command list \<times> 'f action_manager \<times> 'w) option" where
  "exec_seq gp run 0 am w = Some ([], am, w)"
| "exec_seq gp run (Suc n) am w =
     (case ExecuteOneCommand gp run am w of
        None \<Rightarrow> None
      | Some (c, am', w') \<Rightarrow>
         (case exec_seq gp run n am' w' of
            None \<Rightarrow> None
          | Some (cs, r) \<Rightarrow> Some ((case c of None \<Rightarrow> cs | Some c \<Rightarrow> c # cs), r)))"

definition quiet :: "('f \<Rightarrow> string list \<Rightarrow> 'w \<Rightarrow> int \<times> 'f am_op list \<times> 'w) \<Rightarrow> bool" where
  "quiet run = (\<forall>f args w. fst (snd (run f args w)) = [])"

lemma quiet_run_ok: "quiet run \<Longrightarrow> run_ok run"
  by (simp add: quiet_def run_ok_def)

lemma quiet_InvokeFunc: "quiet run \<Longrightarrow> InvokeFunc gp run c w = Some (r, ops, w') \<Longrightarrow> ops = []"
proof -
  assume "quiet run" and inv: "InvokeFunc gp run c w = Some (r, ops, w')"
  then have q: "run f args v = (i, os, v') \<Longrightarrow> os = []" for f args v i os v'
    unfolding quiet_def by (metis fst_conv snd_conv)
  show "ops = []"
    using inv unfolding InvokeFunc_def by (auto split: list.splits option.splits dest: q)
qed

lemma exec_seq_add:
  "exec_seq gp run m am w = Some (cs, am', w') \<Longrightarrow> exec_seq gp run n am' w' = Some (ds, am'', w'') \<Longrightarrow>
   exec_seq gp run (m + n) am w = Some (cs @ ds, am'', w'')"
proof (induction m arbitrary: am w cs)
  case (Suc m)
  obtain c am1 w1 cs' where "ExecuteOneCommand gp run am w = Some (c, am1, w1)"
    "exec_seq gp run m am1 w1 = Some (cs', am', w')" "cs = (case c of None \<Rightarrow> cs' | Some c \<Rightarrow> c # cs')"
    using Suc.prems(1) by (auto split: option.splits)
  then show ?case using Suc.IH[of am1 w1 cs'] Suc.prems(2) by (simp split: option.split)
qed simp

lemma exec_seq_load:
  assumes "load_actions (gp w) am = am1" "current_executing am1 \<noteq> []"
  shows "exec_seq gp run (Suc n) am w = exec_seq gp run (Suc n) am1 w"
proof -
  have "load_actions (gp w) am1 = am1" using assms(2) by (simp add: load_actions_def)
  then show ?thesis using assms(1) by (simp add: ExecuteOneCommand_def Let_def)
qed

lemma drain:
  "am_ok am \<Longrightarrow> quiet run \<Longrightarrow>
   \<exists>am' w'. exec_seq gp run (length (pending am)) am w = Some (pending am, am', w') \<and> am_ok am'
     \<and> current_executing am' = [] \<and> trigger_queue am' = trigger_queue am"
proof (induction "length (pending am)" arbitrary: am w)
  case 0
  then have "pending am = []" by simp
  then show ?case using 0 pending_empty[of am] by simp
next
  case (Suc n)
  have "pending am \<noteq> []" using Suc.hyps(2) by (cases "pending am") simp_all
  then have ne: "current_executing am \<noteq> []" by (simp add: pending_empty[OF Suc.prems(1)])
  then have la: "load_actions (gp w) am = am" by (simp add: load_actions_def)
  from ExecuteOneCommand_step[of am run am gp w, OF Suc.prems(1) quiet_run_ok[OF Suc.prems(2)] la[symmetric]]
  show ?case
  proof cases
    case 1
    then show ?thesis using ne la by simp
  next
    case (2 c p ps r ops w' am')
    have ops: "ops = []" using quiet_InvokeFunc[OF Suc.prems(2) 2(3)] .
    then have tl: "pending am' = tl (pending am)" and q: "trigger_queue am' = trigger_queue am"
      using 2(7,8) by simp_all
    have pd: "pending am = c # pending am'" unfolding tl by (rule 2(2))
    then have "n = length (pending am')" using Suc.hyps(2) by simp
    from Suc.hyps(1)[OF this 2(6) Suc.prems(2), of w'] obtain am2 w2 where
      "exec_seq gp run (length (pending am')) am' w' = Some (pending am', am2, w2)" "am_ok am2"
      "current_executing am2 = []" "trigger_queue am2 = trigger_queue am'"
      by (elim exE conjE)
    then show ?thesis using 2(5) pd q by simp
  qed
qed

lemma pick_shorter: "pick gp as q = (e, q') \<Longrightarrow> q \<noteq> [] \<Longrightarrow> length q' < length q"
proof (induction gp as q rule: pick.induct)
  case (2 gp as t ts)
  show ?case
  proof (cases "map fst (filter (CheckTriggers gp t) as) = []")
    case True
    then show ?thesis using 2 by (cases "ts = []") (auto simp: Let_def)
  next
    case False
    then show ?thesis using 2 by (auto simp: Let_def)
  qed
qed simp

lemma pick_exhausts: "pick gp as q = ([], q') \<Longrightarrow> q' = []"
  by (induction gp as q rule: pick.induct) (auto simp: Let_def split: if_splits)

lemma idle_goes_idle:
  "am_ok am \<Longrightarrow> quiet run \<Longrightarrow> current_executing am = [] \<Longrightarrow>
   \<exists>n cs am' w'. exec_seq gp run n am w = Some (cs, am', w') \<and> am_ok am' \<and> \<not> HasMoreCommands am'"
proof (induction "length (trigger_queue am)" arbitrary: am w rule: less_induct)
  case less
  note quiet = less.prems(2)
  obtain ex q where pk: "pick (gp w) (am_actions am) (trigger_queue am) = (ex, q)" by (metis surj_pair)
  define am1 where "am1 = load_actions (gp w) am"
  have am1: "current_executing am1 = ex" "trigger_queue am1 = q"
    using less.prems(3) pk by (simp_all add: am1_def load_actions_def)
  have ok1: "am_ok am1" using less.prems load_actions_ok by (simp add: am1_def)
  show ?case
  proof (cases "ex = []")
    case True
    have "exec_seq gp run 1 am w = Some ([], am1, w)"
      using True am1 by (simp add: ExecuteOneCommand_def Let_def am1_def)
    moreover have "\<not> HasMoreCommands am1"
      using True am1 pick_exhausts pk by (auto simp: HasMoreCommands_def)
    ultimately show ?thesis using ok1 by blast
  next
    case False
    obtain am2 w2 where d: "exec_seq gp run (length (pending am1)) am1 w = Some (pending am1, am2, w2)"
      "am_ok am2" "current_executing am2 = []" "trigger_queue am2 = q"
      using drain[OF ok1 quiet, of gp w] am1 by auto
    obtain n where n: "length (pending am1) = Suc n"
      using False am1 pending_empty[OF ok1] by (cases "pending am1") auto
    have run: "exec_seq gp run (Suc n) am w = Some (pending am1, am2, w2)"
      using exec_seq_load[of gp w am am1 run n] d(1) n False am1 am1_def by simp
    have "trigger_queue am \<noteq> []" using False pk by auto
    then have "length (trigger_queue am2) < length (trigger_queue am)"
      using pick_shorter[OF pk] d(4) by simp
    from less.hyps[OF this d(2) quiet d(3), of w2] show ?thesis
      using exec_seq_add[OF run] by blast
  qed
qed

section \<open>The triggers of an action\<close>

lemma check_triggers_iff:
  "check_triggers gp name val ts found \<longleftrightarrow>
   (found \<or> name \<in> fst ` set ts) \<and>
   (\<forall>(n, v) \<in> set ts. if n = name then v = ''*'' \<or> v = val
                      else gp n \<noteq> [] \<and> (v = ''*'' \<or> v = gp n))"
  by (induction gp name val ts found rule: check_triggers.induct) auto

definition trig_ok :: "'f action \<Rightarrow> bool" where
  "trig_ok a = (sorted (map fst (property_triggers a)) \<and> distinct (map fst (property_triggers a)))"

lemma emplace_Some:
  "emplace k v m = Some m' \<Longrightarrow> sorted (map fst m) \<Longrightarrow> distinct (map fst m) \<Longrightarrow>
   sorted (map fst m') \<and> distinct (map fst m') \<and> set m' = insert (k, v) (set m)
   \<and> k \<notin> fst ` set m"
proof -
  assume e: "emplace k v m = Some m'" and s: "sorted (map fst m)" and d: "distinct (map fst m)"
  then have k: "k \<notin> fst ` set m" and m': "m' = insort_key fst (k, v) m"
    by (auto simp: emplace_def split: if_splits)
  have "distinct (map fst m')" using k d unfolding m'
    by (induction m) (auto simp: set_insort_key)
  then show ?thesis using s k by (auto simp: m' sorted_insort_key set_insort_key)
qed

text \<open>Trigger lists as a script writes them.\<close>

datatype trig = TEvent string | TProp string string

fun trig_text :: "trig \<Rightarrow> string" where
  "trig_text (TEvent e) = e"
| "trig_text (TProp n v) = prop_str @ n @ ''='' @ v"

fun trig_args :: "trig list \<Rightarrow> string list" where
  "trig_args [] = []"
| "trig_args [t] = [trig_text t]"
| "trig_args (t # ts) = trig_text t # ''&&'' # trig_args ts"

fun trig_props :: "trig list \<Rightarrow> (string \<times> string) list" where
  "trig_props [] = []"
| "trig_props (TProp n v # ts) = (n, v) # trig_props ts"
| "trig_props (TEvent e # ts) = trig_props ts"

fun trig_events :: "trig list \<Rightarrow> string list" where
  "trig_events [] = []"
| "trig_events (TProp n v # ts) = trig_events ts"
| "trig_events (TEvent e # ts) = e # trig_events ts"

fun trig_wf :: "trig \<Rightarrow> bool" where
  "trig_wf (TEvent e) = (e \<noteq> [] \<and> \<not> starts_with e prop_str)"
| "trig_wf (TProp n v) = (CHR ''='' \<notin> set n)"

definition add_trig :: "trig \<Rightarrow> 'f action \<Rightarrow> 'f action" where
  "add_trig t a =
     (case t of
        TEvent e \<Rightarrow> a\<lparr>event_trigger := e\<rparr>
      | TProp n v \<Rightarrow> a\<lparr>property_triggers := insort_key fst (n, v) (property_triggers a)\<rparr>)"

lemma init_triggers_head:
  assumes "trig_wf t" "even i"
    and "case t of TEvent e \<Rightarrow> event_trigger a = [] | TProp n v \<Rightarrow> n \<notin> fst ` set (property_triggers a)"
  shows "init_triggers i (trig_text t # args) a = init_triggers (Suc i) args (add_trig t a)"
proof (cases t)
  case (TEvent e)
  then show ?thesis using assms by (simp add: add_trig_def even_iff_mod_2_eq_zero)
next
  case (TProp n v)
  then show ?thesis
    using assms
    by (simp add: add_trig_def even_iff_mod_2_eq_zero prop_str_def ParsePropertyTrigger_def emplace_def)
qed

lemma init_triggers_trig_args:
  assumes "\<forall>t \<in> set ts. trig_wf t" "even i" "trig_ok a"
    and "distinct (map fst (trig_props ts))" "fst ` set (trig_props ts) \<inter> fst ` set (property_triggers a) = {}"
    and "length (trig_events ts) + (if event_trigger a = [] then 0 else 1) \<le> 1"
  shows "\<exists>b. init_triggers i (trig_args ts) a = Inr b \<and> trig_ok b
    \<and> set (property_triggers b) = set (property_triggers a) \<union> set (trig_props ts)
    \<and> event_trigger b = (if trig_events ts = [] then event_trigger a else hd (trig_events ts))"
  using assms
proof (induction ts arbitrary: i a)
  case (Cons t ts)
  let ?a = "add_trig t a"
  have head: "case t of TEvent e \<Rightarrow> event_trigger a = [] | TProp n v \<Rightarrow> n \<notin> fst ` set (property_triggers a)"
    using Cons.prems by (cases t) (auto split: if_splits)
  have ok: "trig_ok ?a"
  proof (cases t)
    case (TProp n v)
    then have "emplace n v (property_triggers a) = Some (insort_key fst (n, v) (property_triggers a))"
      using head by (simp add: emplace_def)
    from emplace_Some[OF this] show ?thesis
      using Cons.prems(3) TProp by (simp add: add_trig_def trig_ok_def)
  qed (use Cons.prems(3) in \<open>simp add: add_trig_def trig_ok_def\<close>)
  have step: "init_triggers i (trig_text t # args) a = init_triggers (Suc i) args ?a" for args
    using init_triggers_head[OF _ Cons.prems(2) head] Cons.prems(1) by simp
  have rest: "\<exists>b. init_triggers (Suc (Suc i)) (trig_args ts) ?a = Inr b \<and> trig_ok b
    \<and> set (property_triggers b) = set (property_triggers ?a) \<union> set (trig_props ts)
    \<and> event_trigger b = (if trig_events ts = [] then event_trigger ?a else hd (trig_events ts))"
    by (rule Cons.IH[OF _ _ ok])
      (use Cons.prems in \<open>cases t; auto simp: add_trig_def set_insort_key split: if_splits\<close>)+
  have all: "set (property_triggers ?a) \<union> set (trig_props ts) =
      set (property_triggers a) \<union> set (trig_props (t # ts))"
    by (cases t) (auto simp: add_trig_def set_insort_key)
  have ev: "(if trig_events ts = [] then event_trigger ?a else hd (trig_events ts)) =
      (if trig_events (t # ts) = [] then event_trigger a else hd (trig_events (t # ts)))"
    using Cons.prems(6) by (cases t) (auto simp: add_trig_def)
  have args: "init_triggers i (trig_args (t # ts)) a = init_triggers (Suc (Suc i)) (trig_args ts) ?a"
    using Cons.prems(2) step by (cases ts) (simp_all add: even_iff_mod_2_eq_zero mod_Suc)
  show ?case using rest unfolding all ev args .
qed simp

section \<open>Properties\<close>

text \<open>
  C4. The action manager is memory safe. From a state that satisfies the invariant,
  \<^verbatim>\<open>ExecuteOneCommand\<close> always returns: the action it takes from the executing list is one the
  manager still owns, the index of the command is in range, and the one-shot action it erases
  is in the list, whatever the command does to the manager through its public operations.
  The invariant holds again afterwards, and the command executed is the first of those that
  were pending.
\<close>

theorem action_manager_safe:
  assumes "am_ok am" "run_ok run"
  shows "\<exists>c am' w'. ExecuteOneCommand gp run am w = Some (c, am', w') \<and> am_ok am'
    \<and> c = (case pending (load_actions (gp w) am) of [] \<Rightarrow> None | c # _ \<Rightarrow> Some c)"
  using ExecuteOneCommand_step[OF assms refl, of gp w]
proof cases
  case 1
  have "pending (load_actions (gp w) am) = []"
    using 1(1) by (simp add: pending_def)
  then show ?thesis using 1(2) load_actions_ok[OF assms(1)] by auto
next
  case (2 c p ps r ops w' am')
  have "(case pending (load_actions (gp w) am) of [] \<Rightarrow> None | c # _ \<Rightarrow> Some c) = Some c"
    by (subst 2(2)) simp
  then show ?thesis using 2(5,6) by auto
qed

text \<open>
  C20. A trigger runs its actions in order. When the manager is between actions and the
  commands do not queue anything, the commands executed for the first trigger in the queue
  are those of all actions whose triggers it satisfies at that moment, action by action in
  the order of definition, each action from its first to its last command; the rest of the
  queue then follows.
\<close>

theorem trigger_runs_actions_in_order:
  assumes "am_ok am" "current_executing am = []" "trigger_queue am = t # ts" "quiet run"
    and cs_def: "cs = concat (map (commands \<circ> snd) (filter (CheckTriggers (gp w) t) (am_actions am)))"
  shows "\<exists>am' w'. exec_seq gp run (length cs) am w = Some (cs, am', w') \<and> current_executing am' = []
    \<and> (cs \<noteq> [] \<longrightarrow> trigger_queue am' = ts)"
proof (cases "filter (CheckTriggers (gp w) t) (am_actions am) = []")
  case True
  then show ?thesis using assms(2) by (simp add: cs_def)
next
  case False
  define am1 where "am1 = load_actions (gp w) am"
  have am1: "am1 = am\<lparr>trigger_queue := ts,
      current_executing := map fst (filter (CheckTriggers (gp w) t) (am_actions am))\<rparr>"
    using False assms(2,3) by (simp add: am1_def load_actions_def Let_def)
  have ok1: "am_ok am1" using assms(1) load_actions_ok by (simp add: am1_def)
  have at: "cmds_at am1 p = commands a" if "(p, a) \<in> set (am_actions am)" for p a
    using assms(1) that by (simp add: am1 cmds_at_def am_ok_def)
  have "current_command am = 0" using assms(1,2) by (simp add: am_ok_def)
  then have "pending am1 = concat (map (cmds_at am1) (current_executing am1))"
    by (cases "current_executing am1") (simp_all add: pending_def am1)
  also have "\<dots> = concat (map (cmds_at am1 \<circ> fst) (filter (CheckTriggers (gp w) t) (am_actions am)))"
    by (simp add: am1)
  also have "\<dots> = cs"
    unfolding cs_def by (rule arg_cong[of _ _ concat], rule map_cong) (use at in auto)
  finally have pd: "pending am1 = cs" .
  obtain am2 w2 where d: "exec_seq gp run (length cs) am1 w = Some (cs, am2, w2)"
    "current_executing am2 = []" "trigger_queue am2 = ts"
    using drain[OF ok1 assms(4), of gp w] pd by (auto simp: am1)
  have ne: "current_executing am1 \<noteq> []" using False by (simp add: am1)
  then obtain n where "length cs = Suc n"
    using pending_empty[OF ok1] pd by (cases cs) auto
  then show ?thesis
    using d exec_seq_load[of gp w am am1 run n, OF am1_def[symmetric] ne] by simp
qed

text \<open>
  C26. The action manager runs out of work. When the commands queue nothing, some number of
  calls of \<^verbatim>\<open>ExecuteOneCommand\<close> leads to a state in which \<^verbatim>\<open>HasMoreCommands\<close> is false,
  however properties change in between.
\<close>

theorem manager_goes_idle:
  assumes "am_ok am" "quiet run"
  shows "\<exists>n cs am' w'. exec_seq gp run n am w = Some (cs, am', w') \<and> am_ok am' \<and> \<not> HasMoreCommands am'"
proof -
  obtain am2 w2 where d: "exec_seq gp run (length (pending am)) am w = Some (pending am, am2, w2)"
    "am_ok am2" "current_executing am2 = []"
    using drain[OF assms, of gp w] by auto
  obtain n cs am3 w3 where "exec_seq gp run n am2 w2 = Some (cs, am3, w3)" "am_ok am3"
    "\<not> HasMoreCommands am3"
    using idle_goes_idle[OF d(2) assms(2) d(3), of gp w2] by blast
  then show ?thesis using exec_seq_add[OF d(1)] by blast
qed

text \<open>
  C27. What a change of a property triggers. An action without event trigger is started by the
  change of \<open>name\<close> to \<open>val\<close> exactly when it has no property triggers at all, or \<open>name\<close> is one
  of its properties (or is empty, which asks for all actions) and every one of its triggers
  holds: for \<open>name\<close> itself with the new value, for the others with their current values,
  which must not be empty.
\<close>

theorem property_trigger_meaning:
  "CheckPropertyTrigger gp name val a \<longleftrightarrow>
   event_trigger a = [] \<and>
   (property_triggers a = [] \<or>
    (name = [] \<or> name \<in> fst ` set (property_triggers a)) \<and>
    (\<forall>(n, v) \<in> set (property_triggers a).
       if n = name then v = ''*'' \<or> v = val else gp n \<noteq> [] \<and> (v = ''*'' \<or> v = gp n)))"
  by (auto simp: CheckPropertyTrigger_def CheckPropertyTriggers_def check_triggers_iff)

theorem property_trigger_meaning_witness:
  "CheckPropertyTrigger (\<lambda>_. ''1'') ''a'' ''2''
     \<lparr>property_triggers = [(''a'', ''2''), (''b'', ''*'')], event_trigger = [],
      commands = ([] :: unit command list), oneshot = False\<rparr>"
  unfolding property_trigger_meaning by simp

text \<open>
  C33. Triggers are read back. A list of well-formed triggers joined by \<^verbatim>\<open>&&\<close>, with at most
  one event and no property twice, is accepted; the action then has exactly these property
  triggers, in the order of their names, and the event.
\<close>

theorem triggers_read_back:
  assumes "\<forall>t \<in> set ts. trig_wf t" "distinct (map fst (trig_props ts))" "length (trig_events ts) \<le> 1"
  shows "\<exists>a. InitTriggers (trig_args ts) (mk_action os) = Inr a
    \<and> set (property_triggers a) = set (trig_props ts)
    \<and> sorted (map fst (property_triggers a)) \<and> distinct (map fst (property_triggers a))
    \<and> event_trigger a = (if trig_events ts = [] then [] else hd (trig_events ts))"
  using init_triggers_trig_args[OF assms(1), of 0 "mk_action os"] assms(2,3)
  by (auto simp: InitTriggers_def mk_action_def trig_ok_def)

theorem triggers_read_back_witness:
  "\<exists>a :: unit action. InitTriggers [''boot'', ''&&'', ''property:a=1''] (mk_action False) = Inr a
    \<and> set (property_triggers a) = {(''a'', ''1'')} \<and> event_trigger a = ''boot''"
  using triggers_read_back[of "[TEvent ''boot'', TProp ''a'' ''1'']" False]
  by (auto simp: prop_str_def)

text \<open>A manager with one action of two commands and two queued triggers.\<close>

definition sample_am :: "bool action_manager" where
  "sample_am =
     QueueEventTrigger ''boot'' (QueueEventTrigger ''none''
       (AddAction \<lparr>property_triggers = [], event_trigger = ''boot'',
          commands = [\<lparr>cmd_func = True, cmd_args = [''x''], cmd_filename = [], cmd_line = 1\<rparr>,
                      \<lparr>cmd_func = False, cmd_args = [''y''], cmd_filename = [], cmd_line = 2\<rparr>],
          oneshot = False\<rparr> new_action_manager))"

lemma sample_am_ok: "am_ok sample_am"
  by (simp add: sample_am_def am_ok_def AddAction_def new_action_manager_def QueueEventTrigger_def
      action_ok_def)

definition sample_run :: "bool \<Rightarrow> string list \<Rightarrow> nat \<Rightarrow> int \<times> bool am_op list \<times> nat" where
  "sample_run f args w = (0, if f then [OpQueueEvent ''boot''] else [], Suc w)"

definition sample_quiet :: "bool \<Rightarrow> string list \<Rightarrow> nat \<Rightarrow> int \<times> bool am_op list \<times> nat" where
  "sample_quiet f args w = (0, [], Suc w)"

theorem action_manager_safe_witness:
  "\<exists>c am' w'. ExecuteOneCommand (\<lambda>_ _. []) sample_run sample_am 0 = Some (c, am', w') \<and> am_ok am'"
proof -
  have "run_ok sample_run" by (simp add: run_ok_def sample_run_def)
  then show ?thesis
    using action_manager_safe[OF sample_am_ok, of sample_run "\<lambda>_ _. []" 0] by blast
qed

theorem trigger_runs_actions_in_order_witness:
  "\<exists>cs am' w'. exec_seq (\<lambda>_ _. []) sample_quiet 2 (sample_am\<lparr>trigger_queue := [EventTrigger ''boot'']\<rparr>) 0 =
     Some (cs, am', w') \<and> map cmd_line cs = [1, 2] \<and> trigger_queue am' = []"
proof -
  have ok: "am_ok (sample_am\<lparr>trigger_queue := [EventTrigger ''boot'']\<rparr>)"
    by (simp add: sample_am_def am_ok_def AddAction_def new_action_manager_def QueueEventTrigger_def
        action_ok_def)
  show ?thesis
    using trigger_runs_actions_in_order[OF ok, of "EventTrigger ''boot''" "[]" sample_quiet _ "\<lambda>_ _. []" 0,
        OF _ _ _ refl]
    by (auto simp: quiet_def sample_quiet_def sample_am_def AddAction_def new_action_manager_def
        QueueEventTrigger_def CheckEventTrigger_def CheckPropertyTriggers_def numeral_2_eq_2
        simp del: exec_seq.simps)
qed

theorem manager_goes_idle_witness:
  "\<exists>n cs am' w'. exec_seq (\<lambda>_ _. []) sample_quiet n sample_am 0 = Some (cs, am', w')
     \<and> \<not> HasMoreCommands am'"
  using manager_goes_idle[OF sample_am_ok, of sample_quiet "\<lambda>_ _. []" 0]
  by (auto simp: quiet_def sample_quiet_def)

end
