(* ===== verification/Service.thy ===== *)
theory Service
  imports Action_Correct Property_Service
begin

text \<open>
  Services and the service manager (\<^verbatim>\<open>init/service.h\<close>, \<^verbatim>\<open>init/service.cpp\<close>).

  A service is a record; its flags are a 32 bit word as in the source. An operation returns
  the new service and the list of its effects on the outside in order (\<open>svc_effect\<close>); what the
  kernel and the libraries answer is in the argument \<open>env\<close>. Times are in nanoseconds.
  The service manager owns the services as a list; the result \<open>None\<close> of one of its
  operations is the use of a null pointer.
\<close>

section \<open>Flags and data\<close>

definition SVC_DISABLED :: u32 where "SVC_DISABLED = 0x001"
definition SVC_ONESHOT :: u32 where "SVC_ONESHOT = 0x002"
definition SVC_RUNNING :: u32 where "SVC_RUNNING = 0x004"
definition SVC_RESTARTING :: u32 where "SVC_RESTARTING = 0x008"
definition SVC_CONSOLE :: u32 where "SVC_CONSOLE = 0x010"
definition SVC_CRITICAL :: u32 where "SVC_CRITICAL = 0x020"
definition SVC_RESET :: u32 where "SVC_RESET = 0x040"
definition SVC_RC_DISABLED :: u32 where "SVC_RC_DISABLED = 0x080"
definition SVC_RESTART :: u32 where "SVC_RESTART = 0x100"
definition SVC_DISABLED_START :: u32 where "SVC_DISABLED_START = 0x200"
definition SVC_EXEC :: u32 where "SVC_EXEC = 0x400"
definition SVC_SHUTDOWN_CRITICAL :: u32 where "SVC_SHUTDOWN_CRITICAL = 0x800"
definition SVC_TEMPORARY :: u32 where "SVC_TEMPORARY = 0x1000"

definition NR_SVC_SUPP_GIDS :: nat where "NR_SVC_SUPP_GIDS = 12"

definition CLONE_NEWNS :: u32 where "CLONE_NEWNS = 0x00020000"
definition CLONE_NEWPID :: u32 where "CLONE_NEWPID = 0x20000000"

lemmas svc_flag_defs =
  SVC_DISABLED_def SVC_ONESHOT_def SVC_RUNNING_def SVC_RESTARTING_def SVC_CONSOLE_def
  SVC_CRITICAL_def SVC_RESET_def SVC_RC_DISABLED_def SVC_RESTART_def SVC_DISABLED_START_def
  SVC_EXEC_def SVC_SHUTDOWN_CRITICAL_def SVC_TEMPORARY_def

datatype IoSchedClass = IoSchedClass_NONE | IoSchedClass_RT | IoSchedClass_BE | IoSchedClass_IDLE

datatype descriptor_kind = SocketInfo | FileInfo

record descriptor =
  d_kind :: descriptor_kind
  d_name :: string
  d_type :: string
  d_uid :: u32
  d_gid :: u32
  d_perm :: int
  d_context :: string

record 'f service =
  svc_name :: string
  classnames :: "string set"
  console :: string
  svc_flags :: u32
  svc_pid :: int
  time_started :: int
  time_crashed :: int
  crash_count :: int
  svc_uid :: u32
  svc_gid :: u32
  supp_gids :: "u32 list"
  capabilities :: "nat set"
  namespace_flags :: u32
  seclabel :: string
  descriptors :: "descriptor list"
  envvars :: "(string \<times> string) list"
  onrestart :: "'f action"
  writepid_files :: "string list"
  keycodes :: "int list"
  keychord_id :: int
  ioprio_class :: IoSchedClass
  ioprio_pri :: int
  svc_priority :: int
  oom_score_adjust :: int
  svc_args :: "string list"

definition has_flag :: "'f service \<Rightarrow> u32 \<Rightarrow> bool" where
  "has_flag s f = (svc_flags s AND f \<noteq> 0)"

definition set_flags :: "u32 \<Rightarrow> 'f service \<Rightarrow> 'f service" where
  "set_flags f s = s\<lparr>svc_flags := svc_flags s OR f\<rparr>"

definition clear_flags :: "u32 \<Rightarrow> 'f service \<Rightarrow> 'f service" where
  "clear_flags f s = s\<lparr>svc_flags := svc_flags s AND NOT f\<rparr>"

text \<open>\<^verbatim>\<open>onrestart_.InitSingleTrigger("onrestart")\<close>; the result of the call is not used.\<close>

definition onrestart_action :: "'f action" where
  "onrestart_action =
     (case InitSingleTrigger ''onrestart'' (mk_action False) of
        Inr a \<Rightarrow> a | Inl _ \<Rightarrow> mk_action False)"

definition mk_service_full ::
  "string \<Rightarrow> u32 \<Rightarrow> u32 \<Rightarrow> u32 \<Rightarrow> u32 list \<Rightarrow> nat set \<Rightarrow> u32 \<Rightarrow> string \<Rightarrow> string list \<Rightarrow> 'f service" where
  "mk_service_full name flags uid gid gids caps nsflags label args =
     \<lparr>svc_name = name, classnames = {''default''}, console = [], svc_flags = flags, svc_pid = 0,
      time_started = 0, time_crashed = 0, crash_count = 0, svc_uid = uid, svc_gid = gid,
      supp_gids = gids, capabilities = caps, namespace_flags = nsflags, seclabel = label,
      descriptors = [], envvars = [], onrestart = onrestart_action, writepid_files = [],
      keycodes = [], keychord_id = 0, ioprio_class = IoSchedClass_NONE, ioprio_pri = 0,
      svc_priority = 0, oom_score_adjust = - 1000, svc_args = args\<rparr>"

definition mk_service :: "string \<Rightarrow> string list \<Rightarrow> 'f service" where
  "mk_service name args = mk_service_full name 0 0 0 [] {} 0 [] args"

section \<open>Effects and answers\<close>

datatype 'f svc_effect =
    PropertySet string string
  | KillProcessGroupOnce u32 int int
  | KillGroup u32 int int
  | Kill int int
  | CleanDescriptor descriptor
  | Panic
  | RunCommands "'f command list"
  | WriteFile string string
  | CreateProcessGroup u32 int

definition SIGKILL :: int where "SIGKILL = 9"
definition SIGTERM :: int where "SIGTERM = 15"

text \<open>The decimal conversions \<^verbatim>\<open>%d\<close> and \<^verbatim>\<open>PRIu64\<close>.\<close>

definition show_int :: "int \<Rightarrow> string" where
  "show_int i = (if i < 0 then CHR ''-'' # show_nat (nat (- i)) else show_nat (nat i))"

definition NotifyStateChange :: "string \<Rightarrow> 'f service \<Rightarrow> 'f svc_effect list" where
  "NotifyStateChange new_state s =
     (if has_flag s SVC_TEMPORARY then []
      else PropertySet (''init.svc.'' @ svc_name s) new_state #
        (if new_state = ''running''
         then [PropertySet (''ro.boottime.'' @ svc_name s) (show_int (time_started s))]
         else []))"

definition KillProcessGroup :: "int \<Rightarrow> 'f service \<Rightarrow> 'f svc_effect list" where
  "KillProcessGroup sig s =
     [if sig = SIGTERM then KillProcessGroupOnce (svc_uid s) (svc_pid s) sig
      else KillGroup (svc_uid s) (svc_pid s) sig,
      Kill (- svc_pid s) sig]"

section \<open>Start, stop, reap\<close>

record service_env =
  default_console :: string
  open_ok :: "string \<Rightarrow> bool"
  stat_ok :: "string \<Rightarrow> bool"
  compute_context :: "string \<Rightarrow> string \<Rightarrow> string"
  fork_pid :: int
  boot_now :: int

definition start_mask :: u32 where
  "start_mask = SVC_DISABLED OR SVC_RESTARTING OR SVC_RESET OR SVC_RESTART OR SVC_DISABLED_START"

text \<open>
  \<^verbatim>\<open>Start\<close> as the parent process runs it; \<open>fork_pid env\<close> is the positive result of \<^verbatim>\<open>fork\<close> or
  \<^verbatim>\<open>clone\<close>, or a negative one for a failure. What the child does is \<open>child_ops\<close> below.
\<close>

definition Start :: "service_env \<Rightarrow> 'f service \<Rightarrow> bool \<times> 'f service \<times> 'f svc_effect list" where
  "Start env s0 =
     (let s1 = clear_flags start_mask s0 in
      if has_flag s1 SVC_RUNNING then (False, s1, [])
      else
       let needs_console = has_flag s1 SVC_CONSOLE;
           s2 = (if needs_console \<and> console s1 = [] then s1\<lparr>console := default_console env\<rparr> else s1) in
       if needs_console \<and> \<not> open_ok env (console s2) then (False, set_flags SVC_DISABLED s2, [])
       else if \<not> stat_ok env (hd (svc_args s2)) then (False, set_flags SVC_DISABLED s2, [])
       else
        let scon = (if seclabel s2 \<noteq> [] then seclabel s2
                    else compute_context env (svc_name s2) (hd (svc_args s2))) in
        if scon = [] then (False, s2, [])
        else if fork_pid env < 0 then (False, s2\<lparr>svc_pid := 0\<rparr>, [])
        else
         let oom = (if oom_score_adjust s2 \<noteq> - 1000
                    then [WriteFile (''/proc/'' @ show_int (fork_pid env) @ ''/oom_score_adj'')
                            (show_int (oom_score_adjust s2))]
                    else []);
             s3 = set_flags SVC_RUNNING (s2\<lparr>time_started := boot_now env, svc_pid := fork_pid env\<rparr>)
         in (True, s3, oom @ [CreateProcessGroup (svc_uid s3) (svc_pid s3)]
               @ NotifyStateChange ''running'' s3))"

definition StartIfNotDisabled :: "service_env \<Rightarrow> 'f service \<Rightarrow> bool \<times> 'f service \<times> 'f svc_effect list" where
  "StartIfNotDisabled env s =
     (if \<not> has_flag s SVC_DISABLED then Start env s
      else (True, set_flags SVC_DISABLED_START s, []))"

definition Enable :: "service_env \<Rightarrow> 'f service \<Rightarrow> bool \<times> 'f service \<times> 'f svc_effect list" where
  "Enable env s0 =
     (let s = clear_flags (SVC_DISABLED OR SVC_RC_DISABLED) s0 in
      if has_flag s SVC_DISABLED_START then Start env s else (True, s, []))"

definition StopOrReset :: "u32 \<Rightarrow> 'f service \<Rightarrow> 'f service \<times> 'f svc_effect list" where
  "StopOrReset how0 s0 =
     (let s1 = clear_flags (SVC_RESTARTING OR SVC_DISABLED_START) s0;
          how = (if how0 \<noteq> SVC_DISABLED \<and> how0 \<noteq> SVC_RESET \<and> how0 \<noteq> SVC_RESTART
                 then SVC_DISABLED else how0);
          s2 = (if how = SVC_RESET
                then set_flags (if has_flag s1 SVC_RC_DISABLED then SVC_DISABLED else SVC_RESET) s1
                else set_flags how s1)
      in if svc_pid s2 \<noteq> 0
         then (s2, KillProcessGroup SIGKILL s2 @ NotifyStateChange ''stopping'' s2)
         else (s2, NotifyStateChange ''stopped'' s2))"

definition Reset :: "'f service \<Rightarrow> 'f service \<times> 'f svc_effect list" where
  "Reset s = StopOrReset SVC_RESET s"

definition Stop :: "'f service \<Rightarrow> 'f service \<times> 'f svc_effect list" where
  "Stop s = StopOrReset SVC_DISABLED s"

definition Terminate :: "'f service \<Rightarrow> 'f service \<times> 'f svc_effect list" where
  "Terminate s0 =
     (let s = set_flags SVC_DISABLED (clear_flags (SVC_RESTARTING OR SVC_DISABLED_START) s0) in
      if svc_pid s \<noteq> 0
      then (s, KillProcessGroup SIGTERM s @ NotifyStateChange ''stopping'' s)
      else (s, []))"

definition Restart :: "service_env \<Rightarrow> 'f service \<Rightarrow> 'f service \<times> 'f svc_effect list" where
  "Restart env s =
     (if has_flag s SVC_RUNNING then StopOrReset SVC_RESTART s
      else if \<not> has_flag s SVC_RESTARTING then snd (Start env s)
      else (s, []))"

text \<open>
  \<open>wall_time\<close> is \<^verbatim>\<open>time(nullptr)\<close>; the last component of the result is
  \<^verbatim>\<open>process_needs_restart_at\<close>. The quotient of the difference is exact for a difference that
  is not negative, as it is there.
\<close>

definition RestartIfNeeded ::
  "service_env \<Rightarrow> int \<Rightarrow> int \<Rightarrow> 'f service \<Rightarrow> 'f service \<times> 'f svc_effect list \<times> int" where
  "RestartIfNeeded env wall_time needs_at s =
     (let next_start = time_started s + 5000000000 in
      if boot_now env > next_start then
        (case Start env (clear_flags SVC_RESTARTING s) of (_, s', es) \<Rightarrow> (s', es, needs_at))
      else
        let t = wall_time + (next_start - boot_now env) div 1000000000 in
        (s, [], if t < needs_at \<or> needs_at = 0 then t else needs_at))"

definition four_minutes :: int where
  "four_minutes = 240000000000"

definition Reap :: "service_env \<Rightarrow> 'f service \<Rightarrow> 'f service \<times> 'f svc_effect list" where
  "Reap env s0 =
     (let kill = (if \<not> has_flag s0 SVC_ONESHOT \<or> has_flag s0 SVC_RESTART
                  then KillProcessGroup SIGKILL s0 else []);
          clean = map CleanDescriptor (descriptors s0) in
      if has_flag s0 SVC_TEMPORARY then (s0, kill @ clean)
      else
       let s1 = clear_flags SVC_RUNNING (s0\<lparr>svc_pid := 0\<rparr>);
           s2 = (if has_flag s1 SVC_ONESHOT \<and> \<not> has_flag s1 SVC_RESTART
                 then set_flags SVC_DISABLED s1 else s1) in
       if has_flag s2 (SVC_DISABLED OR SVC_RESET)
       then (s2, kill @ clean @ NotifyStateChange ''stopped'' s2)
       else
        let counted = has_flag s2 SVC_CRITICAL \<and> \<not> has_flag s2 SVC_RESTART;
            inside = boot_now env < time_crashed s2 + four_minutes;
            s3 = (if counted then
                    (if inside then s2\<lparr>crash_count := crash_count s2 + 1\<rparr>
                     else s2\<lparr>time_crashed := boot_now env, crash_count := 1\<rparr>)
                  else s2);
            panic = (if counted \<and> inside \<and> crash_count s3 > 4 then [Panic] else []);
            s4 = set_flags SVC_RESTARTING (clear_flags SVC_RESTART s3)
        in (s4, kill @ clean @ panic @ [RunCommands (commands (onrestart s4))]
              @ NotifyStateChange ''restarting'' s4))"

definition Service_ExecStart ::
  "service_env \<Rightarrow> 'f service \<Rightarrow> bool \<times> 'f service \<times> 'f svc_effect list \<times> bool" where
  "Service_ExecStart env s0 =
     (case Start env (set_flags (SVC_EXEC OR SVC_ONESHOT) s0) of
        (True, s, es) \<Rightarrow> (True, s, es, True)
      | (False, s, es) \<Rightarrow> (False, s, es, False))"

section \<open>The child process\<close>

text \<open>
  The calls of the child between \<^verbatim>\<open>fork\<close> and \<^verbatim>\<open>execve\<close>, in order. A call of
  \<^verbatim>\<open>SetProcessAttributes\<close> that fails ends the child, so the list is what is attempted as long
  as every call succeeds. The result of \<open>ExpandArgs\<close> is \<open>None\<close> when an argument cannot be
  expanded, which ends the child before \<^verbatim>\<open>execve\<close>.
\<close>

datatype child_op =
    Umask
  | SetUpPidNamespace string
  | AddEnvironment string string
  | CreateAndPublish descriptor string
  | WriteOwnPid string
  | SetIoprio IoSchedClass int
  | OpenConsole string
  | ZapStdio
  | SetSecurebits
  | SetPgid
  | SetGid u32
  | SetGroups "u32 list"
  | SetUid u32
  | SetExecCon string
  | SetPriority int
  | SetCapsForExec "nat set"
  | Execve "string list"

definition SetProcessAttributes :: "'f service \<Rightarrow> child_op list" where
  "SetProcessAttributes s =
     (if capabilities s \<noteq> {} \<and> svc_uid s \<noteq> 0 then [SetSecurebits] else [])
     @ [SetPgid]
     @ (if svc_gid s \<noteq> 0 then [SetGid (svc_gid s)] else [])
     @ [SetGroups (supp_gids s)]
     @ (if svc_uid s \<noteq> 0 then [SetUid (svc_uid s)] else [])
     @ (if seclabel s \<noteq> [] then [SetExecCon (seclabel s)] else [])
     @ (if svc_priority s \<noteq> 0 then [SetPriority (svc_priority s)] else [])
     @ (if capabilities s \<noteq> {} then [SetCapsForExec (capabilities s)] else [])"

definition cpuset_files :: "string \<Rightarrow> string list \<Rightarrow> string list" where
  "cpuset_files default_cpuset files =
     (if list_ex (\<lambda>f. starts_with f ''/dev/cpuset/'') files \<or> default_cpuset = [] then files
      else
       let a = (if hd default_cpuset \<noteq> CHR ''/'' then CHR ''/'' # default_cpuset else default_cpuset);
           b = (if last a \<noteq> CHR ''/'' then a @ ''/'' else a)
       in files @ [''/dev/cpuset'' @ b @ ''tasks''])"

definition ExpandArgs :: "(string \<Rightarrow> string) \<Rightarrow> string list \<Rightarrow> string list option" where
  "ExpandArgs gp args =
     (case args of [] \<Rightarrow> None | a # as \<Rightarrow> map_option ((#) a) (expand_args gp as))"

definition child_prologue :: "(string \<Rightarrow> string) \<Rightarrow> string \<Rightarrow> 'f service \<Rightarrow> child_op list" where
  "child_prologue gp scon s =
     [Umask]
     @ (if namespace_flags s AND CLONE_NEWPID \<noteq> 0 then [SetUpPidNamespace (svc_name s)] else [])
     @ map (\<lambda>(n, v). AddEnvironment n v) (envvars s)
     @ map (\<lambda>d. CreateAndPublish d scon) (descriptors s)
     @ map WriteOwnPid (cpuset_files (gp ''ro.cpuset.default'') (writepid_files s))
     @ (if ioprio_class s \<noteq> IoSchedClass_NONE then [SetIoprio (ioprio_class s) (ioprio_pri s)] else [])
     @ [if has_flag s SVC_CONSOLE then OpenConsole (console s) else ZapStdio]"

definition child_ops :: "(string \<Rightarrow> string) \<Rightarrow> string \<Rightarrow> 'f service \<Rightarrow> child_op list" where
  "child_ops gp scon s =
     child_prologue gp scon s @ SetProcessAttributes s
     @ (case ExpandArgs gp (svc_args s) of None \<Rightarrow> [] | Some strs \<Rightarrow> [Execve strs])"

section \<open>Options\<close>

text \<open>What the option parsers ask of libraries.\<close>

record 'f svc_lib =
  lib_functions :: "'f keyword_map option"
  getpwnam :: "string \<Rightarrow> u32 option"
  ParseInt :: "string \<Rightarrow> int \<Rightarrow> int \<Rightarrow> int option"
  CapAmbientSupported :: bool
  GetLastValidCap :: nat
  LookupCap :: "string \<Rightarrow> int"
  priority_highest :: int
  priority_lowest :: int

fun add_caps :: "'f svc_lib \<Rightarrow> string list \<Rightarrow> nat set \<Rightarrow> (string + unit) \<times> nat set" where
  "add_caps lib [] caps = (Inr (), caps)"
| "add_caps lib (arg # args) caps =
     (if LookupCap lib arg < 0
      then (Inl (''invalid capability '' @ [CHR 0x27] @ arg @ [CHR 0x27]), caps)
      else if nat (LookupCap lib arg) > GetLastValidCap lib
      then (Inl (''capability '' @ [CHR 0x27] @ arg @ [CHR 0x27] @ '' not supported by the kernel''), caps)
      else add_caps lib args (insert (nat (LookupCap lib arg)) caps))"

definition ParseCapabilities :: "'f svc_lib \<Rightarrow> string list \<Rightarrow> 'f service \<Rightarrow> (string + unit) \<times> 'f service" where
  "ParseCapabilities lib args s =
     (if \<not> CapAmbientSupported lib then
        (Inl ''capabilities requested but the kernel does not support ambient capabilities'',
         s\<lparr>capabilities := {}\<rparr>)
      else (case add_caps lib (tl args) {} of (r, caps) \<Rightarrow> (r, s\<lparr>capabilities := caps\<rparr>)))"

definition ParseClass :: "string list \<Rightarrow> 'f service \<Rightarrow> (string + unit) \<times> 'f service" where
  "ParseClass args s = (Inr (), s\<lparr>classnames := set (tl args)\<rparr>)"

definition ParseConsole :: "string list \<Rightarrow> 'f service \<Rightarrow> (string + unit) \<times> 'f service" where
  "ParseConsole args s =
     (Inr (), (set_flags SVC_CONSOLE s)\<lparr>console := (if length args > 1 then ''/dev/'' @ args ! 1 else [])\<rparr>)"

definition ParseCritical :: "string list \<Rightarrow> 'f service \<Rightarrow> (string + unit) \<times> 'f service" where
  "ParseCritical args s = (Inr (), set_flags SVC_CRITICAL s)"

definition ParseDisabled :: "string list \<Rightarrow> 'f service \<Rightarrow> (string + unit) \<times> 'f service" where
  "ParseDisabled args s = (Inr (), set_flags SVC_RC_DISABLED (set_flags SVC_DISABLED s))"

definition ParseGroup :: "'f svc_lib \<Rightarrow> string list \<Rightarrow> 'f service \<Rightarrow> (string + unit) \<times> 'f service" where
  "ParseGroup lib args s =
     (Inr (), s\<lparr>svc_gid := decode_uid (getpwnam lib) (args ! 1),
        supp_gids := supp_gids s @ map (decode_uid (getpwnam lib)) (drop 2 args)\<rparr>)"

definition ParsePriority :: "'f svc_lib \<Rightarrow> string list \<Rightarrow> 'f service \<Rightarrow> (string + unit) \<times> 'f service" where
  "ParsePriority lib args s =
     (case ParseInt lib (args ! 1) (priority_highest lib) (priority_lowest lib) of
        None \<Rightarrow> (Inl (''process priority value must be range '' @ show_int (priority_highest lib)
                  @ '' - '' @ show_int (priority_lowest lib)), s\<lparr>svc_priority := 0\<rparr>)
      | Some v \<Rightarrow> (Inr (), s\<lparr>svc_priority := v\<rparr>))"

definition ParseIoprio :: "'f svc_lib \<Rightarrow> string list \<Rightarrow> 'f service \<Rightarrow> (string + unit) \<times> 'f service" where
  "ParseIoprio lib args s =
     (case ParseInt lib (args ! 2) 0 7 of
        None \<Rightarrow> (Inl ''priority value must be range 0 - 7'', s)
      | Some v \<Rightarrow>
         let s1 = s\<lparr>ioprio_pri := v\<rparr> in
         if args ! 1 = ''rt'' then (Inr (), s1\<lparr>ioprio_class := IoSchedClass_RT\<rparr>)
         else if args ! 1 = ''be'' then (Inr (), s1\<lparr>ioprio_class := IoSchedClass_BE\<rparr>)
         else if args ! 1 = ''idle'' then (Inr (), s1\<lparr>ioprio_class := IoSchedClass_IDLE\<rparr>)
         else (Inl ''ioprio option usage: ioprio <rt|be|idle> <0-7>'', s1))"

text \<open>\<^verbatim>\<open>ParseInt\<close> without bounds takes those of \<^verbatim>\<open>int\<close>; a keycode it refuses is left out.\<close>

definition ParseKeycodes :: "'f svc_lib \<Rightarrow> string list \<Rightarrow> 'f service \<Rightarrow> (string + unit) \<times> 'f service" where
  "ParseKeycodes lib args s =
     (Inr (), s\<lparr>keycodes := keycodes s @
        List.map_filter (\<lambda>a. ParseInt lib a (- 2147483648) 2147483647) (tl args)\<rparr>)"

definition ParseOneshot :: "string list \<Rightarrow> 'f service \<Rightarrow> (string + unit) \<times> 'f service" where
  "ParseOneshot args s = (Inr (), set_flags SVC_ONESHOT s)"

text \<open>The result of \<^verbatim>\<open>AddCommand\<close> is not used: a command it refuses is left out without an error.\<close>

definition ParseOnrestart :: "'f svc_lib \<Rightarrow> string list \<Rightarrow> 'f service \<Rightarrow> (string + unit) \<times> 'f service" where
  "ParseOnrestart lib args s =
     (Inr (), case AddCommand (lib_functions lib) (tl args) [] 0 (onrestart s) of
                Inl err \<Rightarrow> s
              | Inr a \<Rightarrow> s\<lparr>onrestart := a\<rparr>)"

fun parse_namespace :: "string list \<Rightarrow> u32 \<Rightarrow> (string + unit) \<times> u32" where
  "parse_namespace [] f = (Inr (), f)"
| "parse_namespace (a # as) f =
     (if a = ''pid'' then parse_namespace as (f OR CLONE_NEWPID OR CLONE_NEWNS)
      else if a = ''mnt'' then parse_namespace as (f OR CLONE_NEWNS)
      else (Inl (''namespace must be '' @ [CHR 0x27] @ ''pid'' @ [CHR 0x27] @ '' or '' @ [CHR 0x27]
              @ ''mnt'' @ [CHR 0x27]), f))"

definition ParseNamespace :: "string list \<Rightarrow> 'f service \<Rightarrow> (string + unit) \<times> 'f service" where
  "ParseNamespace args s =
     (case parse_namespace (tl args) (namespace_flags s) of (r, f) \<Rightarrow> (r, s\<lparr>namespace_flags := f\<rparr>))"

definition ParseOomScoreAdjust :: "'f svc_lib \<Rightarrow> string list \<Rightarrow> 'f service \<Rightarrow> (string + unit) \<times> 'f service" where
  "ParseOomScoreAdjust lib args s =
     (case ParseInt lib (args ! 1) (- 1000) 1000 of
        None \<Rightarrow> (Inl ''oom_score_adjust value must be in range -1000 - +1000'', s)
      | Some v \<Rightarrow> (Inr (), s\<lparr>oom_score_adjust := v\<rparr>))"

definition ParseSeclabel :: "string list \<Rightarrow> 'f service \<Rightarrow> (string + unit) \<times> 'f service" where
  "ParseSeclabel args s = (Inr (), s\<lparr>seclabel := args ! 1\<rparr>)"

definition ParseSetenv :: "string list \<Rightarrow> 'f service \<Rightarrow> (string + unit) \<times> 'f service" where
  "ParseSetenv args s = (Inr (), s\<lparr>envvars := envvars s @ [(args ! 1, args ! 2)]\<rparr>)"

text \<open>
  \<^verbatim>\<open>strtoul(s, 0, 8)\<close> as an \<^verbatim>\<open>int\<close>: reduced modulo \<open>2 ^ 32\<close> and read as signed. The search for
  an older descriptor compares the address of the new one, which is in no list yet.
\<close>

definition strtoul8 :: "string \<Rightarrow> int" where
  "strtoul8 s0 =
     (let s = dropWhile isspace (c_str s0);
          neg = (s \<noteq> [] \<and> hd s = CHR ''-'');
          u = (if s \<noteq> [] \<and> (hd s = CHR ''-'' \<or> hd s = CHR ''+'') then tl s else s);
          v = read_digits 8 0 u
      in sint (word_of_int (if v > ULONG_MAX then ULONG_MAX else if neg then - v else v) :: u32))"

definition AddDescriptor ::
  "descriptor_kind \<Rightarrow> 'f svc_lib \<Rightarrow> string list \<Rightarrow> 'f service \<Rightarrow> (string + unit) \<times> 'f service" where
  "AddDescriptor kind lib args s =
     (Inr (), s\<lparr>descriptors := descriptors s @
        [\<lparr>d_kind = kind, d_name = args ! 1, d_type = args ! 2,
          d_uid = (if length args > 4 then decode_uid (getpwnam lib) (args ! 4) else 0),
          d_gid = (if length args > 5 then decode_uid (getpwnam lib) (args ! 5) else 0),
          d_perm = (if length args > 3 then strtoul8 (args ! 3) else - 1),
          d_context = (if length args > 6 then args ! 6 else [])\<rparr>]\<rparr>)"

definition ParseSocket :: "'f svc_lib \<Rightarrow> string list \<Rightarrow> 'f service \<Rightarrow> (string + unit) \<times> 'f service" where
  "ParseSocket lib args s =
     (if args ! 2 \<noteq> ''dgram'' \<and> args ! 2 \<noteq> ''stream'' \<and> args ! 2 \<noteq> ''seqpacket''
      then (Inl (''socket type must be '' @ [CHR 0x27] @ ''dgram'' @ [CHR 0x27] @ '', '' @ [CHR 0x27]
              @ ''stream'' @ [CHR 0x27] @ '' or '' @ [CHR 0x27] @ ''seqpacket'' @ [CHR 0x27]), s)
      else AddDescriptor SocketInfo lib args s)"

definition ParseFile :: "'f svc_lib \<Rightarrow> string list \<Rightarrow> 'f service \<Rightarrow> (string + unit) \<times> 'f service" where
  "ParseFile lib args s =
     (if args ! 2 \<noteq> ''r'' \<and> args ! 2 \<noteq> ''w'' \<and> args ! 2 \<noteq> ''rw''
      then (Inl (''file type must be '' @ [CHR 0x27] @ ''r'' @ [CHR 0x27] @ '', '' @ [CHR 0x27]
              @ ''w'' @ [CHR 0x27] @ '' or '' @ [CHR 0x27] @ ''rw'' @ [CHR 0x27]), s)
      else if take 1 (args ! 1) \<noteq> ''/'' \<or> sublist ''../'' (args ! 1)
      then (Inl ''file name must not be relative'', s)
      else AddDescriptor FileInfo lib args s)"

definition ParseUser :: "'f svc_lib \<Rightarrow> string list \<Rightarrow> 'f service \<Rightarrow> (string + unit) \<times> 'f service" where
  "ParseUser lib args s = (Inr (), s\<lparr>svc_uid := decode_uid (getpwnam lib) (args ! 1)\<rparr>)"

definition ParseWritepid :: "string list \<Rightarrow> 'f service \<Rightarrow> (string + unit) \<times> 'f service" where
  "ParseWritepid args s = (Inr (), s\<lparr>writepid_files := tl args\<rparr>)"

definition option_parsers ::
  "'f svc_lib \<Rightarrow> (string list \<Rightarrow> 'f service \<Rightarrow> (string + unit) \<times> 'f service) keyword_map" where
  "option_parsers lib = map_of
     [(''capabilities'', 1, kMax, ParseCapabilities lib),
      (''class'', 1, kMax, ParseClass),
      (''console'', 0, 1, ParseConsole),
      (''critical'', 0, 0, ParseCritical),
      (''disabled'', 0, 0, ParseDisabled),
      (''group'', 1, NR_SVC_SUPP_GIDS + 1, ParseGroup lib),
      (''ioprio'', 2, 2, ParseIoprio lib),
      (''priority'', 1, 1, ParsePriority lib),
      (''keycodes'', 1, kMax, ParseKeycodes lib),
      (''oneshot'', 0, 0, ParseOneshot),
      (''onrestart'', 1, kMax, ParseOnrestart lib),
      (''oom_score_adjust'', 1, 1, ParseOomScoreAdjust lib),
      (''namespace'', 1, 2, ParseNamespace),
      (''seclabel'', 1, 1, ParseSeclabel),
      (''setenv'', 2, 2, ParseSetenv),
      (''socket'', 3, 6, ParseSocket lib),
      (''file'', 2, 2, ParseFile lib),
      (''user'', 1, 1, ParseUser lib),
      (''writepid'', 1, kMax, ParseWritepid)]"

definition ParseLine :: "'f svc_lib \<Rightarrow> string list \<Rightarrow> 'f service \<Rightarrow> (string + unit) \<times> 'f service" where
  "ParseLine lib args s =
     (if args = [] then (Inl ''option needed, but not provided'', s)
      else (case FindFunction (option_parsers lib) (hd args) (length args - 1) of
              Inl err \<Rightarrow> (Inl err, s)
            | Inr parser \<Rightarrow> parser args s))"

section \<open>The service manager\<close>

text \<open>
  \<open>exec_waiter\<close> says whether the timer of a pending \<^verbatim>\<open>exec\<close> exists. A service is found by its
  name; names are unique (see the lemmas), so a pointer to a service is its name.
\<close>

record 'f service_manager =
  services :: "'f service list"
  exec_waiter :: bool
  exec_count :: nat

definition new_service_manager :: "'f service_manager" where
  "new_service_manager = \<lparr>services = [], exec_waiter = False, exec_count = 0\<rparr>"

definition FindServiceByName :: "string \<Rightarrow> 'f service_manager \<Rightarrow> 'f service option" where
  "FindServiceByName name sm = List.find (\<lambda>s. name = svc_name s) (services sm)"

definition FindServiceByPid :: "int \<Rightarrow> 'f service_manager \<Rightarrow> 'f service option" where
  "FindServiceByPid pid sm = List.find (\<lambda>s. svc_pid s = pid) (services sm)"

definition FindServiceByKeychord :: "int \<Rightarrow> 'f service_manager \<Rightarrow> 'f service option" where
  "FindServiceByKeychord kc sm = List.find (\<lambda>s. keychord_id s = kc) (services sm)"

definition AddService :: "'f service \<Rightarrow> 'f service_manager \<Rightarrow> 'f service_manager" where
  "AddService s sm =
     (if FindServiceByName (svc_name s) sm \<noteq> None then sm
      else sm\<lparr>services := services sm @ [s]\<rparr>)"

fun remove_named :: "string \<Rightarrow> 'f service list \<Rightarrow> 'f service list" where
  "remove_named n [] = []"
| "remove_named n (s # ss) = (if n = svc_name s then ss else s # remove_named n ss)"

definition RemoveService :: "string \<Rightarrow> 'f service_manager \<Rightarrow> 'f service_manager" where
  "RemoveService n sm = sm\<lparr>services := remove_named n (services sm)\<rparr>"

text \<open>An operation on the service with a given name, in place.\<close>

fun put_service :: "'f service \<Rightarrow> 'f service list \<Rightarrow> 'f service list" where
  "put_service s [] = []"
| "put_service s (t # ts) = (if svc_name t = svc_name s then s # ts else t # put_service s ts)"

definition update_service :: "'f service \<Rightarrow> 'f service_manager \<Rightarrow> 'f service_manager" where
  "update_service s sm = sm\<lparr>services := put_service s (services sm)\<rparr>"

text \<open>\<^verbatim>\<open>command_arg\<close>: the position after the first \<^verbatim>\<open>--\<close>, or 1.\<close>

fun find_dashes :: "nat \<Rightarrow> string list \<Rightarrow> nat" where
  "find_dashes i [] = 1"
| "find_dashes i (a # as) = (if a = ''--'' then i + 1 else find_dashes (i + 1) as)"

definition MakeExecOneshotService ::
  "'f svc_lib \<Rightarrow> string list \<Rightarrow> 'f service_manager \<Rightarrow> ('f service \<times> 'f service_manager) option" where
  "MakeExecOneshotService lib args sm =
     (let command_arg = find_dashes 1 (tl args) in
      if command_arg > 4 + NR_SVC_SUPP_GIDS then None
      else if command_arg \<ge> length args then None
      else
       let str_args = drop command_arg args;
           n = exec_count sm + 1;
           name = ''exec '' @ show_nat n @ '' ('' @ c_str (hd str_args) @ '')'';
           label = (if command_arg > 2 \<and> args ! 1 \<noteq> ''-'' then args ! 1 else []);
           uid = (if command_arg > 3 then decode_uid (getpwnam lib) (args ! 2) else 0);
           gid = (if command_arg > 4 then decode_uid (getpwnam lib) (args ! 3) else 0);
           gids = (if command_arg > 4
                   then map (\<lambda>i. decode_uid (getpwnam lib) (args ! (4 + i))) [0..<command_arg - 5]
                   else []);
           svc = mk_service_full name (SVC_EXEC OR SVC_ONESHOT OR SVC_TEMPORARY) uid gid gids {} 0
                   label str_args
       in Some (svc, sm\<lparr>services := services sm @ [svc], exec_count := n\<rparr>))"

definition Exec ::
  "'f svc_lib \<Rightarrow> service_env \<Rightarrow> string list \<Rightarrow> 'f service_manager
   \<Rightarrow> bool \<times> 'f service_manager \<times> 'f svc_effect list" where
  "Exec lib env args sm =
     (case MakeExecOneshotService lib args sm of
        None \<Rightarrow> (False, sm, [])
      | Some (svc, sm1) \<Rightarrow>
         (case Service_ExecStart env svc of
            (ok, svc', es, waiting) \<Rightarrow>
              let sm2 = (update_service svc' sm1)\<lparr>exec_waiter := waiting\<rparr> in
              if ok then (True, sm2, es) else (False, RemoveService (svc_name svc) sm2, es)))"

definition ExecStart ::
  "service_env \<Rightarrow> string \<Rightarrow> 'f service_manager \<Rightarrow> bool \<times> 'f service_manager \<times> 'f svc_effect list" where
  "ExecStart env name sm =
     (case FindServiceByName name sm of
        None \<Rightarrow> (False, sm, [])
      | Some svc \<Rightarrow>
         (case Service_ExecStart env svc of
            (ok, svc', es, waiting) \<Rightarrow> (ok, (update_service svc' sm)\<lparr>exec_waiter := waiting\<rparr>, es)))"

definition IsWaitingForExec :: "'f service_manager \<Rightarrow> bool" where
  "IsWaitingForExec sm = exec_waiter sm"

fun for_each :: "('f service \<Rightarrow> bool) \<Rightarrow> ('f service \<Rightarrow> 'f service \<times> 'f svc_effect list) \<Rightarrow> 'f service list
   \<Rightarrow> 'f service list \<times> 'f svc_effect list" where
  "for_each P f [] = ([], [])"
| "for_each P f (s # ss) =
     (case (if P s then f s else (s, [])) of (s', es) \<Rightarrow>
        (case for_each P f ss of (ss', es') \<Rightarrow> (s' # ss', es @ es')))"

definition ForEachService ::
  "('f service \<Rightarrow> 'f service \<times> 'f svc_effect list) \<Rightarrow> 'f service_manager
   \<Rightarrow> 'f service_manager \<times> 'f svc_effect list" where
  "ForEachService f sm =
     (case for_each (\<lambda>_. True) f (services sm) of (ss, es) \<Rightarrow> (sm\<lparr>services := ss\<rparr>, es))"

definition ForEachServiceInClass ::
  "string \<Rightarrow> ('f service \<Rightarrow> 'f service \<times> 'f svc_effect list) \<Rightarrow> 'f service_manager
   \<Rightarrow> 'f service_manager \<times> 'f svc_effect list" where
  "ForEachServiceInClass c f sm =
     (case for_each (\<lambda>s. c \<in> classnames s) f (services sm) of (ss, es) \<Rightarrow> (sm\<lparr>services := ss\<rparr>, es))"

definition ForEachServiceWithFlags ::
  "u32 \<Rightarrow> ('f service \<Rightarrow> 'f service \<times> 'f svc_effect list) \<Rightarrow> 'f service_manager
   \<Rightarrow> 'f service_manager \<times> 'f svc_effect list" where
  "ForEachServiceWithFlags matchflags f sm =
     (case for_each (\<lambda>s. has_flag s matchflags) f (services sm) of (ss, es) \<Rightarrow> (sm\<lparr>services := ss\<rparr>, es))"

text \<open>
  \<open>pid\<close> is the answer of \<^verbatim>\<open>waitpid\<close>. Outer \<open>None\<close>: the log message of a service with
  \<^verbatim>\<open>SVC_EXEC\<close> follows the null pointer \<^verbatim>\<open>exec_waiter_\<close>.
\<close>

definition ReapOneProcess ::
  "service_env \<Rightarrow> int \<Rightarrow> 'f service_manager \<Rightarrow> (bool \<times> 'f service_manager \<times> 'f svc_effect list) option" where
  "ReapOneProcess env pid sm =
     (if pid = 0 \<or> pid = - 1 then Some (False, sm, [])
      else
       (case FindServiceByPid pid sm of
          None \<Rightarrow> Some (True, sm, [])
        | Some svc \<Rightarrow>
           if has_flag svc SVC_EXEC \<and> \<not> exec_waiter sm then None
           else
            (case Reap env svc of
               (svc', es) \<Rightarrow>
                 let sm1 = update_service svc' sm;
                     sm2 = (if has_flag svc' SVC_EXEC then sm1\<lparr>exec_waiter := False\<rparr> else sm1);
                     sm3 = (if has_flag svc' SVC_TEMPORARY then RemoveService (svc_name svc') sm2 else sm2)
                 in Some (True, sm3, es))))"

text \<open>
  The loop takes the answers of \<^verbatim>\<open>waitpid\<close> one by one; it stops at the first that is 0 or -1.
\<close>

fun ReapAnyOutstandingChildren ::
  "service_env \<Rightarrow> int list \<Rightarrow> 'f service_manager \<Rightarrow> ('f service_manager \<times> 'f svc_effect list) option" where
  "ReapAnyOutstandingChildren env [] sm = Some (sm, [])"
| "ReapAnyOutstandingChildren env (pid # pids) sm =
     (case ReapOneProcess env pid sm of
        None \<Rightarrow> None
      | Some (False, sm', es) \<Rightarrow> Some (sm', es)
      | Some (True, sm', es) \<Rightarrow>
         (case ReapAnyOutstandingChildren env pids sm' of
            None \<Rightarrow> None
          | Some (sm'', es') \<Rightarrow> Some (sm'', es @ es')))"

section \<open>The section parser\<close>

definition IsValidName :: "string \<Rightarrow> bool" where
  "IsValidName name = (is_legal_property_name (''init.svc.'' @ name) \<and> length name \<le> PROP_VALUE_MAX)"

definition ServiceParser_ParseSection ::
  "string list \<Rightarrow> 'f service option \<Rightarrow> (string + unit) \<times> 'f service option" where
  "ServiceParser_ParseSection args cur =
     (if length args < 3 then (Inl ''services must have a name and a program'', cur)
      else if \<not> IsValidName (args ! 1)
      then (Inl (''invalid service name '' @ [CHR 0x27] @ args ! 1 @ [CHR 0x27]), cur)
      else (Inr (), Some (mk_service (args ! 1) (drop 2 args))))"

definition ServiceParser_ParseLineSection ::
  "'f svc_lib \<Rightarrow> string list \<Rightarrow> 'f service option \<Rightarrow> (string option + unit) \<times> 'f service option" where
  "ServiceParser_ParseLineSection lib args cur =
     (case cur of
        None \<Rightarrow> (Inl None, None)
      | Some s \<Rightarrow>
         (case ParseLine lib args s of
            (Inl err, s') \<Rightarrow> (Inl (Some err), Some s')
          | (Inr (), s') \<Rightarrow> (Inr (), Some s')))"

definition ServiceParser_EndSection ::
  "'f service option \<Rightarrow> 'f service_manager \<Rightarrow> 'f service option \<times> 'f service_manager" where
  "ServiceParser_EndSection cur sm =
     (case cur of None \<Rightarrow> (None, sm) | Some s \<Rightarrow> (None, AddService s sm))"

end
