(* ===== verification/Service_Correct.thy ===== *)
theory Service_Correct
  imports Service Property_Service_Correct
begin

text \<open>
  Lemmas on services and the service manager: how the flags move, that a service is marked
  running exactly while it has a process, what follows the end of a process, the crash
  counter of critical services, the order of the calls that drop privileges, uniqueness of
  names and the life of an \<^verbatim>\<open>exec\<close>.
\<close>

section \<open>Flags\<close>

lemma and_or_eq_0: "x AND (f OR g) = 0 \<longleftrightarrow> x AND f = 0 \<and> x AND g = (0 :: u32)"
  by (simp add: bit.conj_disj_distrib or_eq_0_iff)

lemma has_flag_or [simp]: "has_flag s (f OR g) \<longleftrightarrow> has_flag s f \<or> has_flag s g"
  by (auto simp: has_flag_def and_or_eq_0)

lemma has_flag_set [simp]: "has_flag (set_flags f s) g \<longleftrightarrow> has_flag s g \<or> f AND g \<noteq> 0"
  by (simp add: has_flag_def set_flags_def bit.conj_disj_distrib2 or_eq_0_iff)

lemma has_flag_clear [simp]: "has_flag (clear_flags f s) g \<longleftrightarrow> has_flag s (g AND NOT f)"
  by (simp add: has_flag_def clear_flags_def ac_simps)

lemma has_flag_0 [simp]: "\<not> has_flag s 0"
  by (simp add: has_flag_def)

lemma set_flags_sel [simp]:
  "svc_pid (set_flags f s) = svc_pid s" "svc_name (set_flags f s) = svc_name s"
  "svc_pid (clear_flags f s) = svc_pid s" "svc_name (clear_flags f s) = svc_name s"
  "crash_count (set_flags f s) = crash_count s" "crash_count (clear_flags f s) = crash_count s"
  "time_crashed (set_flags f s) = time_crashed s" "time_crashed (clear_flags f s) = time_crashed s"
  by (simp_all add: set_flags_def clear_flags_def)

lemma has_flag_upd [simp]:
  "has_flag (s\<lparr>svc_pid := p\<rparr>) f = has_flag s f"
  "has_flag (s\<lparr>console := c\<rparr>) f = has_flag s f"
  "has_flag (s\<lparr>time_started := t\<rparr>) f = has_flag s f"
  "has_flag (s\<lparr>time_crashed := t\<rparr>) f = has_flag s f"
  "has_flag (s\<lparr>crash_count := n\<rparr>) f = has_flag s f"
  by (simp_all add: has_flag_def)

lemma has_flag_DISABLED_RESET: "has_flag s 65 \<longleftrightarrow> has_flag s 1 \<or> has_flag s 64"
  using has_flag_or[of s 1 64] by simp

definition svc_ok :: "'f service \<Rightarrow> bool" where
  "svc_ok s = (has_flag s SVC_RUNNING \<longleftrightarrow> svc_pid s \<noteq> 0)"

section \<open>The states of a service\<close>

text \<open>
  A service is running exactly while it has a process; one that waits to be restarted is
  neither running nor disabled nor reset.
\<close>

definition svc_inv :: "'f service \<Rightarrow> bool" where
  "svc_inv s =
     (svc_ok s \<and> (has_flag s SVC_RESTARTING \<longrightarrow>
        \<not> has_flag s SVC_RUNNING \<and> \<not> has_flag s SVC_DISABLED \<and> \<not> has_flag s SVC_RESET))"

lemmas svc_simps = svc_inv_def svc_ok_def Let_def start_mask_def svc_flag_defs
  has_flag_DISABLED_RESET

lemma Start_inv: "svc_inv s \<Longrightarrow> fork_pid env \<noteq> 0 \<Longrightarrow> svc_inv (fst (snd (Start env s)))"
  by (auto simp: Start_def svc_simps)

lemma StopOrReset_inv: "svc_inv s \<Longrightarrow> svc_inv (fst (StopOrReset how s))"
  by (auto simp: StopOrReset_def svc_simps)

lemma Reap_inv: "svc_inv s \<Longrightarrow> svc_pid s \<noteq> 0 \<Longrightarrow> svc_inv (fst (Reap env s))"
  by (auto simp: Reap_def svc_simps)

lemma set_EXEC_inv: "svc_inv s \<Longrightarrow> svc_inv (set_flags (SVC_EXEC OR SVC_ONESHOT) s)"
  by (auto simp: svc_simps)

lemma clear_RESTARTING_inv: "svc_inv s \<Longrightarrow> svc_inv (clear_flags SVC_RESTARTING s)"
  by (auto simp: svc_simps)

lemma Enable_inv: "svc_inv s \<Longrightarrow> fork_pid env \<noteq> 0 \<Longrightarrow> svc_inv (fst (snd (Enable env s)))"
proof -
  assume "svc_inv s" and f: "fork_pid env \<noteq> 0"
  then have "svc_inv (clear_flags (SVC_DISABLED OR SVC_RC_DISABLED) s)"
    by (auto simp: svc_simps)
  with f show ?thesis by (simp add: Enable_def Let_def Start_inv)
qed

lemma StartIfNotDisabled_inv:
  "svc_inv s \<Longrightarrow> fork_pid env \<noteq> 0 \<Longrightarrow> svc_inv (fst (snd (StartIfNotDisabled env s)))"
proof -
  assume s: "svc_inv s" and f: "fork_pid env \<noteq> 0"
  then have "svc_inv (set_flags SVC_DISABLED_START s)" by (auto simp: svc_simps)
  with s f show ?thesis by (simp add: StartIfNotDisabled_def Start_inv)
qed

lemma Terminate_inv: "svc_inv s \<Longrightarrow> svc_inv (fst (Terminate s))"
  by (auto simp: Terminate_def svc_simps)

lemma ExecStart_inv:
  "svc_inv s \<Longrightarrow> fork_pid env \<noteq> 0 \<Longrightarrow> svc_inv (fst (snd (Service_ExecStart env s)))"
  using Start_inv[OF set_EXEC_inv, of s env]
  by (auto simp: Service_ExecStart_def split: prod.split bool.split)

text \<open>
  Everything that init does to a service after it has been parsed. \<^verbatim>\<open>Reap\<close> is called for the
  service that has the process the kernel reports.
\<close>

inductive svc_step :: "'f service \<Rightarrow> 'f service \<Rightarrow> bool" where
  step_Start: "fork_pid env \<noteq> 0 \<Longrightarrow> svc_step s (fst (snd (Start env s)))"
| step_StartIfNotDisabled: "fork_pid env \<noteq> 0 \<Longrightarrow> svc_step s (fst (snd (StartIfNotDisabled env s)))"
| step_Enable: "fork_pid env \<noteq> 0 \<Longrightarrow> svc_step s (fst (snd (Enable env s)))"
| step_ExecStart: "fork_pid env \<noteq> 0 \<Longrightarrow> svc_step s (fst (snd (Service_ExecStart env s)))"
| step_Stop: "svc_step s (fst (Stop s))"
| step_Reset: "svc_step s (fst (Reset s))"
| step_Terminate: "svc_step s (fst (Terminate s))"
| step_Restart: "fork_pid env \<noteq> 0 \<Longrightarrow> svc_step s (fst (Restart env s))"
| step_RestartIfNeeded: "fork_pid env \<noteq> 0 \<Longrightarrow> svc_step s (fst (RestartIfNeeded env t n s))"
| step_Reap: "svc_pid s \<noteq> 0 \<Longrightarrow> svc_step s (fst (Reap env s))"

lemma svc_step_inv: "svc_step s s' \<Longrightarrow> svc_inv s \<Longrightarrow> svc_inv s'"
proof (induction rule: svc_step.induct)
  case (step_Restart env s)
  then show ?case
    using Start_inv[of s env] StopOrReset_inv[of s] by (simp add: Restart_def)
next
  case (step_RestartIfNeeded env s t n)
  then show ?case
    using Start_inv[OF clear_RESTARTING_inv, of s env]
    by (auto simp: RestartIfNeeded_def Let_def split: prod.split)
qed (simp_all add: Start_inv StartIfNotDisabled_inv Enable_inv ExecStart_inv Stop_def Reset_def
    StopOrReset_inv Terminate_inv Reap_inv)

lemma svc_steps_inv: "svc_step\<^sup>*\<^sup>* s s' \<Longrightarrow> svc_inv s \<Longrightarrow> svc_inv s'"
  by (induction rule: rtranclp_induct) (auto dest: svc_step_inv)

lemma mk_service_inv: "svc_inv (mk_service name args)"
  by (simp add: svc_simps mk_service_def mk_service_full_def has_flag_def)

lemma Stop_service:
  "fst (Stop s) = set_flags SVC_DISABLED (clear_flags (SVC_RESTARTING OR SVC_DISABLED_START) s)"
  by (simp add: Stop_def StopOrReset_def Let_def SVC_DISABLED_def SVC_RESET_def)

lemma Restart_running:
  "has_flag s SVC_RUNNING \<Longrightarrow>
   fst (Restart env s) = set_flags SVC_RESTART (clear_flags (SVC_RESTARTING OR SVC_DISABLED_START) s)"
  by (simp add: Restart_def StopOrReset_def Let_def SVC_RESTART_def SVC_RESET_def)

lemma Reap_down:
  assumes "\<not> has_flag t SVC_TEMPORARY" "has_flag t SVC_DISABLED \<or> has_flag t SVC_RESET"
  defines "u \<equiv> (let s1 = clear_flags SVC_RUNNING (t\<lparr>svc_pid := 0\<rparr>) in
    if has_flag s1 SVC_ONESHOT \<and> \<not> has_flag s1 SVC_RESTART then set_flags SVC_DISABLED s1 else s1)"
  shows "Reap env t = (u, (if \<not> has_flag t SVC_ONESHOT \<or> has_flag t SVC_RESTART then KillProcessGroup SIGKILL t else [])
    @ map CleanDescriptor (descriptors t) @ NotifyStateChange ''stopped'' u)"
proof -
  have "has_flag u (SVC_DISABLED OR SVC_RESET)"
    using assms(2) by (auto simp: u_def Let_def svc_flag_defs has_flag_DISABLED_RESET)
  then show ?thesis using assms(1) by (simp add: Reap_def Let_def u_def)
qed

lemma Reap_RESTARTING:
  assumes "\<not> has_flag t SVC_TEMPORARY" "has_flag t SVC_RESTART" "\<not> has_flag t SVC_RESTARTING"
  shows "has_flag (fst (Reap env t)) SVC_RESTARTING \<longleftrightarrow> \<not> has_flag t SVC_DISABLED \<and> \<not> has_flag t SVC_RESET"
  using assms
  by (simp add: Reap_def Let_def svc_flag_defs has_flag_DISABLED_RESET)

section \<open>Crashes of critical services\<close>

definition crit :: "'f service \<Rightarrow> bool" where
  "crit s = (has_flag s SVC_CRITICAL \<and> \<not> has_flag s SVC_ONESHOT \<and> \<not> has_flag s SVC_TEMPORARY
     \<and> \<not> has_flag s SVC_DISABLED \<and> \<not> has_flag s SVC_RESET \<and> \<not> has_flag s SVC_RESTART)"

definition env_ok :: "service_env \<Rightarrow> bool" where
  "env_ok env = ((\<forall>p. open_ok env p) \<and> (\<forall>p. stat_ok env p) \<and> (\<forall>n p. compute_context env n p \<noteq> [])
     \<and> fork_pid env > 0)"

text \<open>The process ends and the service is started again.\<close>

definition crash :: "service_env \<Rightarrow> 'f service \<Rightarrow> bool \<times> 'f service" where
  "crash env s = (case Reap env s of (s1, es) \<Rightarrow> (Panic \<in> set es, fst (snd (Start env s1))))"

fun crashes :: "service_env list \<Rightarrow> 'f service \<Rightarrow> bool list" where
  "crashes [] s = []"
| "crashes (env # envs) s = (case crash env s of (p, s') \<Rightarrow> p # crashes envs s')"

lemma Start_crash_sel [simp]:
  "crash_count (fst (snd (Start env s))) = crash_count s"
  "time_crashed (fst (snd (Start env s))) = time_crashed s"
  by (simp_all add: Start_def Let_def)

lemma Start_crit: "crit s \<Longrightarrow> env_ok env \<Longrightarrow> crit (fst (snd (Start env s)))"
  by (auto simp: crit_def env_ok_def Start_def Let_def start_mask_def svc_flag_defs)

lemma crit_flags:
  "crit s \<Longrightarrow> has_flag s 32 \<and> \<not> has_flag s 2 \<and> \<not> has_flag s 4096 \<and> \<not> has_flag s 1
     \<and> \<not> has_flag s 64 \<and> \<not> has_flag s 256"
  by (simp add: crit_def svc_flag_defs)

lemma NotifyStateChange_no_Panic [simp]: "Panic \<notin> set (NotifyStateChange st s)"
  by (simp add: NotifyStateChange_def)

lemma KillProcessGroup_no_Panic [simp]: "Panic \<notin> set (KillProcessGroup sig s)"
  by (simp add: KillProcessGroup_def)

lemma Reap_crit:
  assumes "crit s"
  shows "crit (fst (Reap env s))"
    and "crash_count (fst (Reap env s)) =
      (if boot_now env < time_crashed s + four_minutes then crash_count s + 1 else 1)"
    and "time_crashed (fst (Reap env s)) =
      (if boot_now env < time_crashed s + four_minutes then time_crashed s else boot_now env)"
    and "Panic \<in> set (snd (Reap env s)) \<longleftrightarrow>
      boot_now env < time_crashed s + four_minutes \<and> crash_count s + 1 > 4"
  using crit_flags[OF assms]
  by (simp_all add: crit_def Reap_def Let_def svc_flag_defs has_flag_DISABLED_RESET)
    (auto)

lemma crash_sel:
  assumes "crit s" "env_ok env"
  shows "crit (snd (crash env s))"
    and "crash_count (snd (crash env s)) =
      (if boot_now env < time_crashed s + four_minutes then crash_count s + 1 else 1)"
    and "time_crashed (snd (crash env s)) =
      (if boot_now env < time_crashed s + four_minutes then time_crashed s else boot_now env)"
    and "fst (crash env s) \<longleftrightarrow> boot_now env < time_crashed s + four_minutes \<and> crash_count s + 1 > 4"
  using Reap_crit[OF assms(1), of env] Start_crit[OF _ assms(2), of "fst (Reap env s)"]
  by (simp_all add: crash_def case_prod_beta)

lemma crashes_in_window:
  "crit s \<Longrightarrow> \<forall>env \<in> set envs. env_ok env \<and> boot_now env < time_crashed s + four_minutes \<Longrightarrow>
   crashes envs s = map (\<lambda>k. crash_count s + int k + 1 > 4) [0..<length envs]"
proof (induction envs arbitrary: s)
  case (Cons env envs)
  have env: "env_ok env" "boot_now env < time_crashed s + four_minutes" using Cons.prems by simp_all
  note c = crash_sel[OF Cons.prems(1) env(1)]
  obtain p s' where cr: "crash env s = (p, s')" by (metis surj_pair)
  have "crashes envs s' = map (\<lambda>k. crash_count s' + int k + 1 > 4) [0..<length envs]"
    by (rule Cons.IH) (use Cons.prems c env cr in auto)
  moreover have "crash_count s' = crash_count s + 1" "p \<longleftrightarrow> crash_count s + 1 > 4"
    using c env cr by simp_all
  ultimately show ?case using cr by (simp add: map_upt_Suc algebra_simps del: upt_Suc)
qed simp

section \<open>Names\<close>

lemma show_nat_digits: "c \<in> set (show_nat n) \<Longrightarrow> c \<noteq> CHR '' ''"
proof (induction n rule: show_nat.induct)
  case (1 n)
  have d: "(char_of (48 + k) :: char) \<noteq> CHR '' ''" if "k < 10" for k :: nat
  proof
    assume "(char_of (48 + k) :: char) = CHR '' ''"
    then have "of_char (char_of (48 + k) :: char) = (of_char (CHR '' '') :: nat)" by simp
    then show False using that by simp
  qed
  show ?case
    using 1 d[of n] d[of "n mod 10"] by (subst (asm) (2) show_nat.simps) (auto split: if_splits)
qed

definition digits_val :: "string \<Rightarrow> nat" where
  "digits_val = foldl (\<lambda>v c. 10 * v + (of_char c - 48)) 0"

lemma digits_val_show_nat: "digits_val (show_nat n) = n"
proof (induction n rule: show_nat.induct)
  case (1 n)
  have d: "of_char (char_of (48 + k) :: char) - 48 = k" if "k < 10" for k :: nat
    using that by simp
  show ?case
  proof (cases "n < 10")
    case True
    then show ?thesis using d[of n] by (simp add: show_nat.simps digits_val_def)
  next
    case False
    have "digits_val (show_nat n) = 10 * digits_val (show_nat (n div 10)) + n mod 10"
      using False d[of "n mod 10"] by (subst show_nat.simps) (simp add: digits_val_def)
    then show ?thesis using 1 False by simp
  qed
qed

definition exec_name :: "nat \<Rightarrow> string \<Rightarrow> string" where
  "exec_name n cmd = ''exec '' @ show_nat n @ '' ('' @ cmd @ '')''"

lemma exec_name_inj: "exec_name n c = exec_name m d \<Longrightarrow> n = m"
proof -
  assume "exec_name n c = exec_name m d"
  then have e: "show_nat n @ CHR '' '' # ''('' @ c @ '')'' = show_nat m @ CHR '' '' # ''('' @ d @ '')''"
    by (simp add: exec_name_def)
  have t: "takeWhile (\<lambda>x. x \<noteq> CHR '' '') (show_nat k @ CHR '' '' # r) = show_nat k" for k r
    by (subst takeWhile_append2) (auto dest: show_nat_digits)
  from e have "show_nat n = show_nat m" by (metis t)
  then show "n = m" by (metis digits_val_show_nat)
qed

definition sm_ok :: "'f service_manager \<Rightarrow> bool" where
  "sm_ok sm =
     (distinct (map svc_name (services sm))
      \<and> (\<forall>x \<in> set (map svc_name (services sm)). CHR '' '' \<notin> set x
           \<or> (\<exists>n c. n \<le> exec_count sm \<and> x = exec_name n c)))"

lemma put_service_names [simp]: "map svc_name (put_service s ss) = map svc_name ss"
  by (induction ss) auto

lemma sm_ok_names:
  "map svc_name (services sm') = map svc_name (services sm) \<Longrightarrow> exec_count sm' = exec_count sm \<Longrightarrow>
   sm_ok sm' = sm_ok sm"
  by (simp only: sm_ok_def)

lemma remove_named_subset: "set (remove_named n ss) \<subseteq> set ss"
  by (induction ss) auto

lemma remove_named_distinct: "distinct (map svc_name ss) \<Longrightarrow> distinct (map svc_name (remove_named n ss))"
  by (induction ss) (auto dest: subsetD[OF remove_named_subset])

lemma RemoveService_ok: "sm_ok sm \<Longrightarrow> sm_ok (RemoveService n sm)"
  using remove_named_subset[of n "services sm"] remove_named_distinct[of "services sm" n]
  by (auto simp: sm_ok_def RemoveService_def)

lemma find_None_notin: "FindServiceByName n sm = None \<Longrightarrow> n \<notin> svc_name ` set (services sm)"
  by (auto simp: FindServiceByName_def find_None_iff)

lemma AddService_ok: "sm_ok sm \<Longrightarrow> CHR '' '' \<notin> set (svc_name s) \<Longrightarrow> sm_ok (AddService s sm)"
  using find_None_notin[of "svc_name s" sm]
  by (auto simp: sm_ok_def AddService_def)

lemma Reap_name [simp]: "svc_name (fst (Reap env s)) = svc_name s"
  by (simp add: Reap_def Let_def)

lemma Start_name [simp]: "svc_name (fst (snd (Start env s))) = svc_name s"
  by (simp add: Start_def Let_def)

lemma Service_ExecStart_name: "Service_ExecStart env s = (ok, s', es, w) \<Longrightarrow> svc_name s' = svc_name s"
proof -
  assume h: "Service_ExecStart env s = (ok, s', es, w)"
  obtain b t e where st: "Start env (set_flags (SVC_EXEC OR SVC_ONESHOT) s) = (b, t, e)"
    by (metis surj_pair)
  have "svc_name t = svc_name s"
    using Start_name[of env "set_flags (SVC_EXEC OR SVC_ONESHOT) s"] unfolding st by simp
  moreover have "s' = t" using h unfolding Service_ExecStart_def st by (cases b) auto
  ultimately show "svc_name s' = svc_name s" by simp
qed

lemma MakeExec_ok:
  assumes "sm_ok sm" "MakeExecOneshotService lib args sm = Some (svc, sm')"
  shows "sm_ok sm' \<and> services sm' = services sm @ [svc]
    \<and> svc_flags svc = SVC_EXEC OR SVC_ONESHOT OR SVC_TEMPORARY \<and> svc_pid svc = 0
    \<and> svc_name svc \<notin> svc_name ` set (services sm) \<and> exec_waiter sm' = exec_waiter sm"
proof -
  obtain c where svc: "svc_name svc = exec_name (Suc (exec_count sm)) c"
    and sm': "sm' = sm\<lparr>services := services sm @ [svc], exec_count := Suc (exec_count sm)\<rparr>"
    and f: "svc_flags svc = SVC_EXEC OR SVC_ONESHOT OR SVC_TEMPORARY" "svc_pid svc = 0"
    using assms(2)
    by (auto simp: MakeExecOneshotService_def Let_def mk_service_full_def exec_name_def split: if_splits)
  have old: "CHR '' '' \<notin> set x \<or> (\<exists>n d. n \<le> exec_count sm \<and> x = exec_name n d)"
    if "x \<in> svc_name ` set (services sm)" for x
    using assms(1) that by (auto simp: sm_ok_def)
  have new: "svc_name svc \<notin> svc_name ` set (services sm)"
  proof
    assume "svc_name svc \<in> svc_name ` set (services sm)"
    from old[OF this] consider "CHR '' '' \<notin> set (svc_name svc)"
      | n d where "n \<le> exec_count sm" "svc_name svc = exec_name n d" by blast
    then show False
    proof cases
      case 1
      then show False by (simp add: svc exec_name_def)
    next
      case (2 n d)
      then show False using exec_name_inj[of "Suc (exec_count sm)" c n d] svc by simp
    qed
  qed
  have "CHR '' '' \<notin> set x \<or> (\<exists>n d. n \<le> Suc (exec_count sm) \<and> x = exec_name n d)"
    if "x \<in> svc_name ` set (services sm) \<or> x = svc_name svc" for x
    using that old[of x] svc le_SucI by blast
  then have "sm_ok sm'"
    using assms(1) new unfolding sm_ok_def sm' by simp
  then show ?thesis using new f by (simp add: sm')
qed

lemma update_service_ok: "sm_ok sm \<Longrightarrow> sm_ok (update_service t sm)"
  using sm_ok_names[of "update_service t sm" sm] by (simp add: update_service_def)

lemma exec_waiter_ok [simp]: "sm_ok (sm\<lparr>exec_waiter := w\<rparr>) = sm_ok sm"
  by (simp add: sm_ok_def)

lemma Exec_names_ok:
  assumes "sm_ok sm"
  shows "sm_ok (fst (snd (Exec lib env args sm)))"
proof (cases "MakeExecOneshotService lib args sm")
  case None
  then show ?thesis using assms by (simp add: Exec_def)
next
  case (Some r)
  obtain svc sm1 where r: "r = (svc, sm1)" by (cases r)
  have ok: "sm_ok sm1" using MakeExec_ok[OF assms] Some r by blast
  obtain b t es w where e: "Service_ExecStart env svc = (b, t, es, w)" by (metis surj_pair)
  have "sm_ok ((update_service t sm1)\<lparr>exec_waiter := w\<rparr>)"
    using update_service_ok[OF ok] by simp
  then show ?thesis
    using Some r e RemoveService_ok[of "(update_service t sm1)\<lparr>exec_waiter := w\<rparr>" "svc_name svc"]
    by (simp add: Exec_def Let_def)
qed

lemma ReapOneProcess_names_ok:
  assumes "sm_ok sm"
  shows "ReapOneProcess env pid sm = Some (b, sm', es) \<longrightarrow> sm_ok sm'"
proof (cases "FindServiceByPid pid sm")
  case None
  then show ?thesis using assms by (auto simp: ReapOneProcess_def)
next
  case (Some svc)
  define t where "t = fst (Reap env svc)"
  have u: "sm_ok (update_service t sm)" by (rule update_service_ok[OF assms])
  then have u': "sm_ok ((update_service t sm)\<lparr>exec_waiter := False\<rparr>)" by simp
  show ?thesis
    using assms Some u u' RemoveService_ok[OF u] RemoveService_ok[OF u']
    by (auto simp: ReapOneProcess_def Let_def case_prod_beta t_def[symmetric])
qed

lemma put_service_last:
  "svc_name t = svc_name s \<Longrightarrow> svc_name s \<notin> svc_name ` set ss \<Longrightarrow> put_service t (ss @ [s]) = ss @ [t]"
  by (induction ss) auto

lemma remove_named_last:
  "svc_name s \<notin> svc_name ` set ss \<Longrightarrow> remove_named (svc_name s) (ss @ [s]) = ss"
  by (induction ss) auto

lemma find_append_last: "\<forall>s \<in> set ss. \<not> P s \<Longrightarrow> P t \<Longrightarrow> List.find P (ss @ [t]) = Some t"
  by (induction ss) auto

lemma Start_success:
  "Start env s = (True, t, es) \<Longrightarrow>
   svc_pid t = fork_pid env \<and> svc_name t = svc_name s
   \<and> svc_flags t = (svc_flags s AND NOT start_mask) OR SVC_RUNNING"
  by (auto simp: Start_def Let_def set_flags_def clear_flags_def split: if_splits)

section \<open>The options of a service\<close>

definition option_flags :: u32 where
  "option_flags = SVC_CONSOLE OR SVC_CRITICAL OR SVC_DISABLED OR SVC_RC_DISABLED OR SVC_ONESHOT"

text \<open>What no option changes.\<close>

definition same_identity :: "'f service \<Rightarrow> 'f service \<Rightarrow> bool" where
  "same_identity s s' =
     (svc_name s' = svc_name s \<and> svc_args s' = svc_args s \<and> svc_pid s' = svc_pid s
      \<and> svc_flags s' AND NOT option_flags = svc_flags s AND NOT option_flags)"

lemma same_identity_set_flags:
  "f AND NOT option_flags = 0 \<Longrightarrow> same_identity s (set_flags f s)"
  by (simp add: same_identity_def set_flags_def bit.conj_disj_distrib2)

lemma option_identity:
  "same_identity s (snd (ParseCapabilities lib args s))"
  "same_identity s (snd (ParseClass args s))"
  "same_identity s (snd (ParseConsole args s))"
  "same_identity s (snd (ParseCritical args s))"
  "same_identity s (snd (ParseDisabled args s))"
  "same_identity s (snd (ParseGroup lib args s))"
  "same_identity s (snd (ParseIoprio lib args s))"
  "same_identity s (snd (ParsePriority lib args s))"
  "same_identity s (snd (ParseKeycodes lib args s))"
  "same_identity s (snd (ParseOneshot args s))"
  "same_identity s (snd (ParseOnrestart lib args s))"
  "same_identity s (snd (ParseOomScoreAdjust lib args s))"
  "same_identity s (snd (ParseNamespace args s))"
  "same_identity s (snd (ParseSeclabel args s))"
  "same_identity s (snd (ParseSetenv args s))"
  "same_identity s (snd (AddDescriptor kind lib args s))"
  "same_identity s (snd (ParseUser lib args s))"
  "same_identity s (snd (ParseWritepid args s))"
  by (simp_all add: same_identity_def ParseCapabilities_def ParseClass_def ParseConsole_def
      ParseCritical_def ParseDisabled_def ParseGroup_def ParsePriority_def ParseIoprio_def
      ParseKeycodes_def ParseOneshot_def ParseOnrestart_def ParseNamespace_def
      ParseOomScoreAdjust_def ParseSeclabel_def ParseSetenv_def AddDescriptor_def ParseUser_def
      ParseWritepid_def set_flags_def option_flags_def svc_flag_defs Let_def
      bit.conj_disj_distrib2 case_prod_beta split: option.split sum.split)

lemma same_identity_refl [simp]: "same_identity s s"
  by (simp add: same_identity_def)

lemma option_identity_descriptor:
  "same_identity s (snd (ParseSocket lib args s))" "same_identity s (snd (ParseFile lib args s))"
  by (simp_all add: ParseSocket_def ParseFile_def option_identity)

lemma option_parser_identity:
  assumes "option_parsers lib k = Some (lo, hi, f)"
  shows "same_identity s (snd (f args s))"
proof -
  have "f \<in> {ParseCapabilities lib, ParseClass, ParseConsole, ParseCritical, ParseDisabled,
      ParseGroup lib, ParseIoprio lib, ParsePriority lib, ParseKeycodes lib, ParseOneshot,
      ParseOnrestart lib, ParseOomScoreAdjust lib, ParseNamespace, ParseSeclabel, ParseSetenv,
      ParseSocket lib, ParseFile lib, ParseUser lib, ParseWritepid}"
    using map_of_SomeD[OF assms[unfolded option_parsers_def]] by auto
  then show ?thesis
    using option_identity option_identity_descriptor by (elim insertE emptyE) simp_all
qed

section \<open>Properties\<close>

text \<open>A service, and an environment in which every start succeeds.\<close>

definition sample_service :: "unit service" where
  "sample_service = mk_service ''svc'' [''/bin/svc'']"

definition sample_senv :: "int \<Rightarrow> int \<Rightarrow> service_env" where
  "sample_senv pid t = \<lparr>default_console = ''/dev/console'', open_ok = (\<lambda>_. True), stat_ok = (\<lambda>_. True),
     compute_context = (\<lambda>_ _. ''u:r:svc:s0''), fork_pid = pid, boot_now = t\<rparr>"

lemma sample_service_flags [simp]: "\<not> has_flag sample_service f"
  by (simp add: sample_service_def mk_service_def mk_service_full_def has_flag_def)



text \<open>
  C26. A service that is stopped stays down when its process ends: it is disabled, not waiting
  to be restarted, its \<^verbatim>\<open>onrestart\<close> commands do not run, and the last thing done is to set its
  state property to \<^verbatim>\<open>stopped\<close>. A service that is restarted while it runs is marked for a
  restart when its process ends, unless it had been disabled or reset before.
\<close>

theorem stop_and_restart_after_reap:
  assumes "\<not> has_flag s SVC_TEMPORARY"
  shows "(has_flag (fst (Reap env (fst (Stop s)))) SVC_DISABLED
      \<and> \<not> has_flag (fst (Reap env (fst (Stop s)))) SVC_RESTARTING
      \<and> \<not> has_flag (fst (Reap env (fst (Stop s)))) SVC_RUNNING
      \<and> (\<forall>cs. RunCommands cs \<notin> set (snd (Reap env (fst (Stop s)))))
      \<and> last (snd (Reap env (fst (Stop s)))) = PropertySet (''init.svc.'' @ svc_name s) ''stopped'')
    \<and> (has_flag s SVC_RUNNING \<longrightarrow>
        has_flag (fst (Reap env (fst (Restart env s)))) SVC_RESTARTING =
          (\<not> has_flag s SVC_DISABLED \<and> \<not> has_flag s SVC_RESET))"
proof -
  have st: "\<not> has_flag (fst (Stop s)) SVC_TEMPORARY" "has_flag (fst (Stop s)) SVC_DISABLED"
    "\<not> has_flag (fst (Stop s)) SVC_RESTARTING"
    using assms unfolding Stop_service by (simp_all add: svc_flag_defs)
  note rd = Reap_down[OF st(1) disjI1[OF st(2)]]
  have "has_flag s SVC_RUNNING \<Longrightarrow> has_flag (fst (Reap env (fst (Restart env s)))) SVC_RESTARTING \<longleftrightarrow>
      \<not> has_flag s SVC_DISABLED \<and> \<not> has_flag s SVC_RESET"
    using assms by (subst Reap_RESTARTING) (simp_all add: Restart_running svc_flag_defs)
  then show ?thesis
    using st assms unfolding rd
    by (auto simp: Let_def svc_flag_defs NotifyStateChange_def KillProcessGroup_def Stop_service)
qed

theorem stop_and_restart_after_reap_witness:
  "has_flag (fst (Reap (sample_senv 7 0) (fst (Stop sample_service)))) SVC_DISABLED"
  using stop_and_restart_after_reap[of sample_service "sample_senv 7 0"] by simp

text \<open>
  C25. The crash counter. When the process of a critical service ends again and again, each
  time within four minutes of the first end, and the service is started again each time,
  then the first four ends are tolerated and every further one asks for a reboot.
\<close>

theorem critical_service_panics_at_fifth_crash:
  assumes "crit s" "\<forall>e \<in> set (env # envs). env_ok e"
    and "boot_now env \<ge> time_crashed s + four_minutes"
    and "\<forall>e \<in> set envs. boot_now e < boot_now env + four_minutes"
  shows "crashes (env # envs) s = map (\<lambda>k. k \<ge> 4) [0..<length (env # envs)]"
proof -
  have env: "env_ok env" using assms(2) by simp
  note c = crash_sel[OF assms(1) env]
  obtain p s' where cr: "crash env s = (p, s')" by (metis surj_pair)
  have s': "crit s'" "crash_count s' = 1" "time_crashed s' = boot_now env" "\<not> p"
    using c assms(3) cr by simp_all
  have "crashes envs s' = map (\<lambda>k. crash_count s' + int k + 1 > 4) [0..<length envs]"
    by (rule crashes_in_window) (use s' assms in auto)
  then show ?thesis
    using cr s' by (simp add: map_upt_Suc del: upt_Suc) auto
qed

theorem critical_service_panics_at_fifth_crash_witness:
  "crashes (map (sample_senv 7) [240000000000, 1, 2, 3, 4]) (set_flags SVC_CRITICAL sample_service) =
     [False, False, False, False, True]"
proof -
  have "crit (set_flags SVC_CRITICAL sample_service)"
    by (simp add: crit_def svc_flag_defs)
  moreover have "env_ok (sample_senv 7 t)" for t by (simp add: env_ok_def sample_senv_def)
  moreover have "time_crashed (set_flags SVC_CRITICAL sample_service) = 0"
    by (simp add: sample_service_def mk_service_def mk_service_full_def)
  ultimately show ?thesis
    using critical_service_panics_at_fifth_crash[of "set_flags SVC_CRITICAL sample_service"
        "sample_senv 7 240000000000" "map (sample_senv 7) [1, 2, 3, 4]"]
    by (simp add: sample_senv_def four_minutes_def upt_rec)
qed



text \<open>
  C33. Names of services stay unique. Adding a parsed service, creating a service for an
  \<^verbatim>\<open>exec\<close> command, removing a service and reaping a process all keep the names of the services
  different from each other, so that every lookup by name has one answer.
\<close>

theorem service_names_unique:
  assumes "sm_ok sm"
  shows "(CHR '' '' \<notin> set (svc_name s) \<longrightarrow> sm_ok (AddService s sm))
    \<and> sm_ok (fst (snd (Exec lib env args sm))) \<and> sm_ok (RemoveService n sm)
    \<and> (ReapOneProcess env pid sm = Some (b, sm', es) \<longrightarrow> sm_ok sm')"
  using AddService_ok[OF assms] Exec_names_ok[OF assms] RemoveService_ok[OF assms]
    ReapOneProcess_names_ok[OF assms]
  by blast

theorem service_names_unique_witness:
  "sm_ok (AddService sample_service new_service_manager)"
  using service_names_unique[of new_service_manager sample_service]
  by (simp add: sm_ok_def new_service_manager_def sample_service_def mk_service_def mk_service_full_def)

text \<open>
  C35. An \<^verbatim>\<open>exec\<close> blocks until its process ends. After a successful \<^verbatim>\<open>Exec\<close> init waits; when the
  kernel then reports the end of that process, init no longer waits and the temporary service
  is gone again. It relies on the kernel giving the process an id no service has.
\<close>

theorem exec_waits_and_is_removed:
  assumes "sm_ok sm" "Exec lib env args sm = (True, sm1, es)" "fork_pid env > 0"
    and "\<forall>s \<in> set (services sm). svc_pid s \<noteq> fork_pid env"
  shows "IsWaitingForExec sm1
    \<and> (\<exists>sm2 es'. ReapOneProcess env' (fork_pid env) sm1 = Some (True, sm2, es')
        \<and> \<not> IsWaitingForExec sm2 \<and> services sm2 = services sm)"
proof -
  obtain svc sm0 where mk: "MakeExecOneshotService lib args sm = Some (svc, sm0)"
    using assms(2) by (auto simp: Exec_def split: option.splits)
  note mkok = MakeExec_ok[OF assms(1) mk]
  obtain t es0 where st: "Start env (set_flags (SVC_EXEC OR SVC_ONESHOT) svc) = (True, t, es0)"
    and sm1: "sm1 = (update_service t sm0)\<lparr>exec_waiter := True\<rparr>"
    using assms(2) mk
    by (auto simp: Exec_def Service_ExecStart_def Let_def split: prod.splits bool.splits)
  have t: "svc_pid t = fork_pid env" "svc_name t = svc_name svc" "has_flag t SVC_EXEC" "has_flag t SVC_TEMPORARY"
    using Start_success[OF st] mkok
    by (simp_all add: has_flag_def set_flags_def svc_flag_defs start_mask_def)
  have svcs: "services sm1 = services sm @ [t]"
    using mkok t(2) put_service_last[of t svc "services sm"] by (simp add: sm1 update_service_def)
  have find: "FindServiceByPid (fork_pid env) sm1 = Some t"
    unfolding FindServiceByPid_def svcs by (rule find_append_last) (use assms(4) t(1) in auto)
  have reap: "fst (Reap env' t) = t" using t(4) by (simp add: Reap_def Let_def)
  have rem: "remove_named (svc_name t) (services sm @ [t]) = services sm"
    by (rule remove_named_last) (use mkok t(2) in simp)
  have put: "put_service t (services sm @ [t]) = services sm @ [t]"
    using mkok t(2) put_service_last[of t t "services sm"] by simp
  obtain es' where rp: "Reap env' t = (t, es')" using reap by (cases "Reap env' t") simp
  have "ReapOneProcess env' (fork_pid env) sm1 =
      Some (True, RemoveService (svc_name t) ((update_service t sm1)\<lparr>exec_waiter := False\<rparr>), es')"
    using assms(3) find t(3,4) rp by (simp add: ReapOneProcess_def Let_def sm1)
  moreover have "services (RemoveService (svc_name t) ((update_service t sm1)\<lparr>exec_waiter := False\<rparr>)) = services sm"
    by (simp add: RemoveService_def update_service_def svcs rem put)
  moreover have "IsWaitingForExec sm1" by (simp add: IsWaitingForExec_def sm1)
  ultimately show ?thesis by (simp add: IsWaitingForExec_def RemoveService_def)
qed

definition sample_lib :: "unit svc_lib" where
  "sample_lib = \<lparr>lib_functions = None, getpwnam = (\<lambda>_. None), ParseInt = (\<lambda>_ _ _. None),
     CapAmbientSupported = True, GetLastValidCap = 37, LookupCap = (\<lambda>_. - 1),
     priority_highest = - 20, priority_lowest = 19\<rparr>"

lemma sample_exec:
  "\<exists>sm1 es. Exec sample_lib (sample_senv 7 0) [''exec'', ''/bin/x''] new_service_manager = (True, sm1, es)"
  by (simp add: Exec_def MakeExecOneshotService_def Service_ExecStart_def Start_def Let_def
      sample_senv_def new_service_manager_def mk_service_full_def has_flag_def set_flags_def
      clear_flags_def start_mask_def svc_flag_defs NR_SVC_SUPP_GIDS_def)

theorem exec_waits_and_is_removed_witness:
  "\<exists>sm1 es sm2 es'. Exec sample_lib (sample_senv 7 0) [''exec'', ''/bin/x''] new_service_manager = (True, sm1, es)
     \<and> IsWaitingForExec sm1 \<and> ReapOneProcess (sample_senv 8 1) 7 sm1 = Some (True, sm2, es') \<and> services sm2 = []"
proof -
  obtain sm1 es where e: "Exec sample_lib (sample_senv 7 0) [''exec'', ''/bin/x''] new_service_manager = (True, sm1, es)"
    using sample_exec by blast
  have "sm_ok (new_service_manager :: unit service_manager)"
    by (simp add: sm_ok_def new_service_manager_def)
  from exec_waits_and_is_removed[OF this e, of "sample_senv 8 1"] e show ?thesis
    by (auto simp: sample_senv_def new_service_manager_def)
qed

text \<open>
  Options do not touch the identity of a service. A line of a service section, accepted or
  not, never changes the name, the program, the process id or any flag other than the five an
  option may set; and a line whose keyword is unknown or has a wrong number of arguments
  changes nothing at all.
\<close>

theorem service_options_keep_identity:
  "svc_name (snd (ParseLine lib args s)) = svc_name s
   \<and> svc_args (snd (ParseLine lib args s)) = svc_args s
   \<and> svc_pid (snd (ParseLine lib args s)) = svc_pid s
   \<and> svc_flags (snd (ParseLine lib args s)) AND NOT option_flags = svc_flags s AND NOT option_flags
   \<and> ((\<nexists>lo hi f. option_parsers lib (hd args) = Some (lo, hi, f) \<and> lo \<le> length args - 1 \<and> length args - 1 \<le> hi)
        \<longrightarrow> snd (ParseLine lib args s) = s)"
proof (cases "args = []")
  case True
  then show ?thesis by (simp add: ParseLine_def)
next
  case False
  show ?thesis
  proof (rule FindFunction_cases[of "option_parsers lib" "hd args" "length args - 1"])
    fix e
    assume "FindFunction (option_parsers lib) (hd args) (length args - 1) = Inl e"
    then show ?thesis using False by (simp add: ParseLine_def)
  next
    fix f lo hi
    assume f: "FindFunction (option_parsers lib) (hd args) (length args - 1) = Inr f"
      "option_parsers lib (hd args) = Some (lo, hi, f)" "lo \<le> length args - 1" "length args - 1 \<le> hi"
    have "same_identity s (snd (f args s))" by (rule option_parser_identity[OF f(2)])
    then show ?thesis using False f by (simp add: ParseLine_def same_identity_def)
  qed
qed

theorem service_options_keep_identity_witness:
  "snd (ParseLine sample_lib [''nonsense''] sample_service) = sample_service"
  using service_options_keep_identity[of sample_lib "[''nonsense'']" sample_service]
  by (simp add: option_parsers_def)

text \<open>
  An \<^verbatim>\<open>exec\<close> command takes at most eleven supplementary groups, one less than
  \<^verbatim>\<open>NR_SVC_SUPP_GIDS\<close> and than the \<^verbatim>\<open>group\<close> option of a service: the length check counts the
  words before the command and not the groups.
\<close>

theorem exec_takes_eleven_groups:
  assumes "MakeExecOneshotService lib args sm = Some (svc, sm')"
  shows "length (supp_gids svc) \<le> 11 \<and> 11 < NR_SVC_SUPP_GIDS"
  using assms
  by (auto simp: MakeExecOneshotService_def Let_def mk_service_full_def NR_SVC_SUPP_GIDS_def split: if_splits)

theorem exec_takes_eleven_groups_witness:
  "\<exists>svc sm'. MakeExecOneshotService sample_lib [''exec'', ''/bin/x''] new_service_manager = Some (svc, sm')
     \<and> length (supp_gids svc) \<le> 11"
proof -
  obtain svc sm' where e: "MakeExecOneshotService sample_lib [''exec'', ''/bin/x''] new_service_manager = Some (svc, sm')"
    by (auto simp: MakeExecOneshotService_def Let_def NR_SVC_SUPP_GIDS_def)
  with exec_takes_eleven_groups[OF e] show ?thesis by blast
qed


end
