(* ===== verification/Init_Parser.thy ===== *)
theory Init_Parser
  imports Tokenizer Service_Correct
begin

text \<open>
  The parser of init scripts (\<^verbatim>\<open>init/init_parser.cpp\<close>, \<^verbatim>\<open>init/import_parser.cpp\<close>): lines of the
  tokenizer go to the parser of the section they belong to, which adds actions and services to
  their managers.

  The source holds its section parsers in a map from keyword to object; the model holds the
  map from keyword to the kind of section, and the state of the three parsers side by side.
  Files and directories are arguments. Imported files may import others, so the loop over
  files is a partial function.
\<close>

datatype section_kind = Service_Section | Action_Section | Import_Section

record 'f parser_state =
  p_action :: "'f action_parser"
  p_actions :: "'f action_manager"
  p_service :: "'f service option"
  p_services :: "'f service_manager"
  p_imports :: "string list"
  section_parsers :: "string \<rightharpoonup> section_kind"

definition AddSectionParser :: "string \<Rightarrow> section_kind \<Rightarrow> 'f parser_state \<Rightarrow> 'f parser_state" where
  "AddSectionParser name kind st = st\<lparr>section_parsers := (section_parsers st)(name \<mapsto> kind)\<rparr>"

definition ImportParser_ParseSection ::
  "(string \<Rightarrow> string) \<Rightarrow> string list \<Rightarrow> string list \<Rightarrow> (string + unit) \<times> string list" where
  "ImportParser_ParseSection gp args imps =
     (if length args \<noteq> 2 then (Inl (''single argument needed for import'' @ [NL]), imps)
      else (case expand_props gp (args ! 1) of
              None \<Rightarrow> (Inl ''error while expanding import'', imps)
            | Some conf_file \<Rightarrow> (Inr (), imps @ [conf_file])))"

fun ParseSection ::
  "(string \<Rightarrow> string) \<Rightarrow> section_kind \<Rightarrow> string list \<Rightarrow> 'f parser_state \<Rightarrow> (string + unit) \<times> 'f parser_state" where
  "ParseSection gp Action_Section args st =
     (case ActionParser_ParseSection args (p_action st) of (r, a) \<Rightarrow> (r, st\<lparr>p_action := a\<rparr>))"
| "ParseSection gp Service_Section args st =
     (case ServiceParser_ParseSection args (p_service st) of (r, s) \<Rightarrow> (r, st\<lparr>p_service := s\<rparr>))"
| "ParseSection gp Import_Section args st =
     (case ImportParser_ParseSection gp args (p_imports st) of (r, i) \<Rightarrow> (r, st\<lparr>p_imports := i\<rparr>))"

fun ParseLineSection ::
  "'f svc_lib \<Rightarrow> section_kind \<Rightarrow> string list \<Rightarrow> string \<Rightarrow> nat \<Rightarrow> 'f parser_state
   \<Rightarrow> (string option + unit) \<times> 'f parser_state" where
  "ParseLineSection lib Action_Section args filename line st =
     (case ActionParser_ParseLineSection (lib_functions lib) args filename (int line) (p_action st) of
        (r, a) \<Rightarrow> (r, st\<lparr>p_action := a\<rparr>))"
| "ParseLineSection lib Service_Section args filename line st =
     (case ServiceParser_ParseLineSection lib args (p_service st) of
        (r, s) \<Rightarrow> (r, st\<lparr>p_service := s\<rparr>))"
| "ParseLineSection lib Import_Section args filename line st = (Inr (), st)"

fun EndSection :: "section_kind \<Rightarrow> 'f parser_state \<Rightarrow> 'f parser_state" where
  "EndSection Action_Section st =
     (case ActionParser_EndSection (p_action st) (p_actions st) of
        (a, am) \<Rightarrow> st\<lparr>p_action := a, p_actions := am\<rparr>)"
| "EndSection Service_Section st =
     (case ServiceParser_EndSection (p_service st) (p_services st) of
        (s, sm) \<Rightarrow> st\<lparr>p_service := s, p_services := sm\<rparr>)"
| "EndSection Import_Section st = st"

definition end_current :: "section_kind option \<Rightarrow> 'f parser_state \<Rightarrow> 'f parser_state" where
  "end_current cur st = (case cur of None \<Rightarrow> st | Some k \<Rightarrow> EndSection k st)"

text \<open>
  A line that is not empty. The state of the loop is the current section parser, if any, and
  the state of the parsers. Errors are only reported.
\<close>

definition parse_line ::
  "'f svc_lib \<Rightarrow> (string \<Rightarrow> string) \<Rightarrow> string \<Rightarrow> string list \<times> nat
   \<Rightarrow> section_kind option \<times> 'f parser_state \<Rightarrow> section_kind option \<times> 'f parser_state" where
  "parse_line lib gp filename l cs =
     (case l of (args, line) \<Rightarrow>
      case cs of (cur, st) \<Rightarrow>
       (case section_parsers st (hd args) of
          Some kind \<Rightarrow>
            (case ParseSection gp kind args (end_current cur st) of
               (Inl err, st') \<Rightarrow> (None, st')
             | (Inr _, st') \<Rightarrow> (Some kind, st'))
        | None \<Rightarrow>
            (case cur of
               None \<Rightarrow> (None, st)
             | Some kind \<Rightarrow> (cur, snd (ParseLineSection lib kind args filename line st)))))"

definition ParseData ::
  "'f svc_lib \<Rightarrow> (string \<Rightarrow> string) \<Rightarrow> string \<Rightarrow> string \<Rightarrow> 'f parser_state \<Rightarrow> 'f parser_state option" where
  "ParseData lib gp filename data st =
     (case token_lines (start_state data) [] of
        None \<Rightarrow> None
      | Some ls \<Rightarrow>
         (case fold (parse_line lib gp filename) ls (None, st) of (cur, st') \<Rightarrow> Some (end_current cur st')))"

text \<open>
  \<open>rf\<close> is \<open>read_file\<close>, \<open>is_dir\<close> the test for a directory and \<open>readdir\<close> the names of the regular
  files of a directory that can be opened. \<open>config_files\<close> are the files \<^verbatim>\<open>ParseConfig\<close> reads.
\<close>

definition config_files ::
  "(string \<Rightarrow> bool) \<Rightarrow> (string \<Rightarrow> string list option) \<Rightarrow> string \<Rightarrow> string list" where
  "config_files is_dir readdir path =
     (if is_dir path then
        (case readdir path of
           None \<Rightarrow> []
         | Some names \<Rightarrow> sort (map (\<lambda>n. path @ ''/'' @ n) names))
      else [path])"

partial_function (option) parse_files ::
  "'f svc_lib \<Rightarrow> (string \<Rightarrow> string) \<Rightarrow> (string \<Rightarrow> string option) \<Rightarrow> (string \<Rightarrow> string list)
   \<Rightarrow> string list \<Rightarrow> 'f parser_state \<Rightarrow> 'f parser_state option" where
  "parse_files lib gp rf cf files st =
     (case files of
        [] \<Rightarrow> Some st
      | path # rest \<Rightarrow>
         (case rf path of
            None \<Rightarrow> parse_files lib gp rf cf rest st
          | Some data \<Rightarrow>
              Option.bind (ParseData lib gp path (data @ [NL]) st) (\<lambda>st1.
                Option.bind (parse_files lib gp rf cf (concat (map cf (p_imports st1))) (st1\<lparr>p_imports := []\<rparr>))
                  (\<lambda>st2. parse_files lib gp rf cf rest st2))))"

definition ParseConfig ::
  "'f svc_lib \<Rightarrow> (string \<Rightarrow> string) \<Rightarrow> (string \<Rightarrow> string option) \<Rightarrow> (string \<Rightarrow> bool)
   \<Rightarrow> (string \<Rightarrow> string list option) \<Rightarrow> string \<Rightarrow> 'f parser_state \<Rightarrow> (bool \<times> 'f parser_state) option" where
  "ParseConfig lib gp rf is_dir readdir path st =
     map_option (Pair (if is_dir path then readdir path \<noteq> None else rf path \<noteq> None))
       (parse_files lib gp rf (config_files is_dir readdir) (config_files is_dir readdir path) st)"

section \<open>Lemmas\<close>

lemma lines_read_back:
  assumes "\<forall>ws \<in> set lss. \<forall>w \<in> set ws. word_ok w"
  shows "token_lines (start_state (concat (map print_line lss))) [] =
    Some (filter (\<lambda>(ws, i). ws \<noteq> []) (zip lss [1..<1 + length lss]))"
proof -
  have "NUL \<notin> set (concat (map print_line lss))" using assms print_line_no_NUL by auto
  then show ?thesis using lex_lines_print[OF assms, of 0] by (simp add: start_state_lines)
qed

definition script_command :: "'f keyword_map \<Rightarrow> string \<Rightarrow> string list \<times> nat \<Rightarrow> 'f command" where
  "script_command fm filename l =
     \<lparr>cmd_func = projr (FindFunction fm (hd (fst l)) (length (fst l) - 1)), cmd_args = fst l,
      cmd_filename = filename, cmd_line = int (snd l)\<rparr>"

definition command_line :: "'f parser_state \<Rightarrow> 'f keyword_map \<Rightarrow> string list \<Rightarrow> bool" where
  "command_line st fm args =
     (args \<noteq> [] \<and> section_parsers st (hd args) = None
      \<and> (\<exists>f. FindFunction fm (hd args) (length args - 1) = Inr f))"

lemma fold_command_lines:
  assumes "lib_functions lib = Some fm"
  shows "\<forall>l \<in> set ls. command_line st fm (fst l) \<Longrightarrow> p_action st = Some a \<Longrightarrow>
    fold (parse_line lib gp filename) ls (Some Action_Section, st) =
      (Some Action_Section,
       st\<lparr>p_action := Some (a\<lparr>commands := commands a @ map (script_command fm filename) ls\<rparr>)\<rparr>)"
proof (induction ls arbitrary: st a)
  case Nil
  then show ?case by (cases st) simp
next
  case (Cons l ls)
  obtain args n where l: "l = (args, n)" by (cases l)
  obtain f where args: "args \<noteq> []" "section_parsers st (hd args) = None"
    "FindFunction fm (hd args) (length args - 1) = Inr f"
    using Cons.prems(1) l by (auto simp: command_line_def)
  define a1 where "a1 = a\<lparr>commands := commands a @ [script_command fm filename l]\<rparr>"
  have step: "parse_line lib gp filename l (Some Action_Section, st) = (Some Action_Section, st\<lparr>p_action := Some a1\<rparr>)"
    using args Cons.prems(2) assms l
    by (simp add: parse_line_def ActionParser_ParseLineSection_def AddCommand_def AddCommand_func_def
        a1_def script_command_def)
  have "fold (parse_line lib gp filename) ls (Some Action_Section, st\<lparr>p_action := Some a1\<rparr>) =
      (Some Action_Section, (st\<lparr>p_action := Some a1\<rparr>)\<lparr>p_action :=
         Some (a1\<lparr>commands := commands a1 @ map (script_command fm filename) ls\<rparr>)\<rparr>)"
    by (rule Cons.IH) (use Cons.prems(1) in \<open>simp_all add: command_line_def\<close>)
  then show ?case using step by (simp add: a1_def)
qed

section \<open>Properties\<close>

text \<open>
  C27. From the text of a script to the action manager. When a script consists of an \<^verbatim>\<open>on\<close> line
  with acceptable triggers and at least one command line, each a known command with a fitting
  number of arguments, then parsing its text adds to the action manager exactly one action: it
  has these triggers and these commands in this order, each with the file and the number of
  its line.
\<close>

theorem script_adds_action:
  assumes "lib_functions lib = Some fm" "section_parsers st ''on'' = Some Action_Section"
    and "InitTriggers trigs (mk_action False) = Inr a" "trigs \<noteq> []" "cmds \<noteq> []"
    and "\<forall>c \<in> set cmds. command_line st fm c"
    and "\<forall>ws \<in> set (trigs # cmds). \<forall>w \<in> set ws. word_ok w"
  shows "ParseData lib gp filename (concat (map print_line ((''on'' # trigs) # cmds))) st =
    Some (st\<lparr>p_action := None, p_actions :=
      AddAction (a\<lparr>commands := map (script_command fm filename) (zip cmds [2..<2 + length cmds])\<rparr>)
        (p_actions st)\<rparr>)"
proof -
  define ls where "ls = zip cmds [2..<2 + length cmds]"
  have ne: "\<forall>c \<in> set cmds. c \<noteq> []" using assms(6) by (simp add: command_line_def)
  have "[1..<1 + length ((''on'' # trigs) # cmds)] = 1 # [2..<2 + length cmds]"
    by (simp add: upt_conv_Cons numeral_2_eq_2 del: upt_Suc)
  then have "token_lines (start_state (concat (map print_line ((''on'' # trigs) # cmds)))) [] =
      Some (filter (\<lambda>(ws, i). ws \<noteq> []) ((''on'' # trigs, 1) # ls))"
    using lines_read_back[of "(''on'' # trigs) # cmds"] assms(7) by (simp add: ls_def word_ok_def del: upt_Suc)
  moreover have "filter (\<lambda>(ws, i). ws \<noteq> []) ls = ls"
    using ne by (auto simp: ls_def intro!: filter_True dest: set_zip_leftD)
  ultimately have toks: "token_lines (start_state (concat (map print_line ((''on'' # trigs) # cmds)))) [] =
      Some ((''on'' # trigs, 1) # ls)" by simp
  have c0: "commands a = []"
    using init_triggers_commands[of 0 trigs "mk_action False" a] assms(3)
    by (simp add: InitTriggers_def mk_action_def)
  have head: "parse_line lib gp filename (''on'' # trigs, 1) (None, st) =
      (Some Action_Section, st\<lparr>p_action := Some a\<rparr>)"
    using assms(2,3,4) by (simp add: parse_line_def end_current_def ActionParser_ParseSection_def)
  have rest: "fold (parse_line lib gp filename) ls (Some Action_Section, st\<lparr>p_action := Some a\<rparr>) =
      (Some Action_Section, (st\<lparr>p_action := Some a\<rparr>)\<lparr>p_action :=
        Some (a\<lparr>commands := commands a @ map (script_command fm filename) ls\<rparr>)\<rparr>)"
    by (rule fold_command_lines[OF assms(1)])
      (use assms(6) in \<open>auto simp: ls_def command_line_def dest: set_zip_leftD\<close>)
  have "ls \<noteq> []" using assms(5) by (cases cmds) (simp_all add: ls_def upt_conv_Cons del: upt_Suc)
  then show ?thesis
    using toks head rest c0
    by (simp add: ParseData_def end_current_def ActionParser_EndSection_def NumCommands_def ls_def)
qed

definition sample_map :: "unit keyword_map" where
  "sample_map = [''start'' \<mapsto> (1, 1, ())]"

definition sample_parser :: "unit parser_state" where
  "sample_parser = AddSectionParser ''on'' Action_Section
     \<lparr>p_action = None, p_actions = new_action_manager, p_service = None,
      p_services = new_service_manager, p_imports = [], section_parsers = Map.empty\<rparr>"

theorem script_adds_action_witness:
  "\<exists>st. ParseData (sample_lib\<lparr>lib_functions := Some sample_map\<rparr>) (\<lambda>_. []) ''/init.rc''
      (concat (map print_line [[''on'', ''boot''], [''start'', ''x'']])) sample_parser = Some st
    \<and> map (event_trigger \<circ> snd) (am_actions (p_actions st)) = [''boot'']"
proof -
  have w: "word_ok ''boot''" "word_ok ''start''" "word_ok ''x''" by (simp_all add: word_ok_def)
  have i: "InitTriggers [''boot''] (mk_action False) =
      Inr ((mk_action False :: unit action)\<lparr>event_trigger := ''boot''\<rparr>)"
    by (simp add: InitTriggers_def prop_str_def mk_action_def)
  have c: "command_line sample_parser sample_map [''start'', ''x'']"
    by (simp add: command_line_def sample_parser_def AddSectionParser_def sample_map_def FindFunction_Inr)
  show ?thesis
    using script_adds_action[of "sample_lib\<lparr>lib_functions := Some sample_map\<rparr>" sample_map sample_parser
        "[''boot'']" "(mk_action False)\<lparr>event_trigger := ''boot''\<rparr>" "[[''start'', ''x'']]" "\<lambda>_. []" "''/init.rc''"]
      w i c
    by (simp add: sample_parser_def AddSectionParser_def AddAction_def new_action_manager_def)
qed

end
