(* ===== verification/Init_Main.thy ===== *)
theory Init_Main
  imports Init_Parser
begin

text \<open>
  The main program of init after its set-up (\<^verbatim>\<open>init/init.cpp\<close>): the environment of services,
  waiting for a property, the reaction to a changed property and to control messages, the
  restart of services, the triggers queued at boot and a turn of the main loop.

  The action manager is kept apart from the rest of the state (\<open>init_world\<close>), on which the
  builtin commands (\<open>run\<close>) work as in the theory of actions. \<open>envf\<close> gives for each service the
  answers of the kernel when it is started.
\<close>

section \<open>The environment\<close>

definition ENV_SIZE :: nat where "ENV_SIZE = 32"

fun add_env :: "string \<Rightarrow> string \<Rightarrow> string option list \<Rightarrow> string option list option" where
  "add_env key val [] = None"
| "add_env key val (e # es) =
     (if e = None \<or> takeWhile (\<lambda>c. c \<noteq> CHR ''='') (the e) = key
      then Some (Some (key @ ''='' @ val) # es)
      else map_option ((#) e) (add_env key val es))"

definition add_environment :: "string \<Rightarrow> string \<Rightarrow> string option list \<Rightarrow> int \<times> string option list" where
  "add_environment key val env =
     (case add_env key val (take (ENV_SIZE - 1) env) of
        None \<Rightarrow> (- 1, env)
      | Some es \<Rightarrow> (0, es @ drop (ENV_SIZE - 1) env))"

section \<open>State\<close>

record 'f init_world =
  in_sm :: "'f service_manager"
  waiting_for_prop :: "(string \<times> string) option"
  property_triggers_enabled :: bool
  process_needs_restart_at :: int
  in_env :: "string option list"
  powerctl :: "string list"
  in_effects :: "'f svc_effect list"

definition start_waiting_for_property ::
  "(string \<Rightarrow> string) \<Rightarrow> string \<Rightarrow> string \<Rightarrow> 'f init_world \<Rightarrow> bool \<times> 'f init_world" where
  "start_waiting_for_property gp name val w =
     (if waiting_for_prop w \<noteq> None then (False, w)
      else if gp name \<noteq> val then (True, w\<lparr>waiting_for_prop := Some (name, val)\<rparr>)
      else (True, w))"

definition property_changed ::
  "string \<Rightarrow> string \<Rightarrow> 'f action_manager \<times> 'f init_world \<Rightarrow> 'f action_manager \<times> 'f init_world" where
  "property_changed name val s =
     (case s of (am, w) \<Rightarrow>
      let w1 = (if name = ''sys.powerctl'' then w\<lparr>powerctl := powerctl w @ [val]\<rparr> else w);
          am1 = (if property_triggers_enabled w1 then QueuePropertyTrigger name val am else am);
          w2 = (if waiting_for_prop w1 = Some (name, val) then w1\<lparr>waiting_for_prop := None\<rparr> else w1)
      in (am1, w2))"

fun restart_all ::
  "(string \<Rightarrow> service_env) \<Rightarrow> int \<Rightarrow> 'f service list \<Rightarrow> int \<Rightarrow> 'f service list \<times> 'f svc_effect list \<times> int" where
  "restart_all envf wall_time [] needs_at = ([], [], needs_at)"
| "restart_all envf wall_time (s # ss) needs_at =
     (case (if has_flag s SVC_RESTARTING
            then RestartIfNeeded (envf (svc_name s)) wall_time needs_at s
            else (s, [], needs_at)) of
        (s', es, n) \<Rightarrow>
          (case restart_all envf wall_time ss n of (ss', es', n') \<Rightarrow> (s' # ss', es @ es', n')))"

definition restart_processes :: "(string \<Rightarrow> service_env) \<Rightarrow> int \<Rightarrow> 'f init_world \<Rightarrow> 'f init_world" where
  "restart_processes envf wall_time w =
     (case restart_all envf wall_time (services (in_sm w)) 0 of
        (ss, es, n) \<Rightarrow>
          w\<lparr>in_sm := (in_sm w)\<lparr>services := ss\<rparr>, process_needs_restart_at := n,
            in_effects := in_effects w @ es\<rparr>)"

definition handle_control_message ::
  "(string \<Rightarrow> service_env) \<Rightarrow> string \<Rightarrow> string \<Rightarrow> 'f init_world \<Rightarrow> 'f init_world" where
  "handle_control_message envf msg name w =
     (case FindServiceByName name (in_sm w) of
        None \<Rightarrow> w
      | Some svc \<Rightarrow>
         (case (if msg = ''start'' then snd (Start (envf name) svc)
                else if msg = ''stop'' then Stop svc
                else if msg = ''restart'' then Restart (envf name) svc
                else (svc, [])) of
            (svc', es) \<Rightarrow>
              w\<lparr>in_sm := update_service svc' (in_sm w), in_effects := in_effects w @ es\<rparr>))"

section \<open>Boot and main loop\<close>

text \<open>\<open>bf\<close> gives the builtin function of a name.\<close>

definition queue_boot_actions :: "(string \<Rightarrow> 'f) \<Rightarrow> string \<Rightarrow> 'f action_manager \<Rightarrow> 'f action_manager" where
  "queue_boot_actions bf bootmode am =
     (let q = (\<lambda>n. QueueBuiltinAction (bf n) n);
          a1 = QueueEventTrigger ''early-init'' am;
          a2 = q ''console_init'' (q ''keychord_init'' (q ''set_kptr_restrict'' (q ''set_mmap_rnd_bits''
                 (q ''mix_hwrng_into_linux_rng'' (q ''wait_for_coldboot_done'' a1)))));
          a3 = q ''mix_hwrng_into_linux_rng'' (QueueEventTrigger ''init'' a2);
          a4 = QueueEventTrigger (if bootmode = ''charger'' then ''charger'' else ''late-init'') a3
      in q ''queue_property_triggers'' a4)"

definition blocked :: "'f init_world \<Rightarrow> bool" where
  "blocked w = (waiting_for_prop w \<noteq> None \<or> IsWaitingForExec (in_sm w))"

text \<open>
  A turn of the loop up to \<^verbatim>\<open>epoll_wait\<close>; the last component of the result is its time-out.
  \<open>wall1\<close> and \<open>wall2\<close> are the answers of \<^verbatim>\<open>time\<close>. The time-out is an \<^verbatim>\<open>int\<close>: the difference
  of the times in milliseconds is cut to 32 bits before it is compared with 0.
\<close>

definition loop_turn ::
  "('f init_world \<Rightarrow> string \<Rightarrow> string) \<Rightarrow> ('f \<Rightarrow> string list \<Rightarrow> 'f init_world \<Rightarrow> int \<times> 'f am_op list \<times> 'f init_world)
   \<Rightarrow> (string \<Rightarrow> service_env) \<Rightarrow> int \<Rightarrow> int \<Rightarrow> 'f action_manager \<times> 'f init_world
   \<Rightarrow> ('f command option \<times> 'f action_manager \<times> 'f init_world \<times> int) option" where
  "loop_turn gp run envf wall1 wall2 s =
     (case s of (am, w) \<Rightarrow>
      case (if blocked w then Some (None, am, w) else ExecuteOneCommand gp run am w) of
        None \<Rightarrow> None
      | Some (c, am1, w1) \<Rightarrow>
         if blocked w1 then Some (c, am1, w1, - 1)
         else
          let w2 = restart_processes envf wall1 w1;
              t1 = (if process_needs_restart_at w2 \<noteq> 0
                    then max 0 (sint (word_of_int ((process_needs_restart_at w2 - wall2) * 1000) :: 32 word)) else - 1);
              t2 = (if HasMoreCommands am1 then 0 else t1)
          in Some (c, am1, w2, t2))"

section \<open>Lemmas\<close>

fun get_env :: "string option list \<Rightarrow> string \<Rightarrow> string option" where
  "get_env [] k = None"
| "get_env (None # es) k = None"
| "get_env (Some s # es) k =
     (if takeWhile (\<lambda>c. c \<noteq> CHR ''='') s = k then Some (drop (Suc (length k)) s) else get_env es k)"

definition gap_free :: "string option list \<Rightarrow> bool" where
  "gap_free es = (\<forall>e \<in> set (dropWhile (\<lambda>e. e \<noteq> None) es). e = None)"

lemma takeWhile_key: "CHR ''='' \<notin> set k \<Longrightarrow> takeWhile (\<lambda>c. c \<noteq> CHR ''='') (k @ CHR ''='' # v) = k"
  by (subst takeWhile_append2) auto

lemma get_env_gap: "\<forall>e \<in> set es. e = None \<Longrightarrow> get_env es k = None"
  by (cases es) auto

lemma add_env_correct:
  "CHR ''='' \<notin> set key \<Longrightarrow> gap_free es \<Longrightarrow> add_env key val es = Some es' \<Longrightarrow>
   gap_free es' \<and> length es' = length es
   \<and> get_env (es' @ [None]) k = (if k = key then Some val else get_env (es @ [None]) k)"
proof (induction es arbitrary: es')
  case (Cons e es)
  show ?case
  proof (cases e)
    case None
    then have all: "\<forall>e \<in> set es. e = None" using Cons.prems(2) by (simp add: gap_free_def)
    then have "dropWhile (\<lambda>e. e \<noteq> None) es = es" by (cases es) auto
    moreover have "get_env (es @ [None]) k = None" using all by (intro get_env_gap) auto
    ultimately show ?thesis
      using None Cons.prems all by (auto simp: gap_free_def takeWhile_key)
  next
    case (Some s)
    have gf: "gap_free es" using Cons.prems(2) Some by (simp add: gap_free_def)
    show ?thesis
    proof (cases "takeWhile (\<lambda>c. c \<noteq> CHR ''='') s = key")
      case True
      then show ?thesis using Cons.prems Some gf by (auto simp: gap_free_def takeWhile_key)
    next
      case False
      then obtain es1 where "add_env key val es = Some es1" "es' = Some s # es1"
        using Cons.prems(3) Some by auto
      then show ?thesis using Cons.IH[OF Cons.prems(1) gf, of es1] False Some by (auto simp: gap_free_def)
    qed
  qed
qed simp

lemma Start_not_RESTARTING: "\<not> has_flag (fst (snd (Start env s))) SVC_RESTARTING"
  by (auto simp: Start_def Let_def start_mask_def svc_flag_defs)

lemma RestartIfNeeded_scheduled:
  assumes "RestartIfNeeded env wall n s = (s', es, n')" "wall > 0" "n \<ge> 0"
  shows "n' \<ge> 0 \<and> (n \<noteq> 0 \<longrightarrow> n' \<noteq> 0) \<and> (has_flag s' SVC_RESTARTING \<longrightarrow> n' \<noteq> 0)"
proof (cases "boot_now env > time_started s + 5000000000")
  case True
  then show ?thesis
    using assms Start_not_RESTARTING[of env "clear_flags SVC_RESTARTING s"]
    by (auto simp: RestartIfNeeded_def Let_def split: prod.splits)
next
  case False
  then have "(time_started s + 5000000000 - boot_now env) div 1000000000 \<ge> 0" by simp
  then show ?thesis using assms False by (auto simp: RestartIfNeeded_def Let_def split: if_splits)
qed

lemma restart_all_scheduled:
  "restart_all envf wall ss n = (ss', es, n') \<Longrightarrow> wall > 0 \<Longrightarrow> n \<ge> 0 \<Longrightarrow>
   n' \<ge> 0 \<and> (n \<noteq> 0 \<longrightarrow> n' \<noteq> 0) \<and> ((\<exists>s \<in> set ss'. has_flag s SVC_RESTARTING) \<longrightarrow> n' \<noteq> 0)"
proof (induction ss arbitrary: n ss' es n')
  case (Cons s ss)
  obtain s1 es1 n1 where one: "(if has_flag s SVC_RESTARTING then RestartIfNeeded (envf (svc_name s)) wall n s
      else (s, [], n)) = (s1, es1, n1)" by (metis surj_pair)
  obtain ss2 es2 n2 where two: "restart_all envf wall ss n1 = (ss2, es2, n2)" by (metis surj_pair)
  have r: "ss' = s1 # ss2" "n' = n2" using Cons.prems(1) one two by auto
  have a: "n1 \<ge> 0 \<and> (n \<noteq> 0 \<longrightarrow> n1 \<noteq> 0) \<and> (has_flag s1 SVC_RESTARTING \<longrightarrow> n1 \<noteq> 0)"
    using RestartIfNeeded_scheduled[of "envf (svc_name s)" wall n s s1 es1 n1] one Cons.prems(2,3)
    by (auto split: if_splits)
  show ?case using Cons.IH[OF two Cons.prems(2)] a r by auto
qed simp

lemma QueueBuiltinAction_named:
  assumes "n \<noteq> []" "\<not> starts_with n prop_str"
  shows "trigger_queue (QueueBuiltinAction f n am) = trigger_queue am @ [BuiltinTrigger (next_address am)]
    \<and> next_address (QueueBuiltinAction f n am) = Suc (next_address am)"
  using assms by (simp add: QueueBuiltinAction_def InitSingleTrigger_def InitTriggers_def mk_action_def)

section \<open>Properties\<close>


definition idle_world :: "unit init_world" where
  "idle_world = \<lparr>in_sm = new_service_manager, waiting_for_prop = None, property_triggers_enabled = False,
     process_needs_restart_at = 0, in_env = replicate 32 None, powerctl = [], in_effects = []\<rparr>"


text \<open>
  The environment of services is a map. In an environment without gaps, adding a variable
  whose name has no equals sign either succeeds, and then exactly that variable has the new
  value and there are still no gaps, or is refused and changes nothing.
\<close>

theorem environment_is_a_map:
  assumes "CHR ''='' \<notin> set key" "gap_free (take 31 env)" "length env = 32" "last env = None"
    and "add_environment key val env = (r, env')"
  shows "(r = 0 \<and> gap_free (take 31 env') \<and> length env' = 32 \<and> last env' = None
      \<and> (\<forall>k. get_env env' k = (if k = key then Some val else get_env env k)))
    \<or> (r = - 1 \<and> env' = env)"
proof (cases "add_env key val (take 31 env)")
  case None
  then show ?thesis using assms(5) by (simp add: add_environment_def ENV_SIZE_def)
next
  case (Some es)
  have d: "drop 31 env = [None]"
    using assms(3,4) by (cases env rule: rev_cases) auto
  then have env: "env = take 31 env @ [None]" by (metis append_take_drop_id)
  have r: "r = 0" "env' = es @ [None]"
    using assms(5) Some d by (simp_all add: add_environment_def ENV_SIZE_def)
  note c = add_env_correct[OF assms(1,2) Some]
  have "length es = 31" using c assms(3) by simp
  then show ?thesis using c r env by simp
qed

theorem environment_is_a_map_witness:
  "get_env (snd (add_environment ''A'' ''1'' (replicate 32 None))) ''A'' = Some ''1''"
proof -
  have "fst (add_environment ''A'' ''1'' (replicate 32 None)) = 0"
    by (simp add: add_environment_def ENV_SIZE_def numeral_eq_Suc)
  with environment_is_a_map[of "''A''" "replicate 32 None" "''1''" "fst (add_environment ''A'' ''1'' (replicate 32 None))"
      "snd (add_environment ''A'' ''1'' (replicate 32 None))"]
  have "get_env (snd (add_environment ''A'' ''1'' (replicate 32 None))) k =
      (if k = ''A'' then Some ''1'' else get_env (replicate 32 None) k)" for k
    by (simp add: gap_free_def dropWhile_replicate prod_eq_iff)
  then show ?thesis by simp
qed

text \<open>
  Waiting for a property. Once init waits for a property to have a value, it goes on waiting
  through every change of a property that is not that one to that value, and stops at the
  change to that value; it never starts to wait for a second property meanwhile.
\<close>

theorem waits_for_that_property:
  assumes "start_waiting_for_property gp name val w = (True, w1)" "gp name \<noteq> val"
  shows "waiting_for_prop w1 = Some (name, val)
    \<and> (\<forall>n v am. waiting_for_prop (snd (property_changed n v (am, w1))) =
         (if n = name \<and> v = val then None else Some (name, val)))
    \<and> (\<forall>gp' n v. start_waiting_for_property gp' n v w1 = (False, w1))"
  using assms by (auto simp: start_waiting_for_property_def property_changed_def Let_def split: if_splits)

theorem waits_for_that_property_witness:
  "waiting_for_prop (snd (property_changed ''a'' ''1'' (new_action_manager,
     snd (start_waiting_for_property (\<lambda>_. []) ''a'' ''1'' idle_world)))) = None"
  using waits_for_that_property[of "\<lambda>_. []" "''a''" "''1''" idle_world
      "snd (start_waiting_for_property (\<lambda>_. []) ''a'' ''1'' idle_world)"]
  by (simp add: start_waiting_for_property_def idle_world_def)

text \<open>
  The triggers queued at boot keep the invariant of the action manager and are in this
  order: \<^verbatim>\<open>early-init\<close>, six builtin actions, \<^verbatim>\<open>init\<close>, one builtin action, \<^verbatim>\<open>charger\<close> or
  \<^verbatim>\<open>late-init\<close> depending on the boot mode, and the builtin action that enables property
  triggers.
\<close>

theorem boot_order:
  assumes "am_ok am"
  shows "am_ok (queue_boot_actions bf mode am)
    \<and> trigger_queue (queue_boot_actions bf mode am) = trigger_queue am @
        [EventTrigger ''early-init''] @ map BuiltinTrigger [next_address am..<next_address am + 6]
        @ [EventTrigger ''init'', BuiltinTrigger (next_address am + 6),
           EventTrigger (if mode = ''charger'' then ''charger'' else ''late-init''),
           BuiltinTrigger (next_address am + 7)]"
proof -
  have e: "am_ok (QueueEventTrigger t a)" if "am_ok a" for t and a :: "'a action_manager"
    using apply_op_ok[OF that, of "OpQueueEvent t"] by simp
  have b: "am_ok (QueueBuiltinAction f n a)" if "am_ok a" for f n and a :: "'a action_manager"
    using QueueBuiltinAction_ok[OF that] by blast
  have q: "trigger_queue (QueueEventTrigger t a) = trigger_queue a @ [EventTrigger t]"
    "next_address (QueueEventTrigger t a) = next_address a" for t and a :: "'a action_manager"
    by (simp_all add: QueueEventTrigger_def)
  have "am_ok (queue_boot_actions bf mode am)"
    using assms by (simp add: queue_boot_actions_def Let_def e b)
  moreover have "[next_address am..<next_address am + 6] = [next_address am, next_address am + 1,
      next_address am + 2, next_address am + 3, next_address am + 4, next_address am + 5]"
    by (simp add: upt_rec)
  ultimately show ?thesis
    by (simp add: queue_boot_actions_def Let_def q QueueBuiltinAction_named prop_str_def)
qed

theorem boot_order_witness:
  "am_ok (queue_boot_actions (\<lambda>_. ()) ''charger'' new_action_manager)"
proof -
  have "am_ok (new_action_manager :: unit action_manager)"
    by (simp add: am_ok_def new_action_manager_def)
  from boot_order[OF this, of "\<lambda>_. ()" "''charger''"] show ?thesis by simp
qed

end
