(* ===== verification/Kernel_Calls.thy ===== *)
theory Kernel_Calls
  imports Util
begin

text \<open>
  The helpers of \<^verbatim>\<open>init/util.cpp\<close> that work on files, sockets and the device tree, with their
  calls to the kernel and to libraries in order.

  The state is the list of the calls made so far. \<open>k\<close> answers a call with its result and
  \<^verbatim>\<open>errno\<close>, and may use all earlier calls to do so; a call whose answer the source does not use
  is only added to the list. Descriptors in a \<^verbatim>\<open>unique_fd\<close> are closed on every return that
  does not release them.
\<close>

section \<open>Calls\<close>

datatype sys_call =
    Sys_setsockcreatecon "string option"
  | Sys_setfscreatecon "string option"
  | Sys_socket int
  | Sys_bind int string
  | Sys_close int
  | Sys_unlink string
  | Sys_rmdir string
  | Sys_symlink string string
  | Sys_lchown string u32 u32
  | Sys_fchmodat string u32
  | Sys_mkdir string u32
  | Sys_open_write string
  | Sys_open_read string
  | Sys_write int string
  | Sys_mount string string string u32 "string option"
  | Sys_umount string
  | Sys_open_dev string bool
  | Sys_loop_get_status int
  | Sys_loop_set_fd int int
  | Sys_loop_clr_fd int
  | Sys_finit_module int string u32
  | Sys_get_if_flags string
  | Sys_set_if_flags string u32
  | Sys_setrlimit int int int
  | Sys_settimeofday int
  | Lib_restorecon string u32
  | Lib_reboot string
  | Lib_write_bootloader_message "string list"
  | Lib_call string "string list"

type_synonym kernel = "sys_call list \<Rightarrow> sys_call \<Rightarrow> int \<times> int"

definition ENOENT :: int where "ENOENT = 2"
definition S_IFSOCK :: u32 where "S_IFSOCK = 0xC000"

section \<open>Sockets and directories\<close>

text \<open>
  \<open>selabel\<close> is \<^verbatim>\<open>selabel_lookup\<close> where \<^verbatim>\<open>sehandle\<close> is not null. The path of a socket is cut to
  the size of \<^verbatim>\<open>sun_path\<close>.
\<close>

definition socket_path :: "string \<Rightarrow> string" where
  "socket_path name = take 107 (''/dev/socket/'' @ name)"

text \<open>The steps of \<open>create_socket\<close> from \<^verbatim>\<open>bind\<close> on; \<open>fd\<close> is open.\<close>

definition bind_socket ::
  "kernel \<Rightarrow> int \<Rightarrow> string \<Rightarrow> u32 \<Rightarrow> u32 \<Rightarrow> u32 \<Rightarrow> sys_call list \<Rightarrow> int \<times> sys_call list" where
  "bind_socket k fd path perm uid gid h =
     (let h1 = h @ [Sys_bind fd path]; h2 = h1 @ [Sys_setfscreatecon None];
          out_unlink = (\<lambda>h. (- 1, h @ [Sys_unlink path, Sys_close fd])) in
      if fst (k h (Sys_bind fd path)) \<noteq> 0 then out_unlink h2
      else
       let h3 = h2 @ [Sys_lchown path uid gid] in
       if fst (k h2 (Sys_lchown path uid gid)) \<noteq> 0 then out_unlink h3
       else
        let h4 = h3 @ [Sys_fchmodat path perm] in
        if fst (k h3 (Sys_fchmodat path perm)) \<noteq> 0 then out_unlink h4
        else (fd, h4))"

definition create_socket ::
  "kernel \<Rightarrow> (string \<Rightarrow> u32 \<Rightarrow> string option) option \<Rightarrow> string \<Rightarrow> int \<Rightarrow> u32 \<Rightarrow> u32 \<Rightarrow> u32
   \<Rightarrow> string option \<Rightarrow> sys_call list \<Rightarrow> int \<times> sys_call list" where
  "create_socket k selabel name type perm uid gid socketcon h =
     (let con = Sys_setsockcreatecon socketcon;
          h1 = (if socketcon \<noteq> None then h @ [con] else h) in
      if socketcon \<noteq> None \<and> fst (k h con) = - 1 then (- 1, h1)
      else
       let fd = fst (k h1 (Sys_socket type)); h2 = h1 @ [Sys_socket type] in
       if fd < 0 then (- 1, h2)
       else
        let h3 = (if socketcon \<noteq> None then h2 @ [Sys_setsockcreatecon None] else h2);
            path = socket_path name;
            h4 = h3 @ [Sys_unlink path];
            (r, errno) = k h3 (Sys_unlink path) in
        if r \<noteq> 0 \<and> errno \<noteq> ENOENT then (- 1, h4 @ [Sys_close fd])
        else
         let h5 = (case selabel of
                     None \<Rightarrow> h4
                   | Some lookup \<Rightarrow>
                      (case lookup path S_IFSOCK of
                         None \<Rightarrow> h4
                       | Some filecon \<Rightarrow> h4 @ [Sys_setfscreatecon (Some filecon)]))
         in bind_socket k fd path perm uid gid h5)"

text \<open>The result of \<^verbatim>\<open>make_dir\<close> is that of \<^verbatim>\<open>mkdir\<close> with its \<^verbatim>\<open>errno\<close>.\<close>

definition make_dir ::
  "kernel \<Rightarrow> (string \<Rightarrow> u32 \<Rightarrow> string option) option \<Rightarrow> string \<Rightarrow> u32 \<Rightarrow> sys_call list
   \<Rightarrow> (int \<times> int) \<times> sys_call list" where
  "make_dir k selabel path mode h =
     (let secontext = (case selabel of None \<Rightarrow> None | Some lookup \<Rightarrow> lookup path mode);
          h1 = (if selabel \<noteq> None then h @ [Sys_setfscreatecon secontext] else h);
          h2 = h1 @ [Sys_mkdir path mode];
          h3 = (if secontext \<noteq> None then h2 @ [Sys_setfscreatecon None] else h2)
      in (k h1 (Sys_mkdir path mode), h3))"

definition restorecon :: "kernel \<Rightarrow> string \<Rightarrow> u32 \<Rightarrow> sys_call list \<Rightarrow> (int \<times> int) \<times> sys_call list" where
  "restorecon k pathname flags h = (k h (Lib_restorecon pathname flags), h @ [Lib_restorecon pathname flags])"

section \<open>Files\<close>

definition write_file :: "kernel \<Rightarrow> string \<Rightarrow> string \<Rightarrow> sys_call list \<Rightarrow> bool \<times> sys_call list" where
  "write_file k path text h =
     (let fd = fst (k h (Sys_open_write path)); h1 = h @ [Sys_open_write path] in
      if fd = - 1 then (False, h1)
      else (fst (k h1 (Sys_write fd text)) \<noteq> 0, h1 @ [Sys_write fd text, Sys_close fd]))"

text \<open>
  The clock and the answers of \<^verbatim>\<open>stat\<close> in the turns of the loop: a turn is the time read at its
  start and whether the file is there. \<open>start\<close> is the first reading of the clock. The list
  ends where the file system is not asked any more.
\<close>

fun wait_loop :: "int \<Rightarrow> (int \<times> bool) list \<Rightarrow> int" where
  "wait_loop timeout_time [] = - 1"
| "wait_loop timeout_time ((now, there) # polls) =
     (if now < timeout_time then (if there then 0 else wait_loop timeout_time polls) else - 1)"

definition wait_for_file :: "int \<Rightarrow> (int \<times> bool) list \<Rightarrow> int \<Rightarrow> int" where
  "wait_for_file start polls timeout = wait_loop (start + timeout) polls"

definition panic :: "sys_call list \<Rightarrow> sys_call list" where
  "panic h = h @ [Lib_reboot ''bootloader'']"

section \<open>The device tree\<close>

text \<open>\<open>rf\<close> is \<^verbatim>\<open>ReadFileToString\<close>, \<open>dt_dir\<close> the directory \<^verbatim>\<open>kAndroidDtDir\<close>.\<close>

definition read_android_dt_file :: "(string \<Rightarrow> string option) \<Rightarrow> string \<Rightarrow> string \<Rightarrow> string option" where
  "read_android_dt_file rf dt_dir sub_path =
     (case rf (dt_dir @ sub_path) of
        None \<Rightarrow> None
      | Some dt_content \<Rightarrow> if dt_content \<noteq> [] then Some (butlast dt_content) else None)"

definition is_android_dt_value_expected ::
  "(string \<Rightarrow> string option) \<Rightarrow> string \<Rightarrow> string \<Rightarrow> string \<Rightarrow> bool" where
  "is_android_dt_value_expected rf dt_dir sub_path expected_content =
     (read_android_dt_file rf dt_dir sub_path = Some expected_content)"

section \<open>Lemmas\<close>

text \<open>The contexts for new files and sockets that a list of calls leaves set.\<close>

definition fs_context :: "sys_call list \<Rightarrow> string option" where
  "fs_context h = fold (\<lambda>c con. case c of Sys_setfscreatecon x \<Rightarrow> x | _ \<Rightarrow> con) h None"

definition sock_context :: "sys_call list \<Rightarrow> string option" where
  "sock_context h = fold (\<lambda>c con. case c of Sys_setsockcreatecon x \<Rightarrow> x | _ \<Rightarrow> con) h None"

lemmas context_defs = fs_context_def sock_context_def

definition no_bind :: "sys_call list \<Rightarrow> bool" where
  "no_bind cs = (\<forall>fd p. Sys_bind fd p \<notin> set cs)"

lemma bind_socket_result:
  assumes "bind_socket k fd path perm uid gid h = (r, h')"
  shows "fs_context h' = None \<and> sock_context h' = sock_context h
    \<and> (r = fd \<and> h' = h @ [Sys_bind fd path, Sys_setfscreatecon None, Sys_lchown path uid gid, Sys_fchmodat path perm]
       \<or> r = - 1 \<and> (\<exists>cs. no_bind cs \<and> h' = h @ Sys_bind fd path # cs @ [Sys_unlink path, Sys_close fd]))"
  using assms by (auto simp: bind_socket_def Let_def context_defs no_bind_def split: if_splits)

lemma create_socket_cases:
  assumes "create_socket k selabel name type perm uid gid socketcon h = (r, h')" "sock_context h = None"
  shows "(\<exists>pre. r = - 1 \<and> h' = h @ pre \<and> no_bind pre \<and> fs_context h' = fs_context h
      \<and> (last h' \<noteq> Sys_socket type \<and> last h' \<noteq> Sys_setsockcreatecon socketcon \<longrightarrow> sock_context h' = None))
    \<or> (\<exists>pre fd. fd \<ge> 0 \<and> bind_socket k fd (socket_path name) perm uid gid (h @ pre) = (r, h')
      \<and> no_bind pre \<and> sock_context (h @ pre) = None)"
proof -
  define path where "path = socket_path name"
  define lab where "lab = (case selabel of None \<Rightarrow> [] | Some lookup \<Rightarrow>
      (case lookup path S_IFSOCK of None \<Rightarrow> [] | Some filecon \<Rightarrow> [Sys_setfscreatecon (Some filecon)]))"
  define pre where "pre = (case socketcon of None \<Rightarrow> [Sys_socket type]
      | Some c \<Rightarrow> [Sys_setsockcreatecon (Some c), Sys_socket type, Sys_setsockcreatecon None])"
  define fd where "fd = fst (k (h @ (case socketcon of None \<Rightarrow> [] | Some c \<Rightarrow> [Sys_setsockcreatecon (Some c)]))
      (Sys_socket type))"
  have lab: "no_bind (pre @ Sys_unlink path # lab)" "sock_context (h @ pre @ Sys_unlink path # lab) = None"
    using assms(2) by (auto simp: lab_def pre_def no_bind_def context_defs split: option.splits)
  have l: "h4 @ lab = (case selabel of None \<Rightarrow> h4 | Some lookup \<Rightarrow>
      (case lookup path S_IFSOCK of None \<Rightarrow> h4 | Some filecon \<Rightarrow> h4 @ [Sys_setfscreatecon (Some filecon)]))" for h4
    by (simp add: lab_def split: option.splits)
  define q where "q = k (h @ pre) (Sys_unlink path)"
  define sc where "sc = (socketcon \<noteq> None \<and> fst (k h (Sys_setsockcreatecon socketcon)) = - 1)"
  have res: "(r, h') = (if sc then (- 1, h @ [Sys_setsockcreatecon socketcon])
      else if fd < 0 then (- 1, h @ (if socketcon = None then [] else [Sys_setsockcreatecon socketcon]) @ [Sys_socket type])
      else if fst q \<noteq> 0 \<and> snd q \<noteq> ENOENT then (- 1, h @ pre @ [Sys_unlink path, Sys_close fd])
      else bind_socket k fd path perm uid gid (h @ pre @ Sys_unlink path # lab))"
    unfolding assms(1)[symmetric] create_socket_def Let_def path_def[symmetric] l[symmetric]
    by (cases socketcon) (simp_all add: pre_def fd_def sc_def q_def split_beta)
  consider (1) sc | (2) "\<not> sc" "fd < 0" | (3) "\<not> sc" "\<not> fd < 0" "fst q \<noteq> 0 \<and> snd q \<noteq> ENOENT"
    | (4) "\<not> sc" "\<not> fd < 0" "\<not> (fst q \<noteq> 0 \<and> snd q \<noteq> ENOENT)" by blast
  then show ?thesis
  proof cases
    case 1
    then have "h' = h @ [Sys_setsockcreatecon socketcon]" "r = - 1" using res by simp_all
    then show ?thesis
      by (intro disjI1 exI[of _ "[Sys_setsockcreatecon socketcon]"]) (simp add: no_bind_def context_defs)
  next
    case 2
    let ?p = "(if socketcon = None then [] else [Sys_setsockcreatecon socketcon]) @ [Sys_socket type]"
    have "h' = h @ ?p" "r = - 1" using res 2 by simp_all
    then show ?thesis by (intro disjI1 exI[of _ ?p]) (simp add: no_bind_def context_defs)
  next
    case 3
    then have r: "r = - 1" "h' = h @ pre @ [Sys_unlink path, Sys_close fd]" using res by simp_all
    have "no_bind (pre @ [Sys_unlink path, Sys_close fd])" "sock_context h' = None" "fs_context h' = fs_context h"
      using assms(2) r by (simp_all add: pre_def no_bind_def context_defs split: option.splits)
    then show ?thesis using r by (intro disjI1 exI[of _ "pre @ [Sys_unlink path, Sys_close fd]"]) simp
  next
    case 4
    have "(r, h') = bind_socket k fd path perm uid gid (h @ pre @ Sys_unlink path # lab)"
      using res unfolding if_not_P[OF 4(1)] if_not_P[OF 4(2)] if_not_P[OF 4(3)] .
    then have "bind_socket k fd (socket_path name) perm uid gid (h @ (pre @ Sys_unlink path # lab)) = (r, h')"
      unfolding path_def by (rule sym)
    moreover have "0 \<le> fd" using 4(2) by linarith
    ultimately show ?thesis using lab by (intro disjI2 exI conjI)
  qed
qed

lemma wait_loop_found:
  "wait_loop t polls = (if list_ex snd (takeWhile (\<lambda>p. fst p < t) polls) then 0 else - 1)"
proof (induction polls)
  case (Cons p polls)
  then show ?case by (cases p) simp
qed simp

section \<open>Properties\<close>

text \<open>
  C38. A socket is made completely or not at all. Either \<open>create_socket\<close> returns the descriptor
  of a socket that was bound, given to its owner and got its permissions, in this order, and
  it is still open; or it returns -1, and a path it had bound is unlinked and the descriptor
  closed. In every case the context for new files is reset, and the one for new sockets
  unless the socket could not be opened.
\<close>

theorem create_socket_all_or_nothing:
  assumes "create_socket k selabel name type perm uid gid socketcon h = (r, h')"
    and "fs_context h = None" "sock_context h = None"
  shows "fs_context h' = None
    \<and> (last h' \<noteq> Sys_socket type \<and> last h' \<noteq> Sys_setsockcreatecon socketcon \<longrightarrow> sock_context h' = None)
    \<and> (if r \<ge> 0 then (\<exists>hs. h' = hs @ [Sys_bind r (socket_path name), Sys_setfscreatecon None,
           Sys_lchown (socket_path name) uid gid, Sys_fchmodat (socket_path name) perm])
       else r = - 1 \<and> (\<exists>cs. h' = h @ cs \<and> (\<forall>fd. Sys_bind fd (socket_path name) \<in> set cs \<longrightarrow>
           (\<exists>hs. cs = hs @ [Sys_unlink (socket_path name), Sys_close fd]))))"
  using create_socket_cases[OF assms(1,3)]
proof
  assume "\<exists>pre. r = - 1 \<and> h' = h @ pre \<and> no_bind pre \<and> fs_context h' = fs_context h
    \<and> (last h' \<noteq> Sys_socket type \<and> last h' \<noteq> Sys_setsockcreatecon socketcon \<longrightarrow> sock_context h' = None)"
  then show ?thesis using assms(2,3) by (auto simp: no_bind_def)
next
  assume "\<exists>pre fd. fd \<ge> 0 \<and> bind_socket k fd (socket_path name) perm uid gid (h @ pre) = (r, h')
    \<and> no_bind pre \<and> sock_context (h @ pre) = None"
  then obtain pre fd where b: "fd \<ge> 0" "bind_socket k fd (socket_path name) perm uid gid (h @ pre) = (r, h')"
    "no_bind pre" "sock_context (h @ pre) = None" by auto
  note c = bind_socket_result[OF b(2)]
  have ctx: "fs_context h' = None" "sock_context h' = None" using c b(4) by simp_all
  show ?thesis
  proof (cases "r = fd")
    case True
    then have "h' = (h @ pre) @ [Sys_bind r (socket_path name), Sys_setfscreatecon None,
        Sys_lchown (socket_path name) uid gid, Sys_fchmodat (socket_path name) perm]"
      using c b(1) by (elim conjE disjE) simp_all
    then show ?thesis using ctx True b(1) by simp
  next
    case False
    let ?tail = "[Sys_unlink (socket_path name), Sys_close fd]"
    obtain cs where cs: "r = - 1" "h' = (h @ pre) @ Sys_bind fd (socket_path name) # cs @ ?tail" "no_bind cs"
      using c False by (elim conjE disjE exE) simp_all
    have "\<exists>hs. pre @ Sys_bind fd (socket_path name) # cs @ ?tail = hs @ [Sys_unlink (socket_path name), Sys_close fd']"
      if "Sys_bind fd' (socket_path name) \<in> set (pre @ Sys_bind fd (socket_path name) # cs @ ?tail)" for fd'
    proof -
      have "fd' = fd" using that b(3) cs(3) by (simp add: no_bind_def)
      then show ?thesis by (intro exI[of _ "pre @ Sys_bind fd (socket_path name) # cs"]) simp
    qed
    then have "\<exists>cs. h' = h @ cs \<and> (\<forall>fd. Sys_bind fd (socket_path name) \<in> set cs \<longrightarrow>
        (\<exists>hs. cs = hs @ [Sys_unlink (socket_path name), Sys_close fd]))"
      using cs(2) by (intro exI[of _ "pre @ Sys_bind fd (socket_path name) # cs @ ?tail"]) simp
    then show ?thesis using ctx cs(1) by simp
  qed
qed

text \<open>A kernel on which everything succeeds: descriptors are 3, all other results are 0.\<close>

definition good_kernel :: kernel where
  "good_kernel h c = (case c of Sys_socket t \<Rightarrow> (3, 0) | Sys_open_write p \<Rightarrow> (3, 0) | _ \<Rightarrow> (0, 0))"

theorem create_socket_all_or_nothing_witness:
  "fst (create_socket good_kernel None ''x'' 1 0x1B6 0 0 (Some ''con'') []) = 3
   \<and> fs_context (snd (create_socket good_kernel None ''x'' 1 0x1B6 0 0 (Some ''con'') [])) = None"
proof -
  let ?r = "create_socket good_kernel None ''x'' 1 0x1B6 0 0 (Some ''con'') []"
  have "fst ?r = 3" by (simp add: create_socket_def bind_socket_def good_kernel_def Let_def)
  then show ?thesis
    using create_socket_all_or_nothing[of good_kernel None "''x''" 1 "0x1B6" 0 0 "Some ''con''" "[]" "fst ?r" "snd ?r"]
    by (simp add: context_defs prod_eq_iff)
qed

text \<open>
  When the socket cannot be opened, the context for new sockets stays set.
\<close>

lemma create_socket_leaves_context:
  assumes "fst (k h (Sys_setsockcreatecon (Some con))) \<noteq> - 1"
    and "fst (k (h @ [Sys_setsockcreatecon (Some con)]) (Sys_socket type)) < 0"
  shows "sock_context (snd (create_socket k selabel name type perm uid gid (Some con) h)) = Some con"
  using assms by (simp add: create_socket_def Let_def context_defs)

text \<open>
  \<open>wait_for_file\<close> finds a file exactly if it is there at one of its looks before the time
  is over, and returns -1 otherwise.
\<close>

theorem wait_for_file_exact:
  "wait_for_file start polls timeout =
     (if list_ex snd (takeWhile (\<lambda>p. fst p < start + timeout) polls) then 0 else - 1)"
  by (simp add: wait_for_file_def wait_loop_found)

end
