(* ===== verification/Property_Load.thy ===== *)
theory Property_Load
  imports Property_Service Util
begin

text \<open>
  Loading of properties at boot (\<^verbatim>\<open>load_properties\<close> to \<^verbatim>\<open>start_property_service\<close> of
  \<^verbatim>\<open>init/property_service.cpp\<close>).

  A loader returns the calls of \<^verbatim>\<open>property_set\<close> it makes, as pairs of name and value in order
  (\<open>prop_call\<close>); \<open>perform_calls\<close> runs them on the property service. Reading a file does not
  depend on the properties set so far. \<open>rf\<close> is \<open>read_file\<close> at the file system. The code
  writes NUL characters into its copy of the file to cut it into strings; no part that was
  cut off is read again, so the strings themselves are modelled.

  An imported file may import others, so the loader is a partial function.
\<close>

type_synonym prop_call = "string \<times> string"

definition perform_call :: "svc_env \<Rightarrow> prop_call \<Rightarrow> propsvc \<Rightarrow> propsvc option" where
  "perform_call env c ps = map_option snd (property_set env (fst c) (snd c) ps)"

fun perform_calls :: "svc_env \<Rightarrow> prop_call list \<Rightarrow> propsvc \<Rightarrow> propsvc option" where
  "perform_calls env [] ps = Some ps"
| "perform_calls env (c # cs) ps =
     (case perform_call env c ps of None \<Rightarrow> None | Some ps' \<Rightarrow> perform_calls env cs ps')"

section \<open>One line\<close>

datatype prop_line =
    Skip
  | Import string "string option"
  | SetProp string string

definition rstrip :: "string \<Rightarrow> string" where
  "rstrip s = rev (dropWhile isspace (rev s))"

definition filter_accepts :: "string option \<Rightarrow> string \<Rightarrow> bool" where
  "filter_accepts flt key =
     (case flt of
        None \<Rightarrow> True
      | Some f \<Rightarrow>
         if f = [] then True
         else if last f = CHR ''*'' then strncmp key f (length f - 1) = 0
         else key = f)"

definition line_action :: "string option \<Rightarrow> string \<Rightarrow> prop_line" where
  "line_action flt line =
     (let key0 = dropWhile isspace line in
      if key0 \<noteq> [] \<and> hd key0 = CHR ''#'' then Skip
      else
       let key = rstrip key0 in
       if take 7 key = ''import '' \<and> (flt = None \<or> flt = Some []) then
         (let fn = dropWhile isspace (drop 7 key) in
          case strchr_split (CHR '' '') fn of
            None \<Rightarrow> Import fn None
          | Some (file, rest) \<Rightarrow> Import file (Some (dropWhile isspace rest)))
       else
         (case strchr_split (CHR ''='') key of
            None \<Rightarrow> Skip
          | Some (k, v) \<Rightarrow>
             (let k' = rstrip k; v' = dropWhile isspace v in
              if filter_accepts flt k' then SetProp k' v' else Skip)))"

text \<open>The lines of a buffer: what follows the last newline, or a NUL, is not looked at.\<close>

definition data_lines :: "string \<Rightarrow> string list" where
  "data_lines data = butlast (split_on (CHR 0x0A) (c_str data))"

section \<open>Files\<close>

partial_function (option) load_lines ::
  "(string \<Rightarrow> string option) \<Rightarrow> string option \<Rightarrow> string list \<Rightarrow> prop_call list option" where
  "load_lines rf flt lines =
     (case lines of
        [] \<Rightarrow> Some []
      | line # rest \<Rightarrow>
         (case line_action flt line of
            Skip \<Rightarrow> load_lines rf flt rest
          | SetProp k v \<Rightarrow>
              Option.bind (load_lines rf flt rest) (\<lambda>cs. Some ((k, v) # cs))
          | Import fn flt' \<Rightarrow>
             (case rf fn of
                None \<Rightarrow> load_lines rf flt rest
              | Some data \<Rightarrow>
                  Option.bind (load_lines rf flt' (data_lines (data @ [CHR 0x0A])))
                    (\<lambda>cs. Option.bind (load_lines rf flt rest) (\<lambda>ds. Some (cs @ ds))))))"

definition load_properties ::
  "(string \<Rightarrow> string option) \<Rightarrow> string \<Rightarrow> string option \<Rightarrow> prop_call list option" where
  "load_properties rf data flt = load_lines rf flt (data_lines data)"

text \<open>The result says whether the file could be read.\<close>

definition load_properties_from_file ::
  "(string \<Rightarrow> string option) \<Rightarrow> string \<Rightarrow> string option \<Rightarrow> (bool \<times> prop_call list) option" where
  "load_properties_from_file rf filename flt =
     (case rf filename of
        None \<Rightarrow> Some (False, [])
      | Some data \<Rightarrow>
          map_option (Pair True) (load_properties rf (data @ [CHR 0x0A]) flt))"

section \<open>Persistent properties\<close>

text \<open>
  An entry of the directory. \<open>pf_file\<close> is \<open>None\<close> when the file cannot be opened, \<open>pf_stat\<close>
  when its status cannot be read, and \<open>pf_read\<close> when the read fails.
\<close>

record file_stat =
  fs_mode :: u32
  fs_uid :: u32
  fs_gid :: u32
  fs_nlink :: nat

record persist_file =
  pf_name :: string
  pf_regular :: bool
  pf_open :: bool
  pf_stat :: "file_stat option"
  pf_read :: "string option"

definition S_IRWXG :: u32 where "S_IRWXG = 0x38"
definition S_IRWXO :: u32 where "S_IRWXO = 0x7"

definition persist_entry :: "persist_file \<Rightarrow> prop_call list" where
  "persist_entry e =
     (if \<not> starts_with (pf_name e) ''persist.'' then []
      else if \<not> pf_regular e then []
      else if \<not> pf_open e then []
      else
       (case pf_stat e of
          None \<Rightarrow> []
        | Some sb \<Rightarrow>
           if fs_mode sb AND (S_IRWXG OR S_IRWXO) \<noteq> 0 \<or> fs_uid sb \<noteq> 0 \<or> fs_gid sb \<noteq> 0
              \<or> fs_nlink sb \<noteq> 1 then []
           else
            (case pf_read e of
               None \<Rightarrow> []
             | Some data \<Rightarrow> [(pf_name e, c_str (take (PROP_VALUE_MAX - 1) data))])))"

text \<open>\<open>dir\<close> is \<open>None\<close> when the directory cannot be opened.\<close>

definition load_persistent_properties :: "svc_env \<Rightarrow> persist_file list option \<Rightarrow> propsvc \<Rightarrow> propsvc option" where
  "load_persistent_properties env dir ps0 =
     (let ps = ps0\<lparr>ps_loaded := True\<rparr> in
      case dir of
        None \<Rightarrow> Some ps
      | Some entries \<Rightarrow> perform_calls env (concat (map persist_entry entries)) ps)"

section \<open>The order of loading\<close>

definition update_sys_usb_config :: "(string \<Rightarrow> string) \<Rightarrow> bool \<Rightarrow> prop_call list" where
  "update_sys_usb_config gp is_debuggable =
     (let config = gp ''persist.sys.usb.config'' in
      if config = [] then [(''persist.sys.usb.config'', if is_debuggable then ''adb'' else ''none'')]
      else if is_debuggable \<and> \<not> sublist ''adb'' config \<and> length config + 4 < PROP_VALUE_MAX
      then [(''persist.sys.usb.config'', config @ '',adb'')]
      else [])"

text \<open>Loading one file and running its calls; the result says whether the file was read.\<close>

definition load_file ::
  "svc_env \<Rightarrow> (string \<Rightarrow> string option) \<Rightarrow> string \<Rightarrow> string option \<Rightarrow> propsvc \<Rightarrow> (bool \<times> propsvc) option" where
  "load_file env rf filename flt ps =
     (case load_properties_from_file rf filename flt of
        None \<Rightarrow> None
      | Some (ok, cs) \<Rightarrow> map_option (Pair ok) (perform_calls env cs ps))"

text \<open>\<open>gp\<close> and \<open>gb\<close> read a property of the service, as text and as a truth value.\<close>

definition property_load_boot_defaults ::
  "svc_env \<Rightarrow> (string \<Rightarrow> string option) \<Rightarrow> (propsvc \<Rightarrow> string \<Rightarrow> string) \<Rightarrow> (propsvc \<Rightarrow> string \<Rightarrow> bool)
   \<Rightarrow> propsvc \<Rightarrow> propsvc option" where
  "property_load_boot_defaults env rf gp gb ps0 = do {
     (ok1, ps1) \<leftarrow> load_file env rf ''/system/etc/prop.default'' None ps0;
     (ok2, ps2) \<leftarrow> (if ok1 then Some (True, ps1) else load_file env rf ''/prop.default'' None ps1);
     (ok3, ps3) \<leftarrow> (if ok2 then Some (True, ps2) else load_file env rf ''/default.prop'' None ps2);
     (_, ps4) \<leftarrow> load_file env rf ''/odm/default.prop'' None ps3;
     (_, ps5) \<leftarrow> load_file env rf ''/vendor/default.prop'' None ps4;
     perform_calls env (update_sys_usb_config (gp ps5) (gb ps5 ''ro.debuggable'')) ps5
   }"

definition load_override_properties ::
  "bool \<Rightarrow> svc_env \<Rightarrow> (string \<Rightarrow> string option) \<Rightarrow> propsvc \<Rightarrow> propsvc option" where
  "load_override_properties allow_local_prop_override env rf ps =
     (if allow_local_prop_override then map_option snd (load_file env rf ''/data/local.prop'' None ps)
      else Some ps)"

definition load_persist_props ::
  "bool \<Rightarrow> svc_env \<Rightarrow> (string \<Rightarrow> string option) \<Rightarrow> persist_file list option \<Rightarrow> propsvc \<Rightarrow> propsvc option" where
  "load_persist_props allow env rf dir ps0 = do {
     ps1 \<leftarrow> load_override_properties allow env rf ps0;
     ps2 \<leftarrow> load_persistent_properties env dir ps1;
     perform_call env (''ro.persistent_properties.ready'', ''true'') ps2
   }"

text \<open>\<open>recovery_id\<close> holds the id bytes of the boot image header when all steps to read it succeed.\<close>

definition load_recovery_id_prop :: "svc_env \<Rightarrow> 8 word list option \<Rightarrow> propsvc \<Rightarrow> propsvc option" where
  "load_recovery_id_prop env recovery_id ps =
     (case recovery_id of
        None \<Rightarrow> Some ps
      | Some bytes \<Rightarrow> perform_call env (''ro.recovery_id'', bytes_to_hex bytes) ps)"

definition load_system_props ::
  "svc_env \<Rightarrow> (string \<Rightarrow> string option) \<Rightarrow> 8 word list option \<Rightarrow> propsvc \<Rightarrow> propsvc option" where
  "load_system_props env rf recovery_id ps0 = do {
     (_, ps1) \<leftarrow> load_file env rf ''/system/build.prop'' None ps0;
     (_, ps2) \<leftarrow> load_file env rf ''/odm/build.prop'' None ps1;
     (_, ps3) \<leftarrow> load_file env rf ''/vendor/build.prop'' None ps2;
     (_, ps4) \<leftarrow> load_file env rf ''/factory/factory.prop'' (Some ''ro.*'') ps3;
     load_recovery_id_prop env recovery_id ps4
   }"

section \<open>Lemmas\<close>

text \<open>A file imported_files another when one of its lines says so.\<close>

definition imported_files :: "string option \<Rightarrow> string list \<Rightarrow> string set" where
  "imported_files flt lines = {fn. \<exists>line \<in> set lines. \<exists>f. line_action flt line = Import fn f}"

lemma load_lines_total:
  assumes "\<And>fn data f. rf fn = Some data \<Longrightarrow>
      \<forall>g \<in> imported_files f (data_lines (data @ [CHR 0x0A])). rank g < (rank fn :: nat)"
  shows "\<forall>g \<in> imported_files flt lines. rank g < n \<Longrightarrow> \<exists>cs. load_lines rf flt lines = Some cs"
proof (induction n arbitrary: flt lines rule: less_induct)
  case (less n)
  from less.prems show ?case
  proof (induction lines)
    case Nil
    then show ?case by (simp add: load_lines.simps)
  next
    case (Cons line rest)
    have "\<forall>g \<in> imported_files flt rest. rank g < n" using Cons.prems by (auto simp: imported_files_def)
    then obtain ds where ds: "load_lines rf flt rest = Some ds" using Cons.IH by blast
    show ?case
    proof (cases "line_action flt line")
      case (Import fn f)
      show ?thesis
      proof (cases "rf fn")
        case None
        then show ?thesis using Import ds by (simp add: load_lines.simps[of rf flt "line # rest"])
      next
        case (Some data)
        have "rank fn < n" using Cons.prems Import by (force simp: imported_files_def)
        then obtain cs where "load_lines rf f (data_lines (data @ [CHR 0x0A])) = Some cs"
          using less.IH assms[OF Some] by blast
        then show ?thesis using Import Some ds by (simp add: load_lines.simps[of rf flt "line # rest"])
      qed
    qed (use ds in \<open>simp_all add: load_lines.simps[of rf flt "line # rest"]\<close>)
  qed
qed

lemma strncmp_zero_take:
  "strncmp a b n = 0 \<Longrightarrow> n \<le> length b \<Longrightarrow> NUL \<notin> set (take n b) \<Longrightarrow> take n a = take n b"
proof (induction a b n rule: strncmp.induct)
  case (3 y ys n)
  have "(of_char y :: nat) \<noteq> of_char NUL" using 3 of_char_eq_iff[of y NUL] by auto
  then show ?case using 3 by simp
next
  case (5 x xs y ys n)
  have "x = y" using 5(2) of_char_eq_iff[of x y, where ?'a = nat] by (auto split: if_splits)
  then show ?case using 5 by auto
qed simp_all

lemma factory_filter:
  "load_lines rf (Some ''ro.*'') lines = Some cs \<Longrightarrow> \<forall>(k, v) \<in> set cs. starts_with k ''ro.''"
proof (induction lines arbitrary: cs)
  case Nil
  then show ?case by (simp add: load_lines.simps)
next
  case (Cons line rest)
  have acc: "filter_accepts (Some ''ro.*'') k \<Longrightarrow> starts_with k ''ro.''" for k
  proof -
    assume "filter_accepts (Some ''ro.*'') k"
    then have "strncmp k ''ro.*'' 3 = 0" by (simp add: filter_accepts_def numeral_3_eq_3)
    from strncmp_zero_take[OF this] show "starts_with k ''ro.''" by (simp add: numeral_3_eq_3)
  qed
  have "line_action (Some ''ro.*'') line \<noteq> Import f g" for f g
    by (simp add: line_action_def Let_def split: option.split)
  moreover have "line_action (Some ''ro.*'') line = SetProp k v \<Longrightarrow> starts_with k ''ro.''" for k v
    using acc by (auto simp del: starts_with_code simp: line_action_def Let_def split: option.splits if_splits)
  ultimately show ?case
    using Cons by (auto simp del: starts_with_code simp: load_lines.simps[of rf _ "line # rest"] split: prop_line.splits bind_splits)
qed

section \<open>Properties\<close>

text \<open>
  C37. Loading a property file ends when no file imports itself, directly or through others
  (files can be ranked so that every import goes down), whatever the files contain; and what a
  filter such as the one for \<^verbatim>\<open>/factory/factory.prop\<close> lets through are read-only properties
  only, with no import followed.
\<close>

theorem property_files_load:
  assumes "\<And>fn data f. rf fn = Some data \<Longrightarrow>
      \<forall>g \<in> imported_files f (data_lines (data @ [CHR 0x0A])). rank g < (rank fn :: nat)"
  shows "(\<exists>ok cs. load_properties_from_file rf filename flt = Some (ok, cs))
    \<and> (\<forall>ok cs. load_properties_from_file rf filename (Some ''ro.*'') = Some (ok, cs) \<longrightarrow>
         (\<forall>(k, v) \<in> set cs. starts_with k ''ro.''))"
proof (cases "rf filename")
  case None
  then show ?thesis by (auto simp: load_properties_from_file_def)
next
  case (Some data)
  have "\<exists>cs. load_lines rf flt (data_lines (data @ [CHR 0x0A])) = Some cs"
    by (rule load_lines_total[of rf rank, OF assms]) (assumption, use assms[OF Some] in blast)
  then have "\<exists>ok cs. load_properties_from_file rf filename flt = Some (ok, cs)"
    using Some by (auto simp: load_properties_from_file_def load_properties_def)
  moreover have "\<forall>(k, v) \<in> set cs. starts_with k ''ro.''"
    if "load_properties_from_file rf filename (Some ''ro.*'') = Some (ok, cs)" for ok cs
    by (rule factory_filter[of rf "data_lines (data @ [CHR 0x0A])"])
      (use that Some in \<open>auto simp: load_properties_from_file_def load_properties_def\<close>)
  ultimately show ?thesis by blast
qed

definition sample_files :: "string \<Rightarrow> string option" where
  "sample_files fn =
     (if fn = ''/a'' then Some (''ro.x = 1 '' @ [CHR 0x0A] @ ''y=2'') else None)"

theorem property_files_load_witness:
  "load_properties_from_file sample_files ''/a'' (Some ''ro.*'') = Some (True, [(''ro.x'', ''1'')])
   \<and> (\<exists>ok cs. load_properties_from_file sample_files ''/a'' None = Some (ok, cs))"
proof -
  have lines: "data_lines (''ro.x = 1 '' @ [CHR 0x0A] @ ''y=2'' @ [CHR 0x0A]) = [''ro.x = 1 '', ''y=2'']"
    by (simp add: data_lines_def c_str_def split_on.simps)
  have no: "imported_files f [''ro.x = 1 '', ''y=2''] = {}" for f
    by (auto simp: imported_files_def line_action_def Let_def rstrip_def isspace_def split: if_splits option.splits)
  have "load_properties_from_file sample_files ''/a'' (Some ''ro.*'') = Some (True, [(''ro.x'', ''1'')])"
    using lines
    by (simp add: load_properties_from_file_def load_properties_def sample_files_def load_lines.simps
        line_action_def Let_def rstrip_def isspace_def filter_accepts_def)
  moreover have "\<exists>ok cs. load_properties_from_file sample_files ''/a'' None = Some (ok, cs)"
    by (rule property_files_load[THEN conjunct1, of _ "\<lambda>_. 0"])
      (use lines no in \<open>auto simp: sample_files_def split: if_splits\<close>)
  ultimately show ?thesis by blast
qed

end
