(* ===== verification/Builtins.thy ===== *)
theory Builtins
  imports Init_Main Kernel_Calls Property_Load
begin

text \<open>
  The builtin commands (\<^verbatim>\<open>init/builtins.cpp\<close>) and the builtin actions of the main program
  (\<^verbatim>\<open>init/init.cpp\<close>), as functions on one state that holds the services, the properties, the
  environment and the calls made to the kernel. \<open>run_builtin\<close> composes them into the function
  the action manager runs.

  A property that is set is stored by the property service, and the change is passed on at
  once: it may end the waiting for a property and queues a property trigger. \<open>b_broken\<close> is set
  where the source has undefined behaviour or does not return.
\<close>

section \<open>State\<close>

datatype builtin =
    Do_bootchart | Do_chmod | Do_chown | Do_class_reset | Do_class_restart | Do_class_start
  | Do_class_stop | Do_copy | Do_domainname | Do_enable | Do_exec | Do_exec_start | Do_export
  | Do_hostname | Do_ifup | Do_init_user0 | Do_insmod | Do_installkey | Do_load_persist_props
  | Do_load_system_props | Do_loglevel | Do_mkdir | Do_mount_all | Do_mount | Do_umount
  | Do_restart | Do_restorecon | Do_restorecon_recursive | Do_rm | Do_rmdir | Do_setprop
  | Do_setrlimit | Do_start | Do_stop | Do_swapon_all | Do_symlink | Do_sysclktz | Do_trigger
  | Do_verity_load_state | Do_verity_update_state | Do_wait | Do_wait_for_prop | Do_write
  | Wait_for_coldboot_done | Mix_hwrng | Set_mmap_rnd_bits | Set_kptr_restrict | Keychord_init
  | Console_init | Queue_property_triggers | Property_enable_triggers

datatype log_severity = Sev_DEBUG | Sev_INFO | Sev_WARNING | Sev_ERROR | Sev_FATAL

record bworld =
  b_init :: "builtin init_world"
  b_props :: propsvc
  b_calls :: "sys_call list"
  b_severity :: log_severity
  b_console :: string
  b_system_loaded :: bool
  b_vendor_loaded :: bool
  b_odm_loaded :: bool
  b_broken :: bool

text \<open>
  What the builtins ask of the kernel and of libraries. \<open>be_mntall\<close> gives the numbers of the
  result codes of \<^verbatim>\<open>fs_mgr_mount_all\<close>, \<open>be_coldboot_done\<close> and \<open>be_e4crypt_folder\<close> are constants of
  headers that are not part of the repository, and \<open>be_relabel\<close> the flags of \<^verbatim>\<open>restorecon\<close> in the order
  recursive, skip-ce, cross-filesystems. \<open>be_verity\<close> are the calls \<^verbatim>\<open>fs_mgr_update_verity_state\<close>
  makes to its callback, and its result. \<open>be_option\<close> is the outcome of an attempt to write a
  value to a kernel option: \<open>None\<close> if the file cannot be opened, else what is read back.
\<close>

datatype mntall = NEEDS_ENCRYPTION | MIGHT_BE_ENCRYPTED | NOT_ENCRYPTED | NOT_ENCRYPTABLE | NEEDS_RECOVERY | FILE_ENCRYPTED

datatype arch = Aarch64 | X86_64 | Arm_or_I386 | Mips | Unknown_arch

record benv =
  be_svc :: svc_env
  be_gp :: "propsvc \<Rightarrow> string \<Rightarrow> string"
  be_lib :: "builtin svc_lib"
  be_parse_uint :: "string \<Rightarrow> int option"
  be_senv :: "bworld \<Rightarrow> string \<Rightarrow> service_env"
  be_kernel :: kernel
  be_selabel :: "(string \<Rightarrow> u32 \<Rightarrow> string option) option"
  be_read_file :: "bworld \<Rightarrow> string \<Rightarrow> string option"
  be_is_dir :: "bworld \<Rightarrow> string \<Rightarrow> bool"
  be_readdir :: "bworld \<Rightarrow> string \<Rightarrow> string list option"
  be_polls :: "bworld \<Rightarrow> string \<Rightarrow> int \<times> (int \<times> bool) list"
  be_elapsed :: "bworld \<Rightarrow> string"
  be_persist_dir :: "bworld \<Rightarrow> persist_file list option"
  be_allow_override :: bool
  be_recovery_id :: "bworld \<Rightarrow> 8 word list option"
  be_mntall :: "mntall \<Rightarrow> int"
  be_relabel :: "u32 \<times> u32 \<times> u32"
  be_verity_default :: int
  be_verity :: "(string \<times> int) list \<times> bool"
  be_coldboot_done :: string
  be_e4crypt_folder :: string
  be_arch :: arch
  be_readable :: "string \<Rightarrow> bool"
  be_option :: "string \<Rightarrow> int \<Rightarrow> string option"
  be_hwrng :: "bworld \<Rightarrow> int \<times> int \<times> int \<times> (int \<times> int) list"

type_synonym breply = "int \<times> builtin am_op list \<times> bworld"

definition ask :: "benv \<Rightarrow> sys_call \<Rightarrow> bworld \<Rightarrow> (int \<times> int) \<times> bworld" where
  "ask E c w = (be_kernel E (b_calls w) c, w\<lparr>b_calls := b_calls w @ [c]\<rparr>)"

section \<open>Properties and services\<close>

definition changed :: "string \<Rightarrow> string \<Rightarrow> bworld \<Rightarrow> builtin am_op list \<times> bworld" where
  "changed n v w =
     (if property_triggers_enabled (b_init w) then [OpQueueProperty n v] else [],
      w\<lparr>b_init := snd (property_changed n v (new_action_manager, b_init w))\<rparr>)"

fun notify :: "prop_event list \<Rightarrow> bworld \<Rightarrow> builtin am_op list \<times> bworld" where
  "notify [] w = ([], w)"
| "notify (Property_Changed n v # es) w =
     (case changed n v w of (ops, w1) \<Rightarrow> (case notify es w1 of (ops', w2) \<Rightarrow> (ops @ ops', w2)))"
| "notify (e # es) w = notify es w"

text \<open>A step of the property service, with the notifications it causes.\<close>

definition props_step :: "(propsvc \<Rightarrow> propsvc option) \<Rightarrow> bworld \<Rightarrow> builtin am_op list \<times> bworld" where
  "props_step f w =
     (case f (b_props w) of
        None \<Rightarrow> ([], w\<lparr>b_broken := True\<rparr>)
      | Some ps \<Rightarrow> notify (drop (length (ps_events (b_props w))) (ps_events ps)) (w\<lparr>b_props := ps\<rparr>))"

definition set_prop :: "benv \<Rightarrow> string \<Rightarrow> string \<Rightarrow> bworld \<Rightarrow> builtin am_op list \<times> bworld" where
  "set_prop E n v = props_step (perform_call (be_svc E) (n, v))"

fun perform :: "benv \<Rightarrow> builtin svc_effect list \<Rightarrow> bworld \<Rightarrow> builtin am_op list \<times> bworld" where
  "perform E [] w = ([], w)"
| "perform E (PropertySet n v # es) w =
     (case set_prop E n v w of (ops, w1) \<Rightarrow> (case perform E es w1 of (ops', w2) \<Rightarrow> (ops @ ops', w2)))"
| "perform E (e # es) w =
     perform E es (w\<lparr>b_init := (b_init w)\<lparr>in_effects := in_effects (b_init w) @ [e]\<rparr>\<rparr>)"

definition put_sm :: "builtin service_manager \<Rightarrow> bworld \<Rightarrow> bworld" where
  "put_sm sm w = w\<lparr>b_init := (b_init w)\<lparr>in_sm := sm\<rparr>\<rparr>"

definition sm_of :: "bworld \<Rightarrow> builtin service_manager" where
  "sm_of w = in_sm (b_init w)"

definition finish :: "int \<Rightarrow> builtin am_op list \<times> bworld \<Rightarrow> breply" where
  "finish r p = (r, fst p, snd p)"

text \<open>An operation on the service a command names.\<close>

definition on_service ::
  "benv \<Rightarrow> (service_env \<Rightarrow> builtin service \<Rightarrow> int \<times> builtin service \<times> builtin svc_effect list)
   \<Rightarrow> string \<Rightarrow> bworld \<Rightarrow> breply" where
  "on_service E f name w =
     (case FindServiceByName name (sm_of w) of
        None \<Rightarrow> (- 1, [], w)
      | Some svc \<Rightarrow>
         (case f (be_senv E w name) svc of
            (r, svc', es) \<Rightarrow> finish r (perform E es (put_sm (update_service svc' (sm_of w)) w))))"

definition do_start :: "benv \<Rightarrow> string list \<Rightarrow> bworld \<Rightarrow> breply" where
  "do_start E args = on_service E (\<lambda>env s. case Start env s of (ok, s', es) \<Rightarrow> (if ok then 0 else - 1, s', es)) (args ! 1)"

definition do_stop :: "benv \<Rightarrow> string list \<Rightarrow> bworld \<Rightarrow> breply" where
  "do_stop E args = on_service E (\<lambda>env s. (0, Stop s)) (args ! 1)"

definition do_restart :: "benv \<Rightarrow> string list \<Rightarrow> bworld \<Rightarrow> breply" where
  "do_restart E args = on_service E (\<lambda>env s. (0, Restart env s)) (args ! 1)"

text \<open>The result of \<open>do_enable\<close> is the truth value \<^verbatim>\<open>Enable\<close> returns.\<close>

definition do_enable :: "benv \<Rightarrow> string list \<Rightarrow> bworld \<Rightarrow> breply" where
  "do_enable E args =
     on_service E (\<lambda>env s. case Enable env s of (ok, s', es) \<Rightarrow> (if ok then 1 else 0, s', es)) (args ! 1)"

definition on_class ::
  "benv \<Rightarrow> (service_env \<Rightarrow> builtin service \<Rightarrow> builtin service \<times> builtin svc_effect list)
   \<Rightarrow> string \<Rightarrow> bworld \<Rightarrow> breply" where
  "on_class E f c w =
     (case ForEachServiceInClass c (\<lambda>s. f (be_senv E w (svc_name s)) s) (sm_of w) of
        (sm, es) \<Rightarrow> finish 0 (perform E es (put_sm sm w)))"

definition do_class_start :: "benv \<Rightarrow> string list \<Rightarrow> bworld \<Rightarrow> breply" where
  "do_class_start E args = on_class E (\<lambda>env s. snd (StartIfNotDisabled env s)) (args ! 1)"

definition do_class_stop :: "benv \<Rightarrow> string list \<Rightarrow> bworld \<Rightarrow> breply" where
  "do_class_stop E args = on_class E (\<lambda>env. Stop) (args ! 1)"

definition do_class_reset :: "benv \<Rightarrow> string list \<Rightarrow> bworld \<Rightarrow> breply" where
  "do_class_reset E args = on_class E (\<lambda>env. Reset) (args ! 1)"

definition do_class_restart :: "benv \<Rightarrow> string list \<Rightarrow> bworld \<Rightarrow> breply" where
  "do_class_restart E args = on_class E Restart (args ! 1)"

definition do_exec :: "benv \<Rightarrow> string list \<Rightarrow> bworld \<Rightarrow> breply" where
  "do_exec E args w =
     (case Exec (be_lib E) (be_senv E w ''exec'') args (sm_of w) of
        (ok, sm, es) \<Rightarrow> finish (if ok then 0 else - 1) (perform E es (put_sm sm w)))"

definition do_exec_start :: "benv \<Rightarrow> string list \<Rightarrow> bworld \<Rightarrow> breply" where
  "do_exec_start E args w =
     (case ExecStart (be_senv E w (args ! 1)) (args ! 1) (sm_of w) of
        (ok, sm, es) \<Rightarrow> finish (if ok then 0 else - 1) (perform E es (put_sm sm w)))"

definition do_export :: "benv \<Rightarrow> string list \<Rightarrow> bworld \<Rightarrow> breply" where
  "do_export E args w =
     (case add_environment (c_str (args ! 1)) (c_str (args ! 2)) (in_env (b_init w)) of
        (r, env) \<Rightarrow> (r, [], w\<lparr>b_init := (b_init w)\<lparr>in_env := env\<rparr>\<rparr>))"

definition do_setprop :: "benv \<Rightarrow> string list \<Rightarrow> bworld \<Rightarrow> breply" where
  "do_setprop E args w = finish 0 (set_prop E (c_str (args ! 1)) (c_str (args ! 2)) w)"

definition do_trigger :: "benv \<Rightarrow> string list \<Rightarrow> bworld \<Rightarrow> breply" where
  "do_trigger E args w = (0, [OpQueueEvent (args ! 1)], w)"

definition do_wait_for_prop :: "benv \<Rightarrow> string list \<Rightarrow> bworld \<Rightarrow> breply" where
  "do_wait_for_prop E args w =
     (let name = c_str (args ! 1); val = c_str (args ! 2) in
      if \<not> is_legal_property_name name then (- 1, [], w)
      else if length val \<ge> PROP_VALUE_MAX then (- 1, [], w)
      else
       (case start_waiting_for_property (be_gp E (b_props w)) name val (b_init w) of
          (ok, iw) \<Rightarrow> (if ok then 0 else - 1, [], w\<lparr>b_init := iw\<rparr>)))"

definition do_load_persist_props :: "benv \<Rightarrow> string list \<Rightarrow> bworld \<Rightarrow> breply" where
  "do_load_persist_props E args w =
     finish 0 (props_step (load_persist_props (be_allow_override E) (be_svc E) (be_read_file E w) (be_persist_dir E w)) w)"

definition do_load_system_props :: "benv \<Rightarrow> string list \<Rightarrow> bworld \<Rightarrow> breply" where
  "do_load_system_props E args w =
     finish 0 (props_step (load_system_props (be_svc E) (be_read_file E w) (be_recovery_id E w)) w)"

section \<open>Files\<close>

text \<open>\<^verbatim>\<open>-errno\<close> for a call that failed.\<close>

definition errno_result :: "(int \<times> int) \<times> bworld \<Rightarrow> breply" where
  "errno_result p = (case p of ((r, errno), w) \<Rightarrow> (if r = - 1 then - errno else 0, [], w))"

text \<open>The result of a call passed on as it is.\<close>

definition direct :: "benv \<Rightarrow> sys_call \<Rightarrow> bworld \<Rightarrow> breply" where
  "direct E c w = (case ask E c w of ((r, _), w') \<Rightarrow> (r, [], w'))"

definition b_write_file :: "benv \<Rightarrow> string \<Rightarrow> string \<Rightarrow> bworld \<Rightarrow> breply" where
  "b_write_file E path text w =
     (case write_file (be_kernel E) path text (b_calls w) of
        (ok, h) \<Rightarrow> (if ok then 0 else 1, [], w\<lparr>b_calls := h\<rparr>))"

definition do_domainname :: "benv \<Rightarrow> string list \<Rightarrow> bworld \<Rightarrow> breply" where
  "do_domainname E args = b_write_file E ''/proc/sys/kernel/domainname'' (args ! 1)"

definition do_hostname :: "benv \<Rightarrow> string list \<Rightarrow> bworld \<Rightarrow> breply" where
  "do_hostname E args = b_write_file E ''/proc/sys/kernel/hostname'' (args ! 1)"

definition do_write :: "benv \<Rightarrow> string list \<Rightarrow> bworld \<Rightarrow> breply" where
  "do_write E args = b_write_file E (args ! 1) (args ! 2)"

definition do_copy :: "benv \<Rightarrow> string list \<Rightarrow> bworld \<Rightarrow> breply" where
  "do_copy E args w =
     (case be_read_file E w (args ! 1) of
        None \<Rightarrow> (1, [], w)
      | Some text \<Rightarrow> b_write_file E (args ! 2) text w)"

definition do_symlink :: "benv \<Rightarrow> string list \<Rightarrow> bworld \<Rightarrow> breply" where
  "do_symlink E args = direct E (Sys_symlink (c_str (args ! 1)) (c_str (args ! 2)))"

definition do_rm :: "benv \<Rightarrow> string list \<Rightarrow> bworld \<Rightarrow> breply" where
  "do_rm E args = direct E (Sys_unlink (c_str (args ! 1)))"

definition do_rmdir :: "benv \<Rightarrow> string list \<Rightarrow> bworld \<Rightarrow> breply" where
  "do_rmdir E args = direct E (Sys_rmdir (c_str (args ! 1)))"

definition do_umount :: "benv \<Rightarrow> string list \<Rightarrow> bworld \<Rightarrow> breply" where
  "do_umount E args = direct E (Sys_umount (c_str (args ! 1)))"

definition b_decode_uid :: "benv \<Rightarrow> string \<Rightarrow> u32" where
  "b_decode_uid E = decode_uid (getpwnam (be_lib E))"

definition do_chown :: "benv \<Rightarrow> string list \<Rightarrow> bworld \<Rightarrow> breply" where
  "do_chown E args w =
     (if length args = 3
      then errno_result (ask E (Sys_lchown (c_str (args ! 2)) (b_decode_uid E (args ! 1)) (- 1)) w)
      else if length args = 4
      then errno_result (ask E (Sys_lchown (c_str (args ! 3)) (b_decode_uid E (args ! 1)) (b_decode_uid E (args ! 2))) w)
      else (- 1, [], w))"

fun get_mode_loop :: "u32 \<Rightarrow> string \<Rightarrow> u32" where
  "get_mode_loop mode [] = mode"
| "get_mode_loop mode (c # s) =
     (if in_range (CHR ''0'') (CHR ''7'') c then get_mode_loop (push_bit 3 mode OR word_of_int (digit_val c)) s
      else - 1)"

definition get_mode :: "string \<Rightarrow> u32" where
  "get_mode s = get_mode_loop 0 (c_str s)"

definition do_chmod :: "benv \<Rightarrow> string list \<Rightarrow> bworld \<Rightarrow> breply" where
  "do_chmod E args w =
     (case ask E (Sys_fchmodat (c_str (args ! 2)) (get_mode (args ! 1))) w of
        ((r, errno), w') \<Rightarrow> (if r < 0 then - errno else 0, [], w'))"

definition S_ISUID :: u32 where "S_ISUID = 0x800"
definition S_ISGID :: u32 where "S_ISGID = 0x400"

definition reboot_into_recovery :: "benv \<Rightarrow> string list \<Rightarrow> bworld \<Rightarrow> int \<times> bworld" where
  "reboot_into_recovery E options w =
     (case ask E (Lib_write_bootloader_message options) w of
        ((r, _), w1) \<Rightarrow>
          if r = 0 then (- 1, w1) else (0, snd (ask E (Lib_reboot ''recovery'') w1)))"

text \<open>The steps of \<open>do_mkdir\<close> in the order of the source; a result ends the command.\<close>

definition mkdir_mode :: "string list \<Rightarrow> u32" where
  "mkdir_mode args = (if length args \<ge> 3 then word_of_int (strtoul8 (args ! 2)) else 0x1ED)"

definition mkdir_policy :: "benv \<Rightarrow> string \<Rightarrow> bworld \<Rightarrow> breply" where
  "mkdir_policy E path w =
     (case ask E (Lib_call ''e4crypt_is_native'' []) w of
        ((native, _), w1) \<Rightarrow>
          if native = 0 then (0, [], w1)
          else
           (case ask E (Lib_call ''e4crypt_set_directory_policy'' [path]) w1 of
              ((r, _), w2) \<Rightarrow>
                if r \<noteq> 0 then
                  (- 1, [], snd (reboot_into_recovery E
                     [''--prompt_and_wipe_data'', ''--reason=set_policy_failed:'' @ path] w2))
                else (0, [], w2)))"

definition mkdir_owner :: "benv \<Rightarrow> string list \<Rightarrow> string \<Rightarrow> u32 \<Rightarrow> bworld \<Rightarrow> breply" where
  "mkdir_owner E args path mode w =
     (if length args < 4 then mkdir_policy E (args ! 1) w
      else
       let gid = (if length args = 5 then b_decode_uid E (args ! 4) else - 1) in
       case ask E (Sys_lchown path (b_decode_uid E (args ! 3)) gid) w of
         ((r, errno), w1) \<Rightarrow>
           if r = - 1 then (- errno, [], w1)
           else if mode AND (S_ISUID OR S_ISGID) \<noteq> 0 then
             (case ask E (Sys_fchmodat path mode) w1 of
                ((r', errno'), w2) \<Rightarrow>
                  if r' = - 1 then (- errno', [], w2) else mkdir_policy E (args ! 1) w2)
           else mkdir_policy E (args ! 1) w1)"

definition do_mkdir :: "benv \<Rightarrow> string list \<Rightarrow> bworld \<Rightarrow> breply" where
  "do_mkdir E args w =
     (let path = c_str (args ! 1); mode = mkdir_mode args in
      case make_dir (be_kernel E) (be_selabel E) path mode (b_calls w) of
        ((r, errno), h) \<Rightarrow>
          let w1 = w\<lparr>b_calls := h\<rparr> in
          if r = - 1 \<and> errno = EEXIST then
            (case ask E (Sys_fchmodat path mode) w1 of
               ((r', errno'), w2) \<Rightarrow>
                 if r' = - 1 then (- errno', [], w2) else mkdir_owner E args path mode w2)
          else if r = - 1 then (- errno, [], w1)
          else mkdir_owner E args path mode w1)"

fun relabel_loop :: "benv \<Rightarrow> u32 \<Rightarrow> bool \<Rightarrow> int \<Rightarrow> string list \<Rightarrow> bworld \<Rightarrow> breply" where
  "relabel_loop E flag in_flags ret [] w = (ret, [], w)"
| "relabel_loop E flag in_flags ret (a # as) w =
     (if starts_with a ''--'' then
        (if \<not> in_flags then (- 1, [], w)
         else
          let table = (case be_relabel E of (r, s, c) \<Rightarrow>
                [(''--recursive'', r), (''--skip-ce'', s), (''--cross-filesystems'', c)]) in
          case map_of table a of
            None \<Rightarrow> (- 1, [], w)
          | Some f \<Rightarrow> relabel_loop E (flag OR f) in_flags ret as w)
      else
       (case restorecon (be_kernel E) (c_str a) flag (b_calls w) of
          ((r, errno), h) \<Rightarrow>
            relabel_loop E flag False (if r < 0 then - errno else ret) as (w\<lparr>b_calls := h\<rparr>)))"

definition do_restorecon :: "benv \<Rightarrow> string list \<Rightarrow> bworld \<Rightarrow> breply" where
  "do_restorecon E args = relabel_loop E 0 True 0 (tl args)"

definition do_restorecon_recursive :: "benv \<Rightarrow> string list \<Rightarrow> bworld \<Rightarrow> breply" where
  "do_restorecon_recursive E args = do_restorecon E (hd args # ''--recursive'' # tl args)"

section \<open>Modules, interfaces, limits\<close>

definition insmod :: "benv \<Rightarrow> string \<Rightarrow> string \<Rightarrow> u32 \<Rightarrow> bworld \<Rightarrow> breply" where
  "insmod E filename options flags w =
     (case ask E (Sys_open_read filename) w of
        ((fd, _), w1) \<Rightarrow>
          if fd = - 1 then (- 1, [], w1)
          else
           (case ask E (Sys_finit_module fd options flags) w1 of
              ((rc, _), w2) \<Rightarrow> (rc, [], snd (ask E (Sys_close fd) w2))))"

text \<open>With \<^verbatim>\<open>-f\<close> as the only argument the source reads past the end of the arguments.\<close>

definition do_insmod :: "benv \<Rightarrow> string list \<Rightarrow> bworld \<Rightarrow> breply" where
  "do_insmod E args w =
     (let flags = (if args ! 1 = ''-f'' then 3 else 0);
          rest = (if args ! 1 = ''-f'' then drop 2 args else drop 1 args) in
      case rest of
        [] \<Rightarrow> (- 1, [], w\<lparr>b_broken := True\<rparr>)
      | filename # options \<Rightarrow> insmod E (c_str filename) (c_str (join_with (CHR '' '') options)) flags w)"

definition IFF_UP :: u32 where "IFF_UP = 1"

text \<open>The answer to \<^verbatim>\<open>SIOCGIFFLAGS\<close> is its result and the flags. \<^verbatim>\<open>IFNAMSIZ\<close> is 16.\<close>

definition ifupdown :: "benv \<Rightarrow> string \<Rightarrow> bool \<Rightarrow> bworld \<Rightarrow> breply" where
  "ifupdown E interface up w =
     (let ifr_name = take 15 interface in
      case ask E (Sys_socket 2) w of
        ((s, _), w1) \<Rightarrow>
          if s < 0 then (- 1, [], w1)
          else
           (case ask E (Sys_get_if_flags ifr_name) w1 of
              ((ret, flags), w2) \<Rightarrow>
                if ret < 0 then (ret, [], snd (ask E (Sys_close s) w2))
                else
                 let flags' = (if up then word_of_int flags OR IFF_UP else word_of_int flags AND NOT IFF_UP) in
                 (case ask E (Sys_set_if_flags ifr_name flags') w2 of
                    ((ret', _), w3) \<Rightarrow> (ret', [], snd (ask E (Sys_close s) w3)))))"

definition do_ifup :: "benv \<Rightarrow> string list \<Rightarrow> bworld \<Rightarrow> breply" where
  "do_ifup E args = ifupdown E (c_str (args ! 1)) True"

definition INT_MIN :: int where "INT_MIN = - 2147483648"
definition INT_MAX :: int where "INT_MAX = 2147483647"

definition do_setrlimit :: "benv \<Rightarrow> string list \<Rightarrow> bworld \<Rightarrow> breply" where
  "do_setrlimit E args w =
     (case (ParseInt (be_lib E) (args ! 1) INT_MIN INT_MAX, be_parse_uint E (args ! 2), be_parse_uint E (args ! 3)) of
        (Some resource, Some rlim_cur, Some rlim_max) \<Rightarrow> direct E (Sys_setrlimit resource rlim_cur rlim_max) w
      | _ \<Rightarrow> (- 1, [], w))"

definition do_sysclktz :: "benv \<Rightarrow> string list \<Rightarrow> bworld \<Rightarrow> breply" where
  "do_sysclktz E args w =
     (case ParseInt (be_lib E) (args ! 1) INT_MIN INT_MAX of
        None \<Rightarrow> (- 1, [], w)
      | Some minuteswest \<Rightarrow>
         (case ask E (Sys_settimeofday minuteswest) w of
            ((r, _), w') \<Rightarrow> (if r \<noteq> - 1 then 0 else - 1, [], w')))"

definition EINVAL :: int where "EINVAL = 22"

definition do_loglevel :: "benv \<Rightarrow> string list \<Rightarrow> bworld \<Rightarrow> breply" where
  "do_loglevel E args w =
     (let log_level = (case ParseInt (be_lib E) (args ! 1) INT_MIN INT_MAX of None \<Rightarrow> - 1 | Some l \<Rightarrow> l) in
      if log_level = 7 then (0, [], w\<lparr>b_severity := Sev_DEBUG\<rparr>)
      else if log_level = 6 then (0, [], w\<lparr>b_severity := Sev_INFO\<rparr>)
      else if log_level = 5 \<or> log_level = 4 then (0, [], w\<lparr>b_severity := Sev_WARNING\<rparr>)
      else if log_level = 3 then (0, [], w\<lparr>b_severity := Sev_ERROR\<rparr>)
      else if log_level = 2 \<or> log_level = 1 \<or> log_level = 0 then (0, [], w\<lparr>b_severity := Sev_FATAL\<rparr>)
      else (- EINVAL, [], w))"

text \<open>Times are in nanoseconds.\<close>

definition kCommandRetryTimeout :: int where "kCommandRetryTimeout = 5000000000"

definition b_wait_for_file :: "benv \<Rightarrow> string \<Rightarrow> int \<Rightarrow> bworld \<Rightarrow> int" where
  "b_wait_for_file E file timeout w = (case be_polls E w file of (start, polls) \<Rightarrow> wait_for_file start polls timeout)"

definition do_wait :: "benv \<Rightarrow> string list \<Rightarrow> bworld \<Rightarrow> breply" where
  "do_wait E args w =
     (if length args = 2 then (b_wait_for_file E (c_str (args ! 1)) kCommandRetryTimeout w, [], w)
      else if length args = 3 then
        (case ParseInt (be_lib E) (args ! 2) INT_MIN INT_MAX of
           None \<Rightarrow> (- 1, [], w)
         | Some timeout \<Rightarrow> (b_wait_for_file E (c_str (args ! 1)) (timeout * 1000000000) w, [], w))
      else (- 1, [], w))"

section \<open>Mounting\<close>

definition MS_RDONLY :: u32 where "MS_RDONLY = 1"

definition mount_flags :: "(string \<times> u32) list" where
  "mount_flags =
     [(''noatime'', 1024), (''noexec'', 8), (''nosuid'', 2), (''nodev'', 4), (''nodiratime'', 2048),
      (''ro'', MS_RDONLY), (''rw'', 0), (''remount'', 32), (''bind'', 4096), (''rec'', 16384),
      (''unbindable'', 0x20000), (''private'', 0x40000), (''slave'', 0x80000), (''shared'', 0x100000),
      (''defaults'', 0)]"

fun mount_options :: "string list \<Rightarrow> u32 \<times> bool \<times> string option \<Rightarrow> u32 \<times> bool \<times> string option" where
  "mount_options [] st = st"
| "mount_options (a # as) (flags, wait, options) =
     (case map_of mount_flags a of
        Some f \<Rightarrow> mount_options as (flags OR f, wait, options)
      | None \<Rightarrow>
         if a = ''wait'' then mount_options as (flags, True, options)
         else if as = [] then mount_options as (flags, wait, Some (c_str a))
         else mount_options as (flags, wait, options))"

definition ENXIO :: int where "ENXIO = 6"

text \<open>
  A turn of the search for a free loop device, with the \<open>n\<close>-th device; \<open>fd\<close> is the open image.
  The result is \<open>None\<close> where the loop goes on.
\<close>

definition try_loop_device ::
  "benv \<Rightarrow> bool \<Rightarrow> int \<Rightarrow> string \<Rightarrow> string \<Rightarrow> u32 \<Rightarrow> string option \<Rightarrow> nat \<Rightarrow> bworld \<Rightarrow> int option \<times> bworld" where
  "try_loop_device E ro fd target system flags options n w =
     (let tmp = ''/dev/block/loop'' @ show_nat n in
      case ask E (Sys_open_dev tmp ro) w of
        ((loop, _), w1) \<Rightarrow>
          if loop < 0 then (Some (- 1), snd (ask E (Sys_close fd) w1))
          else
           (case ask E (Sys_loop_get_status loop) w1 of
              ((st, errno), w2) \<Rightarrow>
               if st < 0 \<and> errno = ENXIO then
                 (case ask E (Sys_loop_set_fd loop fd) w2 of
                    ((sf, _), w3) \<Rightarrow>
                      if sf \<ge> 0 then
                        (case ask E (Sys_mount tmp target system flags options) (snd (ask E (Sys_close fd) w3)) of
                           ((m, _), w4) \<Rightarrow>
                             if m < 0
                             then (Some (- 1), snd (ask E (Sys_close loop) (snd (ask E (Sys_loop_clr_fd loop) w4))))
                             else (Some 0, snd (ask E (Sys_close loop) w4)))
                      else (None, snd (ask E (Sys_close loop) w3)))
               else (None, snd (ask E (Sys_close loop) w2))))"

text \<open>The loop ends at the first device that cannot be opened.\<close>

partial_function (option) mount_loop ::
  "benv \<Rightarrow> bool \<Rightarrow> int \<Rightarrow> string \<Rightarrow> string \<Rightarrow> u32 \<Rightarrow> string option \<Rightarrow> nat \<Rightarrow> bworld \<Rightarrow> (int \<times> bworld) option" where
  "mount_loop E ro fd target system flags options n w =
     (case try_loop_device E ro fd target system flags options n w of
        (r, w') \<Rightarrow>
         (case r of
            Some i \<Rightarrow> Some (i, w')
          | None \<Rightarrow> mount_loop E ro fd target system flags options (n + 1) w'))"

text \<open>The option \<^verbatim>\<open>wait\<close> only delays the mount; the result of the waiting is not used.\<close>

definition do_mount :: "benv \<Rightarrow> string list \<Rightarrow> bworld \<Rightarrow> breply" where
  "do_mount E args w =
     (case mount_options (drop 4 args) (0, False, None) of
        (flags, wait, options) \<Rightarrow>
          let system = c_str (args ! 1); source = c_str (args ! 2); target = c_str (args ! 3);
              ro = (flags AND MS_RDONLY \<noteq> 0) in
          if starts_with source ''loop@'' then
            (case ask E (Sys_open_dev (drop 5 source) ro) w of
               ((fd, _), w1) \<Rightarrow>
                 if fd < 0 then (- 1, [], w1)
                 else
                  (case mount_loop E ro fd target system flags options 0 w1 of
                     None \<Rightarrow> (- 1, [], w1\<lparr>b_broken := True\<rparr>)
                   | Some (r, w2) \<Rightarrow> (r, [], w2)))
          else
           (case ask E (Sys_mount source target system flags options) w of
              ((m, _), w1) \<Rightarrow> (if m < 0 then - 1 else 0, [], w1)))"

text \<open>
  Configuration files read while init runs. The actions of the files are handed to the action
  manager in the order of its list; services are added to the service manager.
\<close>

definition init_parser_state :: "bworld \<Rightarrow> builtin parser_state" where
  "init_parser_state w =
     \<lparr>p_action = None, p_actions = new_action_manager, p_service = None, p_services = sm_of w, p_imports = [],
      section_parsers = [''service'' \<mapsto> Service_Section, ''on'' \<mapsto> Action_Section, ''import'' \<mapsto> Import_Section]\<rparr>"

definition parse_config :: "benv \<Rightarrow> string \<Rightarrow> bworld \<Rightarrow> builtin am_op list \<times> bworld" where
  "parse_config E path w =
     (case ParseConfig (be_lib E) (be_gp E (b_props w)) (be_read_file E w) (be_is_dir E w) (be_readdir E w)
             path (init_parser_state w) of
        None \<Rightarrow> ([], w\<lparr>b_broken := True\<rparr>)
      | Some (_, st) \<Rightarrow> (map (\<lambda>(_, a). OpAddAction a) (am_actions (p_actions st)), put_sm (p_services st) w))"

fun parse_configs :: "benv \<Rightarrow> string list \<Rightarrow> bworld \<Rightarrow> builtin am_op list \<times> bworld" where
  "parse_configs E [] w = ([], w)"
| "parse_configs E (p # ps) w =
     (case parse_config E p w of (ops, w1) \<Rightarrow> (case parse_configs E ps w1 of (ops', w2) \<Rightarrow> (ops @ ops', w2)))"

definition import_late :: "benv \<Rightarrow> string list \<Rightarrow> nat \<Rightarrow> nat \<Rightarrow> bworld \<Rightarrow> builtin am_op list \<times> bworld" where
  "import_late E args start_index end_index w =
     (if end_index \<le> start_index then
        parse_configs E
          ((if b_system_loaded w then [] else [''/system/etc/init''])
           @ (if b_vendor_loaded w then [] else [''/vendor/etc/init''])
           @ (if b_odm_loaded w then [] else [''/odm/etc/init'']))
          (w\<lparr>b_system_loaded := True, b_vendor_loaded := True, b_odm_loaded := True\<rparr>)
      else parse_configs E (take (end_index - start_index) (drop start_index args)) w)"

text \<open>
  The answer to the mounting is the status \<^verbatim>\<open>waitpid\<close> reports and the process id \<^verbatim>\<open>fork\<close> returns.
\<close>

definition mount_fstab :: "benv \<Rightarrow> string \<Rightarrow> string \<Rightarrow> bworld \<Rightarrow> int \<times> bworld" where
  "mount_fstab E fstabfile mount_mode w =
     (case ask E (Lib_call ''fs_mgr_mount_all'' [fstabfile, mount_mode]) w of
        ((status, pid), w1) \<Rightarrow>
          (if pid > 0 then (if status AND 0x7f = 0 then drop_bit 8 status AND 0xff else - 1) else - 1, w1))"

definition set_props :: "benv \<Rightarrow> prop_call list \<Rightarrow> bworld \<Rightarrow> builtin am_op list \<times> bworld" where
  "set_props E cs = props_step (perform_calls (be_svc E) cs)"

definition set_props_then :: "benv \<Rightarrow> prop_call list \<Rightarrow> string \<Rightarrow> int \<Rightarrow> bworld \<Rightarrow> breply" where
  "set_props_then E cs event ret w =
     (case set_props E cs w of (ops, w1) \<Rightarrow> (ret, ops @ [OpQueueEvent event], w1))"

definition queue_fs_event :: "benv \<Rightarrow> int \<Rightarrow> bworld \<Rightarrow> breply" where
  "queue_fs_event E code w =
     (if code = be_mntall E NEEDS_ENCRYPTION then (code, [OpQueueEvent ''encrypt''], w)
      else if code = be_mntall E MIGHT_BE_ENCRYPTED then
        set_props_then E [(''ro.crypto.state'', ''encrypted''), (''ro.crypto.type'', ''block'')] ''defaultcrypto'' code w
      else if code = be_mntall E NOT_ENCRYPTED then
        set_props_then E [(''ro.crypto.state'', ''unencrypted'')] ''nonencrypted'' code w
      else if code = be_mntall E NOT_ENCRYPTABLE then
        set_props_then E [(''ro.crypto.state'', ''unsupported'')] ''nonencrypted'' code w
      else if code = be_mntall E NEEDS_RECOVERY then
        (case reboot_into_recovery E [''--wipe_data'', ''--reason=fs_mgr_mount_all''] w of (r, w1) \<Rightarrow> (r, [], w1))
      else if code = be_mntall E FILE_ENCRYPTED then
        (case ask E (Lib_call ''e4crypt_install_keyring'' []) w of
           ((r, _), w1) \<Rightarrow>
             if r \<noteq> 0 then (- 1, [], w1)
             else set_props_then E [(''ro.crypto.state'', ''encrypted''), (''ro.crypto.type'', ''file'')]
                    ''nonencrypted'' code w1)
      else (code, [], w))"

record mount_all_args =
  ma_end :: nat
  ma_import :: bool
  ma_event :: bool
  ma_mode :: string

definition mount_all_arg :: "string \<Rightarrow> nat \<Rightarrow> mount_all_args \<Rightarrow> mount_all_args" where
  "mount_all_arg a na m =
     (if a = ''--early'' then m\<lparr>ma_end := na, ma_event := False, ma_mode := ''early''\<rparr>
      else if a = ''--late'' then m\<lparr>ma_end := na, ma_import := False, ma_mode := ''late''\<rparr>
      else m)"

text \<open>The loop over the arguments runs from the last to the third.\<close>

definition mount_all_scan :: "string list \<Rightarrow> mount_all_args" where
  "mount_all_scan args =
     fold (\<lambda>na. mount_all_arg (args ! na) na) (rev [2..<length args])
       \<lparr>ma_end = length args, ma_import = True, ma_event = True, ma_mode = ''default''\<rparr>"

definition do_mount_all :: "benv \<Rightarrow> string list \<Rightarrow> bworld \<Rightarrow> breply" where
  "do_mount_all E args w =
     (let m = mount_all_scan args in
      case mount_fstab E (c_str (args ! 1)) (ma_mode m) w of
        (ret, w1) \<Rightarrow>
         (case set_prop E (''ro.boottime.init.mount_all.'' @ ma_mode m) (be_elapsed E w1) w1 of
            (ops1, w2) \<Rightarrow>
             (case (if ma_import m then import_late E args 2 (ma_end m) w2 else ([], w2)) of
                (ops2, w3) \<Rightarrow>
                  if ma_event m then
                    (case queue_fs_event E ret w3 of (r, ops3, w4) \<Rightarrow> (r, ops1 @ ops2 @ ops3, w4))
                  else (ret, ops1 @ ops2, w3))))"

definition do_swapon_all :: "benv \<Rightarrow> string list \<Rightarrow> bworld \<Rightarrow> breply" where
  "do_swapon_all E args = direct E (Lib_call ''fs_mgr_swapon_all'' [c_str (args ! 1)])"

text \<open>The answer of \<^verbatim>\<open>fs_mgr_load_verity_state\<close> is whether it succeeded, and the mode.\<close>

definition do_verity_load_state :: "benv \<Rightarrow> string list \<Rightarrow> bworld \<Rightarrow> breply" where
  "do_verity_load_state E args w =
     (case ask E (Lib_call ''fs_mgr_load_verity_state'' []) w of
        ((loaded, mode), w1) \<Rightarrow>
          (if loaded \<noteq> 0 then 0 else 1,
           if loaded \<noteq> 0 \<and> mode \<noteq> be_verity_default E then [OpQueueEvent ''verity-logging''] else [], w1))"

definition verity_update_property :: "string \<times> int \<Rightarrow> prop_call" where
  "verity_update_property c = (''partition.'' @ fst c @ ''.verified'', show_int (snd c))"

definition do_verity_update_state :: "benv \<Rightarrow> string list \<Rightarrow> bworld \<Rightarrow> breply" where
  "do_verity_update_state E args w =
     (case be_verity E of
        (cs, ok) \<Rightarrow> finish (if ok then 0 else 1) (set_props E (map verity_update_property cs) w))"

definition do_installkeys_ensure_dir_exists :: "benv \<Rightarrow> string \<Rightarrow> bworld \<Rightarrow> int \<times> bworld" where
  "do_installkeys_ensure_dir_exists E dir w =
     (case make_dir (be_kernel E) (be_selabel E) dir 0x1C0 (b_calls w) of
        ((r, errno), h) \<Rightarrow> (if r \<noteq> 0 \<and> errno \<noteq> EEXIST then - 1 else 0, w\<lparr>b_calls := h\<rparr>))"

definition is_file_crypto :: "benv \<Rightarrow> bworld \<Rightarrow> bool" where
  "is_file_crypto E w = (be_gp E (b_props w) ''ro.crypto.type'' = ''file'')"

definition do_installkey :: "benv \<Rightarrow> string list \<Rightarrow> bworld \<Rightarrow> breply" where
  "do_installkey E args w =
     (if \<not> is_file_crypto E w then (0, [], w)
      else
       (case do_installkeys_ensure_dir_exists E (c_str (args ! 1 @ be_e4crypt_folder E)) w of
          (r, w1) \<Rightarrow>
            if r \<noteq> 0 then (- 1, [], w1)
            else do_exec E [''exec'', ''/system/bin/vdc'', ''--wait'', ''cryptfs'', ''enablefilecrypto''] w1))"

definition do_init_user0 :: "benv \<Rightarrow> string list \<Rightarrow> bworld \<Rightarrow> breply" where
  "do_init_user0 E args = direct E (Lib_call ''e4crypt_do_init_user0'' [])"

section \<open>Builtin actions of the main program\<close>

definition b_panic :: "bworld \<Rightarrow> bworld" where
  "b_panic w = w\<lparr>b_calls := panic (b_calls w)\<rparr>"

definition wait_for_coldboot_done_action :: "benv \<Rightarrow> string list \<Rightarrow> bworld \<Rightarrow> breply" where
  "wait_for_coldboot_done_action E args w =
     (let w1 = (if b_wait_for_file E (be_coldboot_done E) 60000000000 w < 0 then b_panic w else w)
      in finish 0 (set_prop E ''ro.boottime.init.cold_boot_wait'' (be_elapsed E w1) w1))"

text \<open>
  The copying of random numbers: the results of \<^verbatim>\<open>read\<close> and \<^verbatim>\<open>write\<close> in each turn. The result is
  \<open>None\<close> when the turns given do not end the loop. \<open>be_hwrng\<close> starts with the descriptor of the
  first device, \<^verbatim>\<open>errno\<close> of its opening, and the descriptor of the second device.
\<close>

fun mix_loop :: "int \<Rightarrow> (int \<times> int) list \<Rightarrow> int option" where
  "mix_loop written [] = (if written < 512 then None else Some 0)"
| "mix_loop written ((got, put) # turns) =
     (if written < 512 then
        (if got = - 1 \<or> got = 0 then Some (- 1)
         else if put = - 1 then Some (- 1)
         else mix_loop (written + put) turns)
      else Some 0)"

definition mix_hwrng_into_linux_rng_action :: "benv \<Rightarrow> string list \<Rightarrow> bworld \<Rightarrow> breply" where
  "mix_hwrng_into_linux_rng_action E args w =
     (case be_hwrng E w of
        (hwrandom_fd, errno, urandom_fd, turns) \<Rightarrow>
          if hwrandom_fd = - 1 then (if errno = ENOENT then 0 else - 1, [], w)
          else if urandom_fd = - 1 then (- 1, [], snd (ask E (Sys_close hwrandom_fd) w))
          else
           (case mix_loop 0 turns of
              None \<Rightarrow> (- 1, [], w\<lparr>b_broken := True\<rparr>)
            | Some r \<Rightarrow> (r, [], snd (ask E (Sys_close urandom_fd) (snd (ask E (Sys_close hwrandom_fd) w))))))"

text \<open>The values tried from \<open>current\<close> down, with the result and the last value written.\<close>

function option_loop :: "(int \<Rightarrow> string option) \<Rightarrow> int \<Rightarrow> int \<Rightarrow> bool \<times> int option" where
  "option_loop try mn current =
     (if current < mn then (False, None)
      else
       (case try current of
          None \<Rightarrow> (False, None)
        | Some str_rec \<Rightarrow>
           if show_int current = str_rec then (True, Some current)
           else option_loop try mn (current - 1)))"
  by pat_completeness auto
termination
  by (relation "measure (\<lambda>(_, mn, c). nat (c - mn + 1))") auto

declare option_loop.simps [simp del]

definition set_highest_available_option_value :: "benv \<Rightarrow> string \<Rightarrow> int \<Rightarrow> int \<Rightarrow> bool" where
  "set_highest_available_option_value E path mn mx =
     (if \<not> be_readable E path then False else fst (option_loop (be_option E path) mn mx))"

definition MMAP_RND_PATH :: string where "MMAP_RND_PATH = ''/proc/sys/vm/mmap_rnd_bits''"
definition MMAP_RND_COMPAT_PATH :: string where "MMAP_RND_COMPAT_PATH = ''/proc/sys/vm/mmap_rnd_compat_bits''"

definition set_mmap_rnd_bits_min :: "benv \<Rightarrow> int \<Rightarrow> int \<Rightarrow> bool \<Rightarrow> bool" where
  "set_mmap_rnd_bits_min E start mn for_compat =
     set_highest_available_option_value E (if for_compat then MMAP_RND_COMPAT_PATH else MMAP_RND_PATH) mn start"

definition set_mmap_rnd_bits_action :: "benv \<Rightarrow> string list \<Rightarrow> bworld \<Rightarrow> breply" where
  "set_mmap_rnd_bits_action E args w =
     (let ok = (case be_arch E of
          Aarch64 \<Rightarrow> set_mmap_rnd_bits_min E 33 24 False \<and> set_mmap_rnd_bits_min E 16 16 True
        | X86_64 \<Rightarrow> set_mmap_rnd_bits_min E 32 32 False \<and> set_mmap_rnd_bits_min E 16 16 True
        | Arm_or_I386 \<Rightarrow> set_mmap_rnd_bits_min E 16 16 (be_readable E MMAP_RND_COMPAT_PATH)
        | Mips \<Rightarrow> True
        | Unknown_arch \<Rightarrow> False)
      in if ok then (0, [], w) else (- 1, [], b_panic w))"

definition set_kptr_restrict_action :: "benv \<Rightarrow> string list \<Rightarrow> bworld \<Rightarrow> breply" where
  "set_kptr_restrict_action E args w =
     (0, [], if set_highest_available_option_value E ''/proc/sys/kernel/kptr_restrict'' 2 4 then w else b_panic w)"

definition keychord_init_action :: "benv \<Rightarrow> string list \<Rightarrow> bworld \<Rightarrow> breply" where
  "keychord_init_action E args w = (0, [], snd (ask E (Lib_call ''keychord_init'' []) w))"

definition console_init_action :: "benv \<Rightarrow> string list \<Rightarrow> bworld \<Rightarrow> breply" where
  "console_init_action E args w =
     (let console = be_gp E (b_props w) ''ro.boot.console'' in
      (0, [], if console \<noteq> [] then w\<lparr>b_console := ''/dev/'' @ console\<rparr> else w))"

definition property_enable_triggers_action :: "benv \<Rightarrow> string list \<Rightarrow> bworld \<Rightarrow> breply" where
  "property_enable_triggers_action E args w = (0, [], w\<lparr>b_init := (b_init w)\<lparr>property_triggers_enabled := True\<rparr>\<rparr>)"

text \<open>The second operation is \<^verbatim>\<open>QueueAllPropertyTriggers\<close>.\<close>

definition queue_property_triggers_action :: "benv \<Rightarrow> string list \<Rightarrow> bworld \<Rightarrow> breply" where
  "queue_property_triggers_action E args w =
     (0, [OpQueueBuiltin Property_enable_triggers ''enable_property_trigger'', OpQueueProperty [] []], w)"

section \<open>The table and the function of the action manager\<close>

definition builtin_functions :: "builtin keyword_map" where
  "builtin_functions = map_of
     [(''bootchart'', 1, 1, Do_bootchart),
      (''chmod'', 2, 2, Do_chmod),
      (''chown'', 2, 3, Do_chown),
      (''class_reset'', 1, 1, Do_class_reset),
      (''class_restart'', 1, 1, Do_class_restart),
      (''class_start'', 1, 1, Do_class_start),
      (''class_stop'', 1, 1, Do_class_stop),
      (''copy'', 2, 2, Do_copy),
      (''domainname'', 1, 1, Do_domainname),
      (''enable'', 1, 1, Do_enable),
      (''exec'', 1, kMax, Do_exec),
      (''exec_start'', 1, 1, Do_exec_start),
      (''export'', 2, 2, Do_export),
      (''hostname'', 1, 1, Do_hostname),
      (''ifup'', 1, 1, Do_ifup),
      (''init_user0'', 0, 0, Do_init_user0),
      (''insmod'', 1, kMax, Do_insmod),
      (''installkey'', 1, 1, Do_installkey),
      (''load_persist_props'', 0, 0, Do_load_persist_props),
      (''load_system_props'', 0, 0, Do_load_system_props),
      (''loglevel'', 1, 1, Do_loglevel),
      (''mkdir'', 1, 4, Do_mkdir),
      (''mount_all'', 1, kMax, Do_mount_all),
      (''mount'', 3, kMax, Do_mount),
      (''umount'', 1, 1, Do_umount),
      (''restart'', 1, 1, Do_restart),
      (''restorecon'', 1, kMax, Do_restorecon),
      (''restorecon_recursive'', 1, kMax, Do_restorecon_recursive),
      (''rm'', 1, 1, Do_rm),
      (''rmdir'', 1, 1, Do_rmdir),
      (''setprop'', 2, 2, Do_setprop),
      (''setrlimit'', 3, 3, Do_setrlimit),
      (''start'', 1, 1, Do_start),
      (''stop'', 1, 1, Do_stop),
      (''swapon_all'', 1, 1, Do_swapon_all),
      (''symlink'', 2, 2, Do_symlink),
      (''sysclktz'', 1, 1, Do_sysclktz),
      (''trigger'', 1, 1, Do_trigger),
      (''verity_load_state'', 0, 0, Do_verity_load_state),
      (''verity_update_state'', 0, 0, Do_verity_update_state),
      (''wait'', 1, 2, Do_wait),
      (''wait_for_prop'', 2, 2, Do_wait_for_prop),
      (''write'', 2, 2, Do_write)]"

text \<open>\<^verbatim>\<open>do_bootchart\<close> and \<^verbatim>\<open>keychord_init\<close> are in files that are not part of the repository.\<close>

primrec run_builtin :: "benv \<Rightarrow> builtin \<Rightarrow> string list \<Rightarrow> bworld \<Rightarrow> breply" where
  "run_builtin E Do_bootchart = (\<lambda>args. direct E (Lib_call ''do_bootchart'' args))"
| "run_builtin E Do_chmod = do_chmod E"
| "run_builtin E Do_chown = do_chown E"
| "run_builtin E Do_class_reset = do_class_reset E"
| "run_builtin E Do_class_restart = do_class_restart E"
| "run_builtin E Do_class_start = do_class_start E"
| "run_builtin E Do_class_stop = do_class_stop E"
| "run_builtin E Do_copy = do_copy E"
| "run_builtin E Do_domainname = do_domainname E"
| "run_builtin E Do_enable = do_enable E"
| "run_builtin E Do_exec = do_exec E"
| "run_builtin E Do_exec_start = do_exec_start E"
| "run_builtin E Do_export = do_export E"
| "run_builtin E Do_hostname = do_hostname E"
| "run_builtin E Do_ifup = do_ifup E"
| "run_builtin E Do_init_user0 = do_init_user0 E"
| "run_builtin E Do_insmod = do_insmod E"
| "run_builtin E Do_installkey = do_installkey E"
| "run_builtin E Do_load_persist_props = do_load_persist_props E"
| "run_builtin E Do_load_system_props = do_load_system_props E"
| "run_builtin E Do_loglevel = do_loglevel E"
| "run_builtin E Do_mkdir = do_mkdir E"
| "run_builtin E Do_mount_all = do_mount_all E"
| "run_builtin E Do_mount = do_mount E"
| "run_builtin E Do_umount = do_umount E"
| "run_builtin E Do_restart = do_restart E"
| "run_builtin E Do_restorecon = do_restorecon E"
| "run_builtin E Do_restorecon_recursive = do_restorecon_recursive E"
| "run_builtin E Do_rm = do_rm E"
| "run_builtin E Do_rmdir = do_rmdir E"
| "run_builtin E Do_setprop = do_setprop E"
| "run_builtin E Do_setrlimit = do_setrlimit E"
| "run_builtin E Do_start = do_start E"
| "run_builtin E Do_stop = do_stop E"
| "run_builtin E Do_swapon_all = do_swapon_all E"
| "run_builtin E Do_symlink = do_symlink E"
| "run_builtin E Do_sysclktz = do_sysclktz E"
| "run_builtin E Do_trigger = do_trigger E"
| "run_builtin E Do_verity_load_state = do_verity_load_state E"
| "run_builtin E Do_verity_update_state = do_verity_update_state E"
| "run_builtin E Do_wait = do_wait E"
| "run_builtin E Do_wait_for_prop = do_wait_for_prop E"
| "run_builtin E Do_write = do_write E"
| "run_builtin E Wait_for_coldboot_done = wait_for_coldboot_done_action E"
| "run_builtin E Mix_hwrng = mix_hwrng_into_linux_rng_action E"
| "run_builtin E Set_mmap_rnd_bits = set_mmap_rnd_bits_action E"
| "run_builtin E Set_kptr_restrict = set_kptr_restrict_action E"
| "run_builtin E Keychord_init = keychord_init_action E"
| "run_builtin E Console_init = console_init_action E"
| "run_builtin E Queue_property_triggers = queue_property_triggers_action E"
| "run_builtin E Property_enable_triggers = property_enable_triggers_action E"

end
