(* ===== verification/Builtins_Correct.thy ===== *)
theory Builtins_Correct
  imports Builtins Property_Service_Correct
begin

text \<open>
  Properties of the builtin commands. The first part shows that whatever a builtin asks of the
  action manager is well formed, configuration files included, so that the safety of the
  action manager holds for the program with its own builtins. The second part has the meaning
  of single commands.
\<close>

section \<open>Builtins and the action manager\<close>

definition parser_ok :: "'f parser_state \<Rightarrow> bool" where
  "parser_ok st = (am_ok (p_actions st)
     \<and> (\<forall>a. p_action st = Some a \<longrightarrow> (\<forall>c \<in> set (commands a). cmd_args c \<noteq> [])))"

lemma InitTriggers_commands: "InitTriggers ts (mk_action os) = Inr a \<Longrightarrow> commands a = []"
  using init_triggers_commands[of 0 ts "mk_action os" a]
  by (simp add: InitTriggers_def mk_action_def del: init_triggers.simps)

lemma ParseSection_ok: "parser_ok st \<Longrightarrow> parser_ok (snd (ParseSection gp kind args st))"
proof (cases kind)
  case Action_Section
  assume "parser_ok st"
  then show ?thesis
    by (auto simp: Action_Section parser_ok_def ActionParser_ParseSection_def dest: InitTriggers_commands
        split: sum.splits)
qed (auto simp: parser_ok_def split: prod.splits)

lemma AddCommand_args:
  "AddCommand fm args f l a = Inr a' \<Longrightarrow> \<forall>c \<in> set (commands a). cmd_args c \<noteq> [] \<Longrightarrow>
   \<forall>c \<in> set (commands a'). cmd_args c \<noteq> []"
  by (auto simp: AddCommand_def AddCommand_func_def split: option.splits if_splits sum.splits)

lemma ParseLineSection_ok: "parser_ok st \<Longrightarrow> parser_ok (snd (ParseLineSection lib kind args f l st))"
proof (cases kind)
  case Action_Section
  assume ok: "parser_ok st"
  show ?thesis
  proof (cases "p_action st")
    case None
    then show ?thesis using ok by (simp add: Action_Section parser_ok_def ActionParser_ParseLineSection_def)
  next
    case (Some a)
    then show ?thesis using ok AddCommand_args[of "lib_functions lib" args f "int l" a]
      by (cases "AddCommand (lib_functions lib) args f (int l) a")
        (simp_all add: Action_Section parser_ok_def ActionParser_ParseLineSection_def)
  qed
qed (auto simp: parser_ok_def split: prod.splits)

lemma EndSection_ok: "parser_ok st \<Longrightarrow> parser_ok (EndSection kind st)"
proof (cases kind)
  case Action_Section
  assume ok: "parser_ok st"
  show ?thesis
  proof (cases "\<exists>a. p_action st = Some a \<and> NumCommands a > 0")
    case True
    then obtain a where a: "p_action st = Some a" "commands a \<noteq> []" by (auto simp: NumCommands_def)
    then have "am_ok (AddAction a (p_actions st))"
      using ok AddAction_ok[of "p_actions st" a] by (simp add: parser_ok_def action_ok_def)
    then show ?thesis using a by (simp add: Action_Section parser_ok_def ActionParser_EndSection_def NumCommands_def)
  next
    case False
    then show ?thesis using ok
      by (cases "p_action st") (simp_all add: Action_Section parser_ok_def ActionParser_EndSection_def)
  qed
qed (auto simp: parser_ok_def split: prod.splits)

lemma end_current_ok: "parser_ok st \<Longrightarrow> parser_ok (end_current cur st)"
  by (simp add: end_current_def EndSection_ok split: option.splits)

lemma parse_line_ok: "parser_ok (snd cs) \<Longrightarrow> parser_ok (snd (parse_line lib gp f l cs))"
proof -
  assume ok: "parser_ok (snd cs)"
  obtain args n where l: "l = (args, n)" by force
  obtain cur st where cs: "cs = (cur, st)" by force
  have "parser_ok (snd (ParseSection gp k args (end_current cur st)))" for k
    using ok cs by (simp add: ParseSection_ok end_current_ok)
  moreover have "parser_ok (snd (ParseLineSection lib k args f n st))" for k
    using ok cs by (simp add: ParseLineSection_ok)
  ultimately show ?thesis
    using ok unfolding l cs parse_line_def
    by (auto split: option.splits prod.splits sum.splits) (metis snd_conv)+
qed

lemma ParseData_ok: "ParseData lib gp f text st = Some st' \<Longrightarrow> parser_ok st \<Longrightarrow> parser_ok st'"
proof -
  assume pd: "ParseData lib gp f text st = Some st'" and ok: "parser_ok st"
  have "parser_ok (snd (fold (parse_line lib gp f) ls cs))" if "parser_ok (snd cs)" for ls cs
    using that by (induction ls arbitrary: cs) (simp_all add: parse_line_ok)
  from this[of "(None, st)"] show ?thesis
    using pd ok by (auto simp: ParseData_def end_current_ok split: option.splits prod.splits) (metis end_current_ok snd_conv)
qed

lemma parse_files_ok:
  assumes "parse_files lib gp rf cf files st = Some st'"
  shows "parser_ok st \<longrightarrow> parser_ok st'"
proof (rule parse_files.raw_induct[where P = "\<lambda>lib gp rf cf files st st'. parser_ok st \<longrightarrow> parser_ok st'", OF _ assms])
  fix pf :: "'a svc_lib \<Rightarrow> (string \<Rightarrow> string) \<Rightarrow> (string \<Rightarrow> string option) \<Rightarrow> (string \<Rightarrow> string list)
      \<Rightarrow> string list \<Rightarrow> 'a parser_state \<Rightarrow> 'a parser_state option"
    and lib gp rf cf files st st'
  assume ih: "\<And>lib gp rf cf files st st'. pf lib gp rf cf files st = Some st' \<Longrightarrow> parser_ok st \<longrightarrow> parser_ok st'"
    and body: "(case files of [] \<Rightarrow> Some st
      | path # rest \<Rightarrow>
         (case rf path of
            None \<Rightarrow> pf lib gp rf cf rest st
          | Some data \<Rightarrow>
              Option.bind (ParseData lib gp path (data @ [NL]) st) (\<lambda>st1.
                Option.bind (pf lib gp rf cf (concat (map cf (p_imports st1))) (st1\<lparr>p_imports := []\<rparr>))
                  (\<lambda>st2. pf lib gp rf cf rest st2)))) = Some st'"
  show "parser_ok st \<longrightarrow> parser_ok st'"
  proof (cases files)
    case Nil
    then show ?thesis using body by simp
  next
    case (Cons path rest)
    show ?thesis
    proof (cases "rf path")
      case None
      then have "pf lib gp rf cf rest st = Some st'" using body Cons by simp
      then show ?thesis by (rule ih)
    next
      case (Some str)
      obtain st1 st2 where s: "ParseData lib gp path (str @ [NL]) st = Some st1"
        "pf lib gp rf cf (concat (map cf (p_imports st1))) (st1\<lparr>p_imports := []\<rparr>) = Some st2"
        "pf lib gp rf cf rest st2 = Some st'"
        using body Cons Some by (auto simp: bind_eq_Some_conv)
      have "parser_ok (st1\<lparr>p_imports := []\<rparr>)" if "parser_ok st"
        using ParseData_ok[OF s(1) that] by (simp add: parser_ok_def)
      then show ?thesis using ih[OF s(2)] ih[OF s(3)] by blast
    qed
  qed
qed

lemma new_action_manager_ok [simp]: "am_ok new_action_manager"
  by (simp add: am_ok_def new_action_manager_def)

definition ops_ok :: "builtin am_op list \<times> bworld \<Rightarrow> bool" where
  "ops_ok p = list_all op_ok (fst p)"

definition reply_ok :: "breply \<Rightarrow> bool" where
  "reply_ok r = list_all op_ok (fst (snd r))"

lemma parse_config_ops: "ops_ok (parse_config E path w)"
proof (cases "parse_files (be_lib E) (be_gp E (b_props w)) (be_read_file E w) (config_files (be_is_dir E w) (be_readdir E w))
    (config_files (be_is_dir E w) (be_readdir E w) path) (init_parser_state w)")
  case None
  then show ?thesis by (simp add: ops_ok_def parse_config_def ParseConfig_def)
next
  case (Some st)
  have "parser_ok (init_parser_state w)" by (simp add: init_parser_state_def parser_ok_def)
  then have "am_ok (p_actions st)" using parse_files_ok[OF Some] by (simp add: parser_ok_def)
  then have "\<forall>(q, a) \<in> set (am_actions (p_actions st)). action_ok a" by (auto simp: am_ok_def)
  then show ?thesis using Some by (auto simp: ops_ok_def parse_config_def ParseConfig_def list_all_iff)
qed

lemma parse_configs_ops: "ops_ok (parse_configs E ps w)"
proof (induction ps arbitrary: w)
  case (Cons p ps)
  obtain ops w1 where p: "parse_config E p w = (ops, w1)" by force
  obtain ops' w2 where q: "parse_configs E ps w1 = (ops', w2)" by force
  show ?case using Cons[of w1] parse_config_ops[of E p w] by (simp add: p q ops_ok_def)
qed (simp add: ops_ok_def)

lemma notify_ops: "ops_ok (notify es w)"
proof (induction es w rule: notify.induct)
  case (2 n v es w)
  obtain ops w1 where p: "changed n v w = (ops, w1)" by force
  obtain ops' w2 where q: "notify es w1 = (ops', w2)" by force
  have "list_all op_ok ops" using p by (auto simp: changed_def)
  then show ?case using 2[OF p[symmetric]] by (simp add: p q ops_ok_def)
qed (simp_all add: ops_ok_def)

lemma props_step_ops: "ops_ok (props_step f w)"
  using notify_ops by (simp add: props_step_def ops_ok_def split: option.splits)

lemma perform_ops: "ops_ok (perform E es w)"
proof (induction E es w rule: perform.induct)
  case (2 E n v es w)
  obtain ops w1 where p: "set_prop E n v w = (ops, w1)" by force
  obtain ops' w2 where q: "perform E es w1 = (ops', w2)" by force
  have "list_all op_ok ops" using props_step_ops[of "perform_call (be_svc E) (n, v)" w] p
    by (simp add: set_prop_def ops_ok_def)
  then show ?case using 2[OF p[symmetric]] by (simp add: p q ops_ok_def)
qed (simp_all add: ops_ok_def)

lemma on_service_ok: "reply_ok (on_service E f name w)"
  using perform_ops by (simp add: on_service_def reply_ok_def ops_ok_def finish_def split: option.splits prod.splits)

lemma on_class_ok: "reply_ok (on_class E f c w)"
  using perform_ops by (simp add: on_class_def reply_ok_def ops_ok_def finish_def split: prod.splits)

lemma finish_ok: "ops_ok p \<Longrightarrow> reply_ok (finish r p)"
  by (simp add: ops_ok_def reply_ok_def finish_def)

lemma do_exec_ok: "reply_ok (do_exec E args w)"
  by (simp add: do_exec_def finish_ok perform_ops split: prod.splits)

lemma do_exec_start_ok: "reply_ok (do_exec_start E args w)"
  by (simp add: do_exec_start_def finish_ok perform_ops split: prod.splits)

lemma no_ops_ok [simp]: "reply_ok (r, [], w)"
  by (simp add: reply_ok_def)

lemma do_installkey_ok: "reply_ok (do_installkey E args w)"
  by (simp add: do_installkey_def do_exec_ok split: prod.splits)

lemma b_write_file_ok: "reply_ok (b_write_file E p t w)"
  by (simp add: b_write_file_def split: prod.splits)

lemma direct_ok: "reply_ok (direct E c w)"
  by (simp add: direct_def split: prod.splits)

lemma errno_result_ok: "reply_ok (errno_result p)"
  by (simp add: errno_result_def split: prod.splits)

lemma mkdir_policy_ok: "reply_ok (mkdir_policy E p w)"
  by (simp add: mkdir_policy_def split: prod.splits)

lemma mkdir_owner_ok: "reply_ok (mkdir_owner E args path mode w)"
  by (simp add: mkdir_owner_def mkdir_policy_ok Let_def split: prod.splits)

lemma do_mkdir_ok: "reply_ok (do_mkdir E args w)"
  by (simp add: do_mkdir_def mkdir_owner_ok Let_def split: prod.splits)

lemma relabel_loop_ok: "reply_ok (relabel_loop E flag in_flags ret as w)"
  by (induction E flag in_flags ret as w rule: relabel_loop.induct)
    (simp_all add: Let_def split: prod.splits option.splits)

lemma set_props_then_ok: "reply_ok (set_props_then E cs ev r w)"
  using props_step_ops[of "perform_calls (be_svc E) cs" w]
  by (simp add: set_props_then_def set_props_def reply_ok_def ops_ok_def split_beta)

lemma queue_fs_event_ok: "reply_ok (queue_fs_event E code w)"
proof -
  have "reply_ok (r, [OpQueueEvent ev], w)" for r ev w by (simp add: reply_ok_def)
  then show ?thesis by (simp add: queue_fs_event_def set_props_then_ok split_beta)
qed

lemma import_late_ops: "ops_ok (import_late E args i j w)"
  by (simp add: import_late_def parse_configs_ops)

lemma do_mount_all_ok: "reply_ok (do_mount_all E args w)"
proof -
  define m where "m = mount_all_scan args"
  obtain ret w1 where 1: "mount_fstab E (c_str (args ! 1)) (ma_mode m) w = (ret, w1)" by force
  obtain ops1 w2 where 2: "set_prop E (''ro.boottime.init.mount_all.'' @ ma_mode m) (be_elapsed E w1) w1 = (ops1, w2)" by force
  obtain ops2 w3 where 3: "(if ma_import m then import_late E args 2 (ma_end m) w2 else ([], w2)) = (ops2, w3)" by force
  obtain r ops3 w4 where 4: "queue_fs_event E ret w3 = (r, ops3, w4)" by (metis prod.exhaust)
  have "list_all op_ok ops1" using props_step_ops 2 by (metis set_prop_def ops_ok_def fst_conv)
  moreover have "list_all op_ok ops2" using import_late_ops[of E args 2 "ma_end m" w2] 3
    by (auto simp: ops_ok_def split: if_splits)
  moreover have "list_all op_ok ops3" using queue_fs_event_ok[of E ret w3] 4 by (simp add: reply_ok_def)
  ultimately show ?thesis
    unfolding do_mount_all_def m_def[symmetric] Let_def 1 2 3 4 prod.case by (simp add: reply_ok_def)
qed

lemmas builtin_ok = on_service_ok on_class_ok finish_ok do_exec_ok do_exec_start_ok do_installkey_ok
  b_write_file_ok direct_ok errno_result_ok do_mkdir_ok relabel_loop_ok do_mount_all_ok props_step_ops

lemmas service_builtin_defs = do_start_def do_stop_def do_restart_def do_enable_def do_class_start_def
  do_class_stop_def do_class_reset_def do_class_restart_def

lemmas file_builtin_defs = do_domainname_def do_hostname_def do_write_def do_copy_def do_symlink_def do_rm_def
  do_rmdir_def do_umount_def do_chown_def do_chmod_def do_restorecon_def do_restorecon_recursive_def

lemmas other_builtin_defs = do_export_def do_setprop_def do_wait_for_prop_def
  do_load_persist_props_def do_load_system_props_def insmod_def do_insmod_def ifupdown_def do_ifup_def
  do_setrlimit_def do_sysclktz_def do_loglevel_def do_wait_def do_mount_def do_swapon_all_def
  do_init_user0_def do_verity_update_state_def set_props_def

lemmas action_builtin_defs = wait_for_coldboot_done_action_def mix_hwrng_into_linux_rng_action_def
  set_mmap_rnd_bits_action_def set_kptr_restrict_action_def keychord_init_action_def console_init_action_def
  property_enable_triggers_action_def set_prop_def

lemma run_builtin_ok: "reply_ok (run_builtin E f args w)"
proof (cases f)
  case Do_trigger
  then show ?thesis by (simp add: do_trigger_def reply_ok_def)
next
  case Do_verity_load_state
  then show ?thesis by (simp add: do_verity_load_state_def reply_ok_def split: prod.splits)
next
  case Queue_property_triggers
  then show ?thesis by (simp add: queue_property_triggers_action_def reply_ok_def)
qed (simp_all add: builtin_ok service_builtin_defs file_builtin_defs other_builtin_defs action_builtin_defs
    Let_def split: prod.splits option.splits list.splits)

lemma run_builtin_run_ok: "run_ok (run_builtin E)"
  using run_builtin_ok by (simp add: run_ok_def reply_ok_def)

section \<open>Single commands\<close>

definition is_change :: "prop_event \<Rightarrow> bool" where
  "is_change e = (case e of Property_Changed _ _ \<Rightarrow> True | _ \<Rightarrow> False)"

lemma property_set_events:
  assumes "property_set env n v ps = Some (r, ps')"
  shows "\<exists>es. ps_events ps' = ps_events ps @ es
    \<and> filter is_change es = (if r = PROP_SUCCESS then [Property_Changed n v] else [])"
proof (cases "is_legal_property_name n \<and> length v < PROP_VALUE_MAX")
  case False
  then have "ps' = ps" "r \<noteq> PROP_SUCCESS" using assms by (auto simp: property_set_def split: if_splits)
  then show ?thesis by (intro exI[of _ "[]"]) simp
next
  case True
  define es0 where "es0 = (if n = ''selinux.restorecon_recursive'' \<and> length v > 0 then [Restorecon (c_str v)] else [])"
  define ps1 where "ps1 = (if n = ''selinux.restorecon_recursive'' \<and> length v > 0 then add_event (Restorecon (c_str v)) ps else ps)"
  have e1: "ps_events (ps1\<lparr>ps_sys := s\<rparr>) = ps_events ps @ es0" for s by (simp add: ps1_def es0_def add_event_def)
  have e0: "filter is_change es0 = []" by (simp add: es0_def is_change_def)
  have stored: "ps_events (property_stored (env) n v q) = ps_events q @ [Property_Changed n v]" for q
    by (simp add: property_stored_def add_event_def write_persistent_property_def Let_def)
  have "(\<exists>s. ps' = property_stored env n v (ps1\<lparr>ps_sys := s\<rparr>)) \<and> r = PROP_SUCCESS
      \<or> (\<exists>s. ps' = ps1\<lparr>ps_sys := s\<rparr>) \<and> r \<noteq> PROP_SUCCESS"
    using assms True unfolding property_set_def ps1_def[symmetric] Let_def
    by (simp add: bind_eq_Some_conv not_le split: if_splits option.splits) blast+
  then show ?thesis
  proof
    assume "(\<exists>s. ps' = property_stored env n v (ps1\<lparr>ps_sys := s\<rparr>)) \<and> r = PROP_SUCCESS"
    then show ?thesis using e0 e1 stored by (intro exI[of _ "es0 @ [Property_Changed n v]"]) (auto simp: is_change_def)
  next
    assume "(\<exists>s. ps' = ps1\<lparr>ps_sys := s\<rparr>) \<and> r \<noteq> PROP_SUCCESS"
    then show ?thesis using e0 e1 by (intro exI[of _ es0]) auto
  qed
qed

lemma notify_filter: "notify es w = notify (filter is_change es) w"
proof (induction es arbitrary: w)
  case (Cons e es)
  show ?case using Cons by (cases e) (simp_all add: is_change_def split: prod.splits)
qed simp

lemma set_prop_result:
  assumes "property_set (be_svc E) n v (b_props w) = Some (r, ps)"
  shows "set_prop E n v w = (if r = PROP_SUCCESS then changed n v (w\<lparr>b_props := ps\<rparr>) else ([], w\<lparr>b_props := ps\<rparr>))"
proof -
  obtain es where es: "ps_events ps = ps_events (b_props w) @ es"
    "filter is_change es = (if r = PROP_SUCCESS then [Property_Changed n v] else [])"
    using property_set_events[OF assms] by blast
  have "set_prop E n v w = notify es (w\<lparr>b_props := ps\<rparr>)"
    using assms es(1) by (simp add: set_prop_def props_step_def perform_call_def)
  also have "\<dots> = notify (filter is_change es) (w\<lparr>b_props := ps\<rparr>)" by (rule notify_filter)
  finally show ?thesis using es(2) by (simp split: prod.splits)
qed

lemma for_each_map: "for_each P f ss = (map (\<lambda>s. if P s then fst (f s) else s) ss, concat (map (\<lambda>s. if P s then snd (f s) else []) ss))"
  by (induction ss) (simp_all split: prod.splits)

lemma perform_services: "sm_of (snd (perform E es w)) = sm_of w"
proof (induction E es w rule: perform.induct)
  case (2 E n v es w)
  have n: "sm_of (snd (notify es w)) = sm_of w" for es w
    by (induction es w rule: notify.induct)
      (auto simp: changed_def sm_of_def property_changed_def Let_def split: prod.splits)
  obtain ops w1 where p: "set_prop E n v w = (ops, w1)" by force
  then have "sm_of w1 = sm_of w"
    using n[of _ "w\<lparr>b_props := _\<rparr>"]
    by (auto simp: set_prop_def props_step_def sm_of_def split: option.splits) (metis snd_conv)
  then show ?case using 2[OF p[symmetric]] by (simp add: p split_beta)
qed (simp_all add: sm_of_def)

lemma get_mode_loop_octal:
  "list_all (in_range (CHR ''0'') (CHR ''7'')) s \<Longrightarrow> get_mode_loop (word_of_int m) s = word_of_int (read_digits 8 m s)"
proof (induction s arbitrary: m)
  case (Cons c s)
  have n: "48 \<le> (of_char c :: nat)" "(of_char c :: nat) \<le> 55" using Cons.prems by (simp_all add: in_range_def)
  moreover have "(of_char c :: int) = int (of_char c)" by (cases c) (simp add: of_char_def)
  ultimately have "48 \<le> (of_char c :: int)" "(of_char c :: int) \<le> 55" by linarith+
  then have d: "0 \<le> digit_val c" "digit_val c < 8" using n by (simp_all add: digit_val_def in_range_def)
  have "push_bit 3 (word_of_int m) OR word_of_int (digit_val c) = (word_of_int (m * 8 + digit_val c) :: u32)"
  proof -
    have small: "n < 3" if "bit (word_of_int (digit_val c) :: u32) n" for n
    proof (rule ccontr)
      assume "\<not> n < 3"
      moreover have "take_bit 3 (digit_val c) = digit_val c" using d by (simp add: take_bit_int_eq_self_iff)
      ultimately have "\<not> bit (digit_val c) n" by (metis bit_take_bit_iff)
      then show False using that by (simp add: bit_word_of_int_iff)
    qed
    have "push_bit 3 (word_of_int m) OR word_of_int (digit_val c) = push_bit 3 (word_of_int m :: u32) + word_of_int (digit_val c)"
    proof (rule disjunctive_add[symmetric])
      fix n
      show "\<not> bit (push_bit 3 (word_of_int m) :: u32) n \<or> \<not> bit (word_of_int (digit_val c) :: u32) n"
        using small[of n] by (auto simp: bit_push_bit_iff)
    qed
    then show ?thesis by (simp add: push_bit_eq_mult algebra_simps)
  qed
  then have "get_mode_loop (word_of_int m) (c # s) = get_mode_loop (word_of_int (m * 8 + digit_val c)) s"
    using Cons.prems by (simp del: of_int_add of_int_mult)
  then show ?case using Cons.IH[of "m * 8 + digit_val c"] Cons.prems d by (simp del: of_int_add of_int_mult get_mode_loop.simps)
qed simp

lemma get_mode_loop_bad: "\<not> list_all (in_range (CHR ''0'') (CHR ''7'')) s \<Longrightarrow> get_mode_loop m s = - 1"
  by (induction s arbitrary: m) auto

lemma relabel_paths:
  "list_all (\<lambda>p. \<not> starts_with p ''--'') ps \<Longrightarrow>
   \<exists>ret'. relabel_loop E flag fl ret (ps @ rest) w =
     relabel_loop E flag (fl \<and> ps = []) ret' rest
       (w\<lparr>b_calls := b_calls w @ map (\<lambda>p. Lib_restorecon (c_str p) flag) ps\<rparr>)"
proof (induction ps arbitrary: fl ret w)
  case Nil
  show ?case by (intro exI[of _ ret]) simp
next
  case (Cons p ps)
  obtain r e where k: "be_kernel E (b_calls w) (Lib_restorecon (c_str p) flag) = (r, e)" by force
  let ?w = "w\<lparr>b_calls := b_calls w @ [Lib_restorecon (c_str p) flag]\<rparr>"
  have "relabel_loop E flag fl ret ((p # ps) @ rest) w =
      relabel_loop E flag False (if r < 0 then - e else ret) (ps @ rest) ?w"
    using Cons.prems k by (simp add: restorecon_def)
  then show ?case using Cons.IH[of False "if r < 0 then - e else ret" ?w] Cons.prems by simp
qed

definition relabel_table :: "benv \<Rightarrow> (string \<times> u32) list" where
  "relabel_table E = (case be_relabel E of (r, s, c) \<Rightarrow>
     [(''--recursive'', r), (''--skip-ce'', s), (''--cross-filesystems'', c)])"

lemma relabel_flags:
  "list_all (\<lambda>f. map_of (relabel_table E) f \<noteq> None) fs \<Longrightarrow>
   relabel_loop E flag True ret (fs @ rest) w =
     relabel_loop E (fold (\<lambda>f a. a OR the (map_of (relabel_table E) f)) fs flag) True ret rest w"
proof (induction fs arbitrary: flag)
  case (Cons f fs)
  obtain v where v: "map_of (relabel_table E) f = Some v" using Cons.prems by auto
  have "starts_with f ''--''"
    using v by (auto simp: relabel_table_def starts_with_def split: prod.splits if_splits)
  then have "relabel_loop E flag True ret ((f # fs) @ rest) w = relabel_loop E (flag OR v) True ret (fs @ rest) w"
    using v by (simp add: relabel_table_def split: prod.splits)
  then show ?case using Cons v by simp
qed simp

lemma mount_loop_ends:
  assumes "\<And>h. fst (be_kernel E h (Sys_open_dev (''/dev/block/loop'' @ show_nat N) ro)) < 0" "n \<le> N"
  shows "\<exists>r w'. mount_loop E ro fd target system flags options n w = Some (r, w')"
  using assms(2)
proof (induction "N - n" arbitrary: n w)
  case 0
  then have "n = N" by simp
  then have "fst (try_loop_device E ro fd target system flags options n w) = Some (- 1)"
    using assms(1)[of "b_calls w"] by (simp add: try_loop_device_def ask_def Let_def split_beta)
  then show ?case by (subst mount_loop.simps) (simp add: split_beta)
next
  case (Suc d)
  obtain r w1 where t: "try_loop_device E ro fd target system flags options n w = (r, w1)" by force
  have "d = N - (n + 1)" "n + 1 \<le> N" using Suc.hyps(2) by simp_all
  then have "\<exists>r w'. mount_loop E ro fd target system flags options (n + 1) w1 = Some (r, w')" by (rule Suc.hyps(1))
  then show ?case by (subst mount_loop.simps) (simp add: t split: option.splits)
qed

lemma option_loop_spec:
  "\<forall>i \<in> {mn..mx}. attempt i \<noteq> None \<Longrightarrow>
   (case option_loop attempt mn mx of
      (True, Some v) \<Rightarrow> mn \<le> v \<and> v \<le> mx \<and> attempt v = Some (show_int v) \<and> (\<forall>i. v < i \<and> i \<le> mx \<longrightarrow> attempt i \<noteq> Some (show_int i))
    | (False, None) \<Rightarrow> \<forall>i \<in> {mn..mx}. attempt i \<noteq> Some (show_int i)
    | _ \<Rightarrow> False)"
proof (induction attempt mn mx rule: option_loop.induct)
  case (1 attempt mn c)
  show ?case
  proof (cases "c < mn")
    case True
    then show ?thesis by (subst option_loop.simps) simp
  next
    case False
    then have "c \<in> {mn..c}" by simp
    then obtain s where s: "attempt c = Some s" using "1.prems" by blast
    show ?thesis
    proof (cases "show_int c = s")
      case True
      then show ?thesis using False s by (subst option_loop.simps) auto
    next
      case ne: False
      have eq: "option_loop attempt mn c = option_loop attempt mn (c - 1)"
        using False s ne by (subst option_loop.simps) simp
      have ih: "case option_loop attempt mn (c - 1) of
          (True, Some v) \<Rightarrow> mn \<le> v \<and> v \<le> c - 1 \<and> attempt v = Some (show_int v) \<and> (\<forall>i. v < i \<and> i \<le> c - 1 \<longrightarrow> attempt i \<noteq> Some (show_int i))
        | (False, None) \<Rightarrow> \<forall>i \<in> {mn..c - 1}. attempt i \<noteq> Some (show_int i)
        | _ \<Rightarrow> False"
        using "1.IH"[OF False s ne] "1.prems" by auto
      have top: "i \<le> c \<longleftrightarrow> i \<le> c - 1 \<or> i = c" for i :: int by arith
      have tc: "attempt c \<noteq> Some (show_int c)" using s ne by simp
      show ?thesis unfolding eq using ih tc top
        by (auto split: prod.splits bool.splits option.splits)
    qed
  qed
qed

section \<open>Properties\<close>

text \<open>A world with the sample property service, and an environment in which the kernel answers 0.\<close>

definition sample_lib :: "builtin svc_lib" where
  "sample_lib = \<lparr>lib_functions = Some builtin_functions, getpwnam = (\<lambda>_. None), ParseInt = (\<lambda>_ _ _. None),
     CapAmbientSupported = False, GetLastValidCap = 0, LookupCap = (\<lambda>_. - 1), priority_highest = - 20,
     priority_lowest = 19\<rparr>"

definition sample_benv :: benv where
  "sample_benv = \<lparr>be_svc = sample_env, be_gp = (\<lambda>_ _. []), be_lib = sample_lib, be_parse_uint = (\<lambda>_. None),
     be_senv = (\<lambda>_ _. sample_senv 7 0), be_kernel = (\<lambda>h c. (0, 0)), be_selabel = None,
     be_read_file = (\<lambda>_ _. None), be_is_dir = (\<lambda>_ _. False), be_readdir = (\<lambda>_ _. None),
     be_polls = (\<lambda>_ _. (0, [])), be_elapsed = (\<lambda>_. ''0''), be_persist_dir = (\<lambda>_. None),
     be_allow_override = False, be_recovery_id = (\<lambda>_. None), be_mntall = (\<lambda>_. 0), be_relabel = (4, 2, 1),
     be_verity_default = 0, be_verity = ([], True), be_coldboot_done = ''/d'', be_e4crypt_folder = ''/u'',
     be_arch = Aarch64, be_readable = (\<lambda>_. True), be_option = (\<lambda>_ i. Some (show_int i)),
     be_hwrng = (\<lambda>_. (- 1, 2, 0, []))\<rparr>"

definition sample_bworld :: bworld where
  "sample_bworld = \<lparr>b_init = \<lparr>in_sm = new_service_manager, waiting_for_prop = Some (''a'', ''1''),
       property_triggers_enabled = True, process_needs_restart_at = 0, in_env = replicate 32 None,
       powerctl = [], in_effects = []\<rparr>, b_props = sample_svc, b_calls = [], b_severity = Sev_INFO,
     b_console = [], b_system_loaded = False, b_vendor_loaded = False, b_odm_loaded = False, b_broken = False\<rparr>"


text \<open>
  C26. Setting a property from a script. With the property service in order, \<^verbatim>\<open>setprop\<close> returns
  0 and does what \<^verbatim>\<open>property_set\<close> does. If the property was set, a property trigger is queued as
  soon as these are enabled, and init stops waiting if it waited for this value; if it was
  refused, nothing is queued and init goes on waiting.
\<close>

theorem setprop_triggers_and_wakes:
  assumes "Property_Service_Correct.svc_inv (b_props w)" "NUL \<notin> set v" "NUL \<notin> set n"
  shows "\<exists>r ps ops w'. property_set (be_svc E) n v (b_props w) = Some (r, ps)
    \<and> run_builtin E Do_setprop [cmd, n, v] w = (0, ops, w')
    \<and> b_props w' = ps \<and> Property_Service_Correct.svc_inv ps
    \<and> ops = (if r = PROP_SUCCESS \<and> property_triggers_enabled (b_init w) then [OpQueueProperty n v] else [])
    \<and> waiting_for_prop (b_init w') =
        (if r = PROP_SUCCESS \<and> waiting_for_prop (b_init w) = Some (n, v) then None else waiting_for_prop (b_init w))"
proof -
  obtain r ps where p: "property_set (be_svc E) n v (b_props w) = Some (r, ps)" "Property_Service_Correct.svc_inv ps"
    using property_set_total[OF assms(1,2), of "be_svc E" n] by blast
  have "run_builtin E Do_setprop [cmd, n, v] w = finish 0 (set_prop E n v w)"
    using assms(2,3) by (simp add: do_setprop_def c_str_id)
  then show ?thesis
    using p set_prop_result[of E n v w r ps]
    by (auto simp: finish_def changed_def property_changed_def Let_def)
qed

text \<open>
  C38. \<^verbatim>\<open>class_start\<close> reaches exactly the services of the class: those that are not disabled are
  started, disabled ones are only marked, and all others stay as they are.
\<close>

theorem class_start_services:
  "services (sm_of (snd (snd (run_builtin E Do_class_start [cmd, c] w)))) =
     map (\<lambda>s. if c \<notin> classnames s then s
              else if has_flag s SVC_DISABLED then set_flags SVC_DISABLED_START s
              else fst (snd (Start (be_senv E w (svc_name s)) s))) (services (sm_of w))"
proof -
  have "services (sm_of (snd (snd (run_builtin E Do_class_start [cmd, c] w)))) =
      map (\<lambda>s. if c \<in> classnames s then fst (snd (StartIfNotDisabled (be_senv E w (svc_name s)) s)) else s) (services (sm_of w))"
    by (simp add: do_class_start_def on_class_def ForEachServiceInClass_def for_each_map finish_def perform_services)
      (simp add: put_sm_def sm_of_def)
  then show ?thesis by (simp add: StartIfNotDisabled_def cong: map_cong)
qed

text \<open>
  C39. The mode of \<^verbatim>\<open>chmod\<close>. A text of octal digits is read as their value modulo \<open>2 ^ 32\<close>. Any
  other text is not refused: the command then asks the kernel for the mode with all bits set.
\<close>

theorem chmod_mode:
  assumes "NUL \<notin> set m" "NUL \<notin> set path"
  shows "b_calls (snd (snd (run_builtin E Do_chmod [cmd, m, path] w))) =
    b_calls w @ [Sys_fchmodat path
      (if list_all (in_range (CHR ''0'') (CHR ''7'')) m then word_of_int (read_digits 8 0 m) else 0xFFFFFFFF)]"
  using assms get_mode_loop_octal[of m 0] get_mode_loop_bad[of m 0]
  by (simp add: do_chmod_def ask_def get_mode_def c_str_id split_beta)

theorem chmod_mode_witness:
  "b_calls (snd (snd (run_builtin sample_benv Do_chmod [''chmod'', ''0648'', ''/f''] sample_bworld))) =
     [Sys_fchmodat ''/f'' 0xFFFFFFFF]
   \<and> b_calls (snd (snd (run_builtin sample_benv Do_chmod [''chmod'', ''0644'', ''/f''] sample_bworld))) =
     [Sys_fchmodat ''/f'' 0x1A4]"
  using chmod_mode[of "''0648''" "''/f''" sample_benv "''chmod''" sample_bworld]
    chmod_mode[of "''0644''" "''/f''" sample_benv "''chmod''" sample_bworld]
  by (simp add: in_range_def digit_val_def sample_bworld_def)


theorem setprop_triggers_and_wakes_witness:
  "\<exists>r ps ops w'. property_set sample_env ''a'' ''1'' sample_svc = Some (r, ps)
    \<and> run_builtin sample_benv Do_setprop [''setprop'', ''a'', ''1''] sample_bworld = (0, ops, w')
    \<and> (r = PROP_SUCCESS \<longrightarrow> ops = [OpQueueProperty ''a'' ''1''] \<and> waiting_for_prop (b_init w') = None)"
proof -
  have w: "b_props sample_bworld = sample_svc" "property_triggers_enabled (b_init sample_bworld)"
    "waiting_for_prop (b_init sample_bworld) = Some (''a'', ''1'')" "be_svc sample_benv = sample_env"
    by (simp_all add: sample_bworld_def sample_benv_def)
  show ?thesis
    using setprop_triggers_and_wakes[of sample_bworld "''1''" "''a''" sample_benv "''setprop''"] sample_svc(1)
    by (auto simp: w)
qed

text \<open>
  \<^verbatim>\<open>restorecon\<close> takes flags before paths. With known flags and then paths, it relabels exactly
  these paths, in order, each with all the flags. A flag after the first path makes the
  command fail with -1, but only after the paths before it were relabelled.
\<close>

theorem restorecon_flags_then_paths:
  assumes "list_all (\<lambda>f. map_of (relabel_table E) f \<noteq> None) fs"
    and "list_all (\<lambda>p. \<not> starts_with p ''--'') ps" "ps \<noteq> []" "rest = [] \<or> starts_with (hd rest) ''--''"
    and "run_builtin E Do_restorecon (cmd # fs @ ps @ rest) w = (r, ops, w')"
  shows "b_calls w' = b_calls w @ map (\<lambda>p. Lib_restorecon (c_str p)
      (fold (\<lambda>f a. a OR the (map_of (relabel_table E) f)) fs 0)) ps
    \<and> (rest \<noteq> [] \<longrightarrow> r = - 1)"
proof -
  define flag where "flag = fold (\<lambda>f a. a OR the (map_of (relabel_table E) f)) fs 0"
  obtain ret' where "relabel_loop E flag True 0 (ps @ rest) w =
      relabel_loop E flag False ret' rest (w\<lparr>b_calls := b_calls w @ map (\<lambda>p. Lib_restorecon (c_str p) flag) ps\<rparr>)"
    using relabel_paths[OF assms(2), of E flag True 0 rest w] assms(3) by auto
  then have "(r, ops, w') = relabel_loop E flag False ret' rest
      (w\<lparr>b_calls := b_calls w @ map (\<lambda>p. Lib_restorecon (c_str p) flag) ps\<rparr>)"
    using assms(5) relabel_flags[OF assms(1), of 0 0 "ps @ rest" w] by (simp add: do_restorecon_def flag_def)
  then show ?thesis using assms(4) unfolding flag_def[symmetric] by (cases rest) auto
qed

theorem restorecon_flags_then_paths_witness:
  "b_calls (snd (snd (run_builtin sample_benv Do_restorecon [''restorecon'', ''--recursive'', ''/a'', ''--skip-ce''] sample_bworld))) =
     [Lib_restorecon ''/a'' 4]
   \<and> fst (run_builtin sample_benv Do_restorecon [''restorecon'', ''--recursive'', ''/a'', ''--skip-ce''] sample_bworld) = - 1"
proof -
  let ?r = "run_builtin sample_benv Do_restorecon [''restorecon'', ''--recursive'', ''/a'', ''--skip-ce''] sample_bworld"
  have t: "map_of (relabel_table sample_benv) ''--recursive'' = Some 4"
    by (simp add: relabel_table_def sample_benv_def)
  have "c_str ''/a'' = ''/a''" by code_simp
  then show ?thesis
    using restorecon_flags_then_paths[of sample_benv "[''--recursive'']" "[''/a'']" "[''--skip-ce'']" "''restorecon''"
        sample_bworld "fst ?r" "fst (snd ?r)" "snd (snd ?r)"] t
    by (simp add: starts_with_def sample_bworld_def del: run_builtin.simps)
qed

end
