(* ===== verification/Init_Boot.thy ===== *)
theory Init_Boot
  imports Kernel_Calls Property_Load Service
begin

text \<open>
  What init does before its main loop with the kernel command line, the device tree and
  SELinux (\<^verbatim>\<open>init/init.cpp\<close>), the arguments of \<^verbatim>\<open>watchdogd\<close> (\<^verbatim>\<open>init/watchdogd.cpp\<close>) and the lines
  of the configuration of \<^verbatim>\<open>ueventd\<close> (\<^verbatim>\<open>init/ueventd.cpp\<close>).

  Functions that only set properties return the calls of \<^verbatim>\<open>property_set\<close> in order. \<open>Split\<close>, \<open>Trim\<close>
  and \<open>rf\<close> (\<^verbatim>\<open>ReadFileToString\<close>) are library functions; \<open>gp\<close> is \<^verbatim>\<open>GetProperty\<close> with an empty default.
\<close>

section \<open>Kernel command line and device tree\<close>

text \<open>The state is the buffer \<^verbatim>\<open>qemu\<close> of 32 bytes and the properties set.\<close>

definition import_kernel_nv ::
  "string \<Rightarrow> string \<Rightarrow> bool \<Rightarrow> string \<times> prop_call list \<Rightarrow> string \<times> prop_call list" where
  "import_kernel_nv key val for_emulator s =
     (case s of (qemu, cs) \<Rightarrow>
      if key = [] then s
      else if for_emulator then (qemu, cs @ [(''ro.kernel.'' @ c_str key, c_str val)])
      else if key = ''qemu'' then (take 31 (c_str val), cs)
      else if starts_with key ''androidboot.'' then (qemu, cs @ [(''ro.boot.'' @ drop 12 (c_str key), c_str val)])
      else s)"

definition process_kernel_cmdline ::
  "(string \<Rightarrow> string \<Rightarrow> string list) \<Rightarrow> (string \<Rightarrow> string) \<Rightarrow> string \<Rightarrow> string \<times> prop_call list \<Rightarrow> string \<times> prop_call list" where
  "process_kernel_cmdline Split Trim cmdline s =
     (let s1 = import_kernel_cmdline Split Trim cmdline False import_kernel_nv s in
      if fst s1 \<noteq> [] then import_kernel_cmdline Split Trim cmdline True import_kernel_nv s1 else s1)"

definition export_oem_lock_status :: "bool \<Rightarrow> (string \<Rightarrow> string) \<Rightarrow> prop_call list" where
  "export_oem_lock_status oem_unlock_supported gp =
     (let val = gp ''ro.boot.verifiedbootstate'' in
      if \<not> oem_unlock_supported \<or> val = [] then []
      else [(''ro.boot.flash.locked'', if val = ''orange'' then ''0'' else ''1'')])"

definition prop_map :: "(string \<times> string \<times> string) list" where
  "prop_map =
     [(''ro.boot.serialno'', ''ro.serialno'', ''''),
      (''ro.boot.mode'', ''ro.bootmode'', ''unknown''),
      (''ro.boot.baseband'', ''ro.baseband'', ''unknown''),
      (''ro.boot.bootloader'', ''ro.bootloader'', ''unknown''),
      (''ro.boot.hardware'', ''ro.hardware'', ''unknown''),
      (''ro.boot.revision'', ''ro.revision'', ''0'')]"

definition export_kernel_boot_props :: "(string \<Rightarrow> string) \<Rightarrow> prop_call list" where
  "export_kernel_boot_props gp =
     map (\<lambda>(src_prop, dst_prop, default_value).
       (dst_prop, if gp src_prop \<noteq> [] then c_str (gp src_prop) else default_value)) prop_map"

text \<open>
  The entries of the directory with whether they are regular files; \<open>rt\<close> is the text
  \<^verbatim>\<open>ReadFileToString\<close> leaves in its argument.
\<close>

fun dt_props :: "(string \<Rightarrow> string) \<Rightarrow> string \<Rightarrow> (string \<times> bool) list \<Rightarrow> prop_call list" where
  "dt_props rt dt_dir [] = []"
| "dt_props rt dt_dir ((name, reg) # es) =
     (if \<not> reg \<or> name = ''compatible'' \<or> name = ''name'' then dt_props rt dt_dir es
      else
       let dt_file = map (\<lambda>c. if c = CHR '','' then CHR ''.'' else c) (rt (dt_dir @ name))
       in (''ro.boot.'' @ name, c_str dt_file) # dt_props rt dt_dir es)"

definition process_kernel_dt ::
  "(string \<Rightarrow> string option) \<Rightarrow> (string \<Rightarrow> string) \<Rightarrow> string \<Rightarrow> (string \<times> bool) list option \<Rightarrow> prop_call list" where
  "process_kernel_dt rf rt dt_dir entries =
     (if \<not> is_android_dt_value_expected rf dt_dir ''compatible'' ''android,firmware'' then []
      else (case entries of None \<Rightarrow> [] | Some es \<Rightarrow> dt_props rt dt_dir es))"

definition set_usb_controller :: "string list option \<Rightarrow> prop_call list" where
  "set_usb_controller entries =
     (case entries of
        None \<Rightarrow> []
      | Some es \<Rightarrow>
         (case filter (\<lambda>n. take 1 n \<noteq> ''.'') es of [] \<Rightarrow> [] | n # _ \<Rightarrow> [(''sys.usb.controller'', n)]))"

section \<open>SELinux\<close>

definition selinux_permissive_entry :: "string \<Rightarrow> string \<Rightarrow> bool \<Rightarrow> bool \<Rightarrow> bool" where
  "selinux_permissive_entry key val in_qemu enforcing =
     (if key = ''androidboot.selinux'' \<and> val = ''permissive'' then False else enforcing)"

definition selinux_is_enforcing ::
  "bool \<Rightarrow> (string \<Rightarrow> string \<Rightarrow> string list) \<Rightarrow> (string \<Rightarrow> string) \<Rightarrow> string \<Rightarrow> bool" where
  "selinux_is_enforcing ALLOW_PERMISSIVE_SELINUX Split Trim cmdline =
     (if ALLOW_PERMISSIVE_SELINUX
      then import_kernel_cmdline Split Trim cmdline False selinux_permissive_entry True
      else True)"

definition read_first_line :: "(string \<Rightarrow> string option) \<Rightarrow> string \<Rightarrow> string option" where
  "read_first_line rf file = map_option (takeWhile (\<lambda>c. c \<noteq> CHR 0x0A)) (rf file)"

definition precompiled_sepolicy :: string where
  "precompiled_sepolicy = ''/vendor/etc/selinux/precompiled_sepolicy''"

definition selinux_find_precompiled_split_policy ::
  "(string \<Rightarrow> bool) \<Rightarrow> (string \<Rightarrow> string option) \<Rightarrow> string option" where
  "selinux_find_precompiled_split_policy can_read rf =
     (if \<not> can_read precompiled_sepolicy then None
      else
       (case (read_first_line rf ''/system/etc/selinux/plat_and_mapping_sepolicy.cil.sha256'',
              read_first_line rf ''/vendor/etc/selinux/precompiled_sepolicy.plat_and_mapping.sha256'') of
          (Some actual, Some precompiled) \<Rightarrow>
            if actual = [] \<or> actual \<noteq> precompiled then None else Some precompiled_sepolicy
        | _ \<Rightarrow> None))"

definition selinux_get_vendor_mapping_version :: "(string \<Rightarrow> string option) \<Rightarrow> string option" where
  "selinux_get_vendor_mapping_version rf =
     (case read_first_line rf ''/vendor/etc/selinux/plat_sepolicy_vers.txt'' of
        None \<Rightarrow> None
      | Some v \<Rightarrow> if v = [] then None else Some v)"

definition plat_policy_cil_file :: string where
  "plat_policy_cil_file = ''/system/etc/selinux/plat_sepolicy.cil''"

definition compile_args :: "int \<Rightarrow> string \<Rightarrow> string \<Rightarrow> string list" where
  "compile_args max_policy_version vend_plat_vers compiled_sepolicy =
     [''/system/bin/secilc'', plat_policy_cil_file, ''-M'', ''true'', ''-G'', ''-N'', ''-c'',
      show_int max_policy_version, ''/system/etc/selinux/mapping/'' @ vend_plat_vers @ ''.cil'',
      ''/vendor/etc/selinux/nonplat_sepolicy.cil'', ''-o'', compiled_sepolicy, ''-f'', ''/sys/fs/selinux/null'']"

text \<open>
  \<open>tmp\<close> is the name \<^verbatim>\<open>mkostemp\<close> makes. The run of the compiler is a library call whose result is
  not 0 when it succeeds.
\<close>

definition compile_policy :: "kernel \<Rightarrow> (string \<Rightarrow> string option) \<Rightarrow> string \<Rightarrow> sys_call list \<Rightarrow> bool \<times> sys_call list" where
  "compile_policy k rf tmp h =
     (let vers = Lib_call ''security_policyvers'' []; h1 = h @ [vers]; mx = fst (k h vers) in
      if mx = - 1 then (False, h1)
      else
       let mk = Lib_call ''mkostemp'' [tmp]; fd = fst (k h1 mk); h2 = h1 @ [mk] in
       if fd < 0 then (False, h2)
       else
        (case selinux_get_vendor_mapping_version rf of
           None \<Rightarrow> (False, h2 @ [Sys_close fd])
         | Some v \<Rightarrow>
            let run = Lib_call ''fork_execve_and_wait_for_completion'' (compile_args mx v tmp);
                h3 = h2 @ [run]; h4 = h3 @ [Sys_unlink tmp] in
            if fst (k h2 run) = 0 then (False, h4 @ [Sys_close fd])
            else
             let load = Lib_call ''selinux_android_load_policy_from_fd'' [tmp] in
             (fst (k h4 load) \<ge> 0, h4 @ [load, Sys_close fd])))"

definition selinux_load_split_policy ::
  "kernel \<Rightarrow> (string \<Rightarrow> bool) \<Rightarrow> (string \<Rightarrow> string option) \<Rightarrow> string \<Rightarrow> sys_call list \<Rightarrow> bool \<times> sys_call list" where
  "selinux_load_split_policy k can_read rf tmp h =
     (case selinux_find_precompiled_split_policy can_read rf of
        None \<Rightarrow> compile_policy k rf tmp h
      | Some file \<Rightarrow>
         let fd = fst (k h (Sys_open_read file)); h1 = h @ [Sys_open_read file] in
         if fd \<noteq> - 1 then
           let load = Lib_call ''selinux_android_load_policy_from_fd'' [file] in
           (fst (k h1 load) \<ge> 0, h1 @ [load, Sys_close fd])
         else compile_policy k rf tmp h1)"

definition selinux_load_policy ::
  "kernel \<Rightarrow> (string \<Rightarrow> bool) \<Rightarrow> (string \<Rightarrow> string option) \<Rightarrow> string \<Rightarrow> sys_call list \<Rightarrow> bool \<times> sys_call list" where
  "selinux_load_policy k can_read rf tmp h =
     (if can_read plat_policy_cil_file then selinux_load_split_policy k can_read rf tmp h
      else
       let load = Lib_call ''selinux_android_load_policy'' [] in (fst (k h load) \<ge> 0, h @ [load]))"

text \<open>The part of \<open>selinux_initialize\<close> for the kernel domain; \<open>is_enforcing\<close> is \<open>selinux_is_enforcing\<close>.\<close>

definition set_enforcing :: "kernel \<Rightarrow> bool \<Rightarrow> sys_call list \<Rightarrow> sys_call list" where
  "set_enforcing k is_enforcing h =
     (let get = Lib_call ''security_getenforce'' [];
          st = Lib_call ''security_setenforce'' [if is_enforcing then ''1'' else ''0''];
          h1 = h @ [get] in
      if (fst (k h get) = 1) \<noteq> is_enforcing then
        (if fst (k h1 st) \<noteq> 0 then panic (h1 @ [st]) else h1 @ [st])
      else h1)"

definition selinux_initialize ::
  "kernel \<Rightarrow> (string \<Rightarrow> bool) \<Rightarrow> (string \<Rightarrow> string option) \<Rightarrow> string \<Rightarrow> bool \<Rightarrow> sys_call list \<Rightarrow> sys_call list" where
  "selinux_initialize k can_read rf tmp is_enforcing h =
     (case selinux_load_policy k can_read rf tmp h of
        (ok, h1) \<Rightarrow>
          let h2 = (if ok then h1 else panic h1); h3 = set_enforcing k is_enforcing h2 in
          (case write_file k ''/sys/fs/selinux/checkreqprot'' ''0'' h3 of
             (w, h4) \<Rightarrow> if w then h4 else panic h4))"

section \<open>watchdogd\<close>

text \<open>
  The interval of \<^verbatim>\<open>watchdogd\<close>. \<open>set_ok\<close> is the answer to setting the time-out, \<open>got\<close> the time-out
  the driver reports, if it does. Sums and differences wrap at 32 bits.
\<close>

definition int32 :: "int \<Rightarrow> int" where
  "int32 i = sint (word_of_int i :: 32 word)"

definition watchdog_timeout :: "int \<Rightarrow> int \<Rightarrow> int" where
  "watchdog_timeout interval margin = int32 (interval + margin)"

definition watchdog_interval :: "int \<Rightarrow> int \<Rightarrow> bool \<Rightarrow> int option \<Rightarrow> int" where
  "watchdog_interval interval margin set_ok got =
     (if set_ok then interval
      else (case got of
              None \<Rightarrow> interval
            | Some timeout \<Rightarrow> if timeout > margin then int32 (timeout - margin) else 1))"

section \<open>Lines of ueventd.rc\<close>

text \<open>\<^verbatim>\<open>strtol(s, &endptr, 8)\<close> where the end pointer is at the end of the text.\<close>

definition strtol8 :: "string \<Rightarrow> int option" where
  "strtol8 s =
     (let t = dropWhile isspace s;
          neg = (t \<noteq> [] \<and> hd t = CHR ''-'');
          u = (if t \<noteq> [] \<and> (hd t = CHR ''-'' \<or> hd t = CHR ''+'') then tl t else t);
          v = (if neg then - read_digits 8 0 u else read_digits 8 0 u) in
      if s = [] then Some 0
      else if u = [] \<or> list_ex (\<lambda>c. \<not> digit_val c < 8) u then None
      else Some (max (- (2 ^ 63)) (min (2 ^ 63 - 1) v)))"

record dev_perm =
  dp_name :: string
  dp_attr :: "string option"
  dp_perm :: u32
  dp_uid :: u32
  dp_gid :: u32
  dp_prefix :: bool
  dp_wildcard :: bool

text \<open>
  The arguments of \<^verbatim>\<open>add_dev_perms\<close>, if it is called. For an empty name the source reads the
  character before its begin; the model takes it to be no star.
\<close>

definition set_device_permission ::
  "(string \<Rightarrow> u32 option) \<Rightarrow> (string \<Rightarrow> u32 option) \<Rightarrow> string list \<Rightarrow> dev_perm option" where
  "set_device_permission pw_uid gr_gid args0 =
     (if args0 = [] \<or> take 1 (hd args0) = ''#'' then None
      else
       let name = hd args0;
           sysfs = (starts_with name ''/sys/'' \<and> length args0 = 5);
           attr = (if sysfs then Some (args0 ! 1) else None);
           args = (if sysfs then tl args0 else args0) in
       if length args \<noteq> 4 then None
       else
        let prefix = (name \<noteq> [] \<and> last name = CHR ''*'' \<and> CHR ''*'' \<notin> set (butlast name));
            wildcard = (\<not> prefix \<and> CHR ''*'' \<in> set name) in
        (case (strtol8 (args ! 1), pw_uid (args ! 2), gr_gid (args ! 3)) of
           (Some perm, Some uid, Some gid) \<Rightarrow>
             Some \<lparr>dp_name = (if prefix then butlast name else name), dp_attr = attr, dp_perm = word_of_int perm,
                   dp_uid = uid, dp_gid = gid, dp_prefix = prefix, dp_wildcard = wildcard\<rparr>
         | _ \<Rightarrow> None))"

section \<open>Lemmas\<close>

text \<open>
  What the kernel promises of the enforcing mode: \<open>enf h\<close> is the mode after the calls \<open>h\<close>. It is
  what \<^verbatim>\<open>security_getenforce\<close> reports, what a successful \<^verbatim>\<open>security_setenforce\<close> sets, and no other
  call changes it.
\<close>

definition enforcing_mode :: "kernel \<Rightarrow> (sys_call list \<Rightarrow> bool) \<Rightarrow> bool" where
  "enforcing_mode k enf = (\<forall>h.
     (fst (k h (Lib_call ''security_getenforce'' [])) = 1 \<longleftrightarrow> enf h)
     \<and> (\<forall>v. fst (k h (Lib_call ''security_setenforce'' [v])) = 0 \<longrightarrow>
          enf (h @ [Lib_call ''security_setenforce'' [v]]) = (v = ''1''))
     \<and> (\<forall>c. (\<forall>v. c \<noteq> Lib_call ''security_setenforce'' v) \<longrightarrow> enf (h @ [c]) = enf h))"

definition reboots :: "sys_call list \<Rightarrow> bool" where
  "reboots h = (Lib_reboot ''bootloader'' \<in> set h)"

lemma enforcing_modeD:
  assumes "enforcing_mode k enf"
  shows "fst (k h (Lib_call ''security_getenforce'' [])) = 1 \<longleftrightarrow> enf h"
    and "fst (k h (Lib_call ''security_setenforce'' [v])) = 0 \<Longrightarrow> enf (h @ [Lib_call ''security_setenforce'' [v]]) = (v = ''1'')"
    and "(\<And>v. c \<noteq> Lib_call ''security_setenforce'' v) \<Longrightarrow> enf (h @ [c]) = enf h"
  using assms unfolding enforcing_mode_def by blast+

lemma set_enforcing_mode:
  assumes "enforcing_mode k enf"
  shows "reboots (set_enforcing k e h) \<or> enf (set_enforcing k e h) = e"
proof -
  define g where "g = Lib_call ''security_getenforce'' []"
  have g: "enf (h @ [g]) = enf h" "(fst (k h g) = 1) = enf h"
    using enforcing_modeD[OF assms] by (simp_all add: g_def)
  define st where "st = Lib_call ''security_setenforce'' [if e then ''1'' else ''0'']"
  have eq: "set_enforcing k e h = (if enf h \<noteq> e then
      (if fst (k (h @ [g]) st) \<noteq> 0 then panic ((h @ [g]) @ [st]) else (h @ [g]) @ [st]) else h @ [g])"
    unfolding set_enforcing_def Let_def g_def[symmetric] st_def[symmetric] g(2) by simp
  have "fst (k (h @ [g]) st) = 0 \<Longrightarrow> enf ((h @ [g]) @ [st]) = e"
    using enforcing_modeD(2)[OF assms, of "h @ [g]" "if e then ''1'' else ''0''"] by (simp add: st_def)
  then show ?thesis unfolding eq using g(1) by (auto simp: reboots_def panic_def)
qed

lemma write_file_mode:
  assumes "enforcing_mode k enf"
  shows "enf (snd (write_file k p t h)) = enf h \<and> (reboots h \<longrightarrow> reboots (snd (write_file k p t h)))"
proof -
  note c = enforcing_modeD(3)[OF assms]
  have "enf (h @ [Sys_open_write p]) = enf h" by (rule c) simp
  moreover have "enf ((h @ [Sys_open_write p]) @ [Sys_write fd t]) = enf (h @ [Sys_open_write p])" for fd by (rule c) simp
  moreover have "enf (((h @ [Sys_open_write p]) @ [Sys_write fd t]) @ [Sys_close fd]) = enf ((h @ [Sys_open_write p]) @ [Sys_write fd t])" for fd
    by (rule c) simp
  ultimately show ?thesis by (simp add: write_file_def Let_def reboots_def)
qed

lemma cmdline_fold:
  "fold (\<lambda>entry s. case Split entry ''='' of [k, v] \<Rightarrow> selinux_permissive_entry k v False s | _ \<Rightarrow> s) es b \<longleftrightarrow>
   b \<and> (\<forall>entry \<in> set es. Split entry ''='' \<noteq> [''androidboot.selinux'', ''permissive''])"
proof (induction es arbitrary: b)
  case (Cons e es)
  have "(case Split e ''='' of [k, v] \<Rightarrow> selinux_permissive_entry k v False b | _ \<Rightarrow> b) \<longleftrightarrow>
      b \<and> Split e ''='' \<noteq> [''androidboot.selinux'', ''permissive'']"
    by (auto simp: selinux_permissive_entry_def split: list.splits)
  then show ?case using Cons.IH by simp
qed simp

section \<open>Properties\<close>

text \<open>
  C10. SELinux is enforcing or the device reboots. After \<^verbatim>\<open>selinux_initialize\<close> either a reboot to the
  bootloader was asked for, or the kernel is in the mode that \<^verbatim>\<open>selinux_is_enforcing\<close> gives; and
  that mode is permissive only in a build that allows it and with
  \<^verbatim>\<open>androidboot.selinux=permissive\<close> on the kernel command line.
\<close>

theorem selinux_enforcing_or_reboot:
  assumes "enforcing_mode k enf"
    and "e = selinux_is_enforcing ALLOW_PERMISSIVE_SELINUX Split Trim cmdline"
  shows "(reboots (selinux_initialize k can_read rf tmp e h) \<or> enf (selinux_initialize k can_read rf tmp e h) = e)
    \<and> (\<not> e \<longrightarrow> ALLOW_PERMISSIVE_SELINUX
         \<and> (\<exists>entry \<in> set (Split (Trim cmdline) '' ''). Split entry ''='' = [''androidboot.selinux'', ''permissive'']))"
proof (intro conjI impI)
  obtain ok h1 where l: "selinux_load_policy k can_read rf tmp h = (ok, h1)" by force
  define h3 where "h3 = set_enforcing k e (if ok then h1 else panic h1)"
  obtain w h4 where w: "write_file k ''/sys/fs/selinux/checkreqprot'' ''0'' h3 = (w, h4)" by force
  have eq: "selinux_initialize k can_read rf tmp e h = (if w then h4 else panic h4)"
    unfolding selinux_initialize_def l prod.case Let_def h3_def[symmetric] w ..
  have "reboots h3 \<or> enf h3 = e" unfolding h3_def by (rule set_enforcing_mode[OF assms(1)])
  moreover have "enf h4 = enf h3" "reboots h3 \<longrightarrow> reboots h4"
    using write_file_mode[OF assms(1), of "''/sys/fs/selinux/checkreqprot''" "''0''" h3] w by simp_all
  ultimately show "reboots (selinux_initialize k can_read rf tmp e h) \<or> enf (selinux_initialize k can_read rf tmp e h) = e"
    unfolding eq by (auto simp: reboots_def panic_def)
next
  assume "\<not> e"
  then show "ALLOW_PERMISSIVE_SELINUX" using assms(2) by (simp add: selinux_is_enforcing_def split: if_splits)
next
  assume "\<not> e"
  then show "\<exists>entry \<in> set (Split (Trim cmdline) '' ''). Split entry ''='' = [''androidboot.selinux'', ''permissive'']"
    using assms(2) by (auto simp: selinux_is_enforcing_def import_kernel_cmdline_def cmdline_fold split: if_splits)
qed

text \<open>A kernel that starts permissive and obeys \<^verbatim>\<open>security_setenforce\<close>.\<close>

definition sample_enf :: "sys_call list \<Rightarrow> bool" where
  "sample_enf h = fold (\<lambda>c b. case c of
     Lib_call f [v] \<Rightarrow> if f = ''security_setenforce'' then v = ''1'' else b | _ \<Rightarrow> b) h False"

definition sample_kernel :: kernel where
  "sample_kernel h c = (if c = Lib_call ''security_getenforce'' [] then (if sample_enf h then 1 else 0, 0)
     else (case c of Lib_call f [v] \<Rightarrow> (0, 0) | Lib_call f vs \<Rightarrow> (1, 0) | _ \<Rightarrow> (1, 0)))"

lemma sample_enf_append: "sample_enf (h @ [c]) = (case c of
     Lib_call f [v] \<Rightarrow> if f = ''security_setenforce'' then v = ''1'' else sample_enf h | _ \<Rightarrow> sample_enf h)"
  unfolding sample_enf_def fold_append by simp

lemma sample_enforcing_mode: "enforcing_mode sample_kernel sample_enf"
  unfolding enforcing_mode_def
proof (intro allI conjI impI)
  fix h and c :: sys_call
  assume c: "\<forall>v. c \<noteq> Lib_call ''security_setenforce'' v"
  show "sample_enf (h @ [c]) = sample_enf h"
  proof (cases c)
    case (Lib_call f vs)
    then have "f \<noteq> ''security_setenforce''" using c by blast
    then show ?thesis unfolding sample_enf_append Lib_call by (simp split: list.splits)
  qed (simp_all add: sample_enf_append)
qed (simp_all add: sample_kernel_def sample_enf_append)

theorem selinux_enforcing_or_reboot_witness:
  "reboots (selinux_initialize sample_kernel (\<lambda>_. False) (\<lambda>_. None) ''t'' True [])
   \<or> sample_enf (selinux_initialize sample_kernel (\<lambda>_. False) (\<lambda>_. None) ''t'' True [])"
proof -
  have "True = selinux_is_enforcing False (\<lambda>_ _. []) (\<lambda>s. s) []" by (simp add: selinux_is_enforcing_def)
  from selinux_enforcing_or_reboot[OF sample_enforcing_mode this, of "\<lambda>_. False" "\<lambda>_. None" "''t''" "[]"]
  show ?thesis by simp
qed

text \<open>
  When the driver refuses the time-out of \<^verbatim>\<open>watchdogd\<close> and reports its own, the new interval is
  positive and leaves exactly the margin, if the reported time-out is longer than the margin.
\<close>

lemma int32_id: "- (2 ^ 31) \<le> i \<Longrightarrow> i < 2 ^ 31 \<Longrightarrow> int32 i = i"
  by (simp add: int32_def signed_take_bit_int_eq_self sint_sbintrunc')

theorem watchdog_interval_fits:
  assumes "0 \<le> margin" "timeout < 2 ^ 31"
  shows "watchdog_interval interval margin False (Some timeout) > 0
    \<and> (timeout > margin \<longrightarrow> watchdog_interval interval margin False (Some timeout) + margin = timeout)"
  using assms int32_id[of "timeout - margin"] by (auto simp: watchdog_interval_def)

end
