(* ===== verification/First_Stage.thy ===== *)
theory First_Stage
  imports Kernel_Calls
begin

text \<open>
  The first stage mount (\<^verbatim>\<open>init_first_stage.cpp\<close>): before the policy is loaded, init creates the block
  devices of \<^verbatim>\<open>/system\<close>, \<^verbatim>\<open>/vendor\<close> and \<^verbatim>\<open>/odm\<close>, sets up their verification and mounts them. The two
  subclasses of \<^verbatim>\<open>FirstStageMount\<close> are the two values of \<open>vboot\<close>; their virtual functions are cases on it.

  The libraries \<^verbatim>\<open>fs_mgr\<close> and \<^verbatim>\<open>libavb\<close> are fields of \<open>fs_env\<close>. \<open>dinit\<close> is \<^verbatim>\<open>device_init\<close>, which gets a path
  and a callback that acts on the object.
\<close>

datatype coldboot_action = COLDBOOT_CONTINUE | COLDBOOT_CREATE | COLDBOOT_STOP

record uevent =
  ue_path :: "string option"
  subsystem :: string
  device_name :: "string option"
  partition_name :: "string option"

record fstab_rec =
  mount_point :: string
  blk_device :: string
  verity_loc :: "string option"
  fs_mgr_flags :: nat

record avb_handle =
  hashtree_disabled :: bool
  avb_version :: string

datatype vboot = VBootV1 | VBootV2

datatype verity_result = SETUP_VERITY_DISABLED | SETUP_VERITY_SUCCESS | SETUP_VERITY_FAIL

datatype fs_event =
    Device_Init "string option"
  | Device_Close
  | Mounted string string
  | Mount_Failed string string
  | Setenv string string

record fs_env =
  recovery :: bool
  e_read_file :: "string \<Rightarrow> string option"
  e_dt_dir :: string
  read_fstab_dt :: "fstab_rec list option"
  get_entry :: "fstab_rec list \<Rightarrow> string \<Rightarrow> fstab_rec option"
  is_verifyatboot :: "fstab_rec \<Rightarrow> bool"
  is_verified :: "fstab_rec \<Rightarrow> bool"
  is_avb :: "fstab_rec \<Rightarrow> bool"
  setup_verity :: "fstab_rec \<Rightarrow> verity_result \<times> string"
  do_mount_one :: "fstab_rec \<Rightarrow> bool"
  slot_suffix :: string
  e_split :: "string \<Rightarrow> string list"
  block_symlink :: "uevent \<Rightarrow> string option"
  avb_open :: "(string \<times> string) list \<Rightarrow> avb_handle option"
  SetUpAvb :: "avb_handle \<Rightarrow> fstab_rec \<Rightarrow> bool \<times> string"

record first_stage =
  version :: vboot
  need_dm_verity :: bool
  mount_fstab_recs :: "fstab_rec list"
  required_names :: "string set"
  vbmeta_parts :: string
  by_name_symlink_map :: "(string \<times> string) list"
  avb_state :: "avb_handle option"
  fs_events :: "fs_event list"

type_synonym device_callback = "uevent \<Rightarrow> first_stage \<Rightarrow> coldboot_action \<times> first_stage"
type_synonym device_init = "string option \<Rightarrow> device_callback \<Rightarrow> first_stage \<Rightarrow> first_stage"

text \<open>\<^verbatim>\<open>basename\<close> of the C library.\<close>

definition posix_basename :: "string \<Rightarrow> string" where
  "posix_basename s =
     (if s = [] then ''.''
      else let t = dropWhile (\<lambda>c. c = CHR ''/'') (rev s) in
           if t = [] then ''/'' else rev (takeWhile (\<lambda>c. c \<noteq> CHR ''/'') t))"

definition log_event :: "fs_event \<Rightarrow> first_stage \<Rightarrow> first_stage" where
  "log_event e st = st\<lparr>fs_events := fs_events st @ [e]\<rparr>"

section \<open>The object\<close>

definition IsDtVbmetaCompatible :: "fs_env \<Rightarrow> bool" where
  "IsDtVbmetaCompatible env =
     is_android_dt_value_expected (e_read_file env) (e_dt_dir env) ''vbmeta/compatible'' ''android,vbmeta''"

definition FirstStageMount_new :: "fs_env \<Rightarrow> vboot \<Rightarrow> first_stage" where
  "FirstStageMount_new env v =
     \<lparr>version = v, need_dm_verity = False,
      mount_fstab_recs = (case read_fstab_dt env of
          None \<Rightarrow> []
        | Some fstab \<Rightarrow> List.map_filter (get_entry env fstab) [''/system'', ''/vendor'', ''/odm'']),
      required_names = {},
      vbmeta_parts = (case v of
          VBootV1 \<Rightarrow> []
        | VBootV2 \<Rightarrow> (case read_android_dt_file (e_read_file env) (e_dt_dir env) ''vbmeta/parts'' of None \<Rightarrow> [] | Some s \<Rightarrow> s)),
      by_name_symlink_map = [], avb_state = None, fs_events = []\<rparr>"

definition FirstStageMount_Create :: "fs_env \<Rightarrow> first_stage" where
  "FirstStageMount_Create env = FirstStageMount_new env (if IsDtVbmetaCompatible env then VBootV2 else VBootV1)"

section \<open>Required devices\<close>

text \<open>The first loop of \<^verbatim>\<open>FirstStageMountVBootV1::GetRequiredDevices\<close>.\<close>

fun check_recs :: "fs_env \<Rightarrow> fstab_rec list \<Rightarrow> bool \<Rightarrow> string \<Rightarrow> bool \<times> bool \<times> string" where
  "check_recs env [] need loc = (True, need, loc)"
| "check_recs env (r # rs) need loc =
     (if is_verifyatboot env r then (False, need, loc)
      else let need' = (need \<or> is_verified env r) in
        case verity_loc r of
          None \<Rightarrow> check_recs env rs need' loc
        | Some d \<Rightarrow>
            if loc = [] then check_recs env rs need' d
            else if loc \<noteq> d then (False, need', loc)
            else check_recs env rs need' loc)"

definition rec_names :: "first_stage \<Rightarrow> string set" where
  "rec_names st = set (map (\<lambda>r. posix_basename (blk_device r)) (mount_fstab_recs st))"

definition GetRequiredDevices_V1 :: "fs_env \<Rightarrow> first_stage \<Rightarrow> bool \<times> first_stage" where
  "GetRequiredDevices_V1 env st =
     (case check_recs env (mount_fstab_recs st) False [] of
        (ok, need, loc) \<Rightarrow>
          let st1 = st\<lparr>need_dm_verity := need\<rparr> in
          if \<not> ok then (False, st1)
          else (True, st1\<lparr>required_names := required_names st \<union> rec_names st
                   \<union> (if loc = [] then {} else {posix_basename loc})\<rparr>))"

definition GetRequiredDevices_V2 :: "fs_env \<Rightarrow> first_stage \<Rightarrow> bool \<times> first_stage" where
  "GetRequiredDevices_V2 env st =
     (let need = list_ex (is_avb env) (mount_fstab_recs st);
          st1 = st\<lparr>need_dm_verity := need, required_names := required_names st \<union> rec_names st\<rparr> in
      if \<not> need then (True, st1)
      else if vbmeta_parts st = [] then (False, st1)
      else (True, st1\<lparr>required_names := required_names st1
               \<union> set (map (\<lambda>p. p @ slot_suffix env) (e_split env (vbmeta_parts st)))\<rparr>))"

definition GetRequiredDevices :: "fs_env \<Rightarrow> first_stage \<Rightarrow> bool \<times> first_stage" where
  "GetRequiredDevices env st =
     (case version st of VBootV1 \<Rightarrow> GetRequiredDevices_V1 env st | VBootV2 \<Rightarrow> GetRequiredDevices_V2 env st)"

definition FirstStageMount_ColdbootCallback :: device_callback where
  "FirstStageMount_ColdbootCallback u st =
     (if take 8 (subsystem u) = ''platform'' then (COLDBOOT_CREATE, st)
      else if take 5 (subsystem u) \<noteq> ''block'' then (COLDBOOT_CONTINUE, st)
      else case partition_name u of
        None \<Rightarrow> (COLDBOOT_CONTINUE, st)
      | Some n \<Rightarrow>
          if n \<in> required_names st then
            (let st1 = st\<lparr>required_names := required_names st - {n}\<rparr> in
             (if required_names st1 = {} then COLDBOOT_STOP else COLDBOOT_CREATE, st1))
          else (COLDBOOT_CONTINUE, st))"

definition ColdbootCallback_V2 :: "fs_env \<Rightarrow> device_callback" where
  "ColdbootCallback_V2 env u st =
     (case FirstStageMount_ColdbootCallback u st of
        (ret, st1) \<Rightarrow>
          (case partition_name u of
             None \<Rightarrow> (ret, st1)
           | Some n \<Rightarrow>
               if ret = COLDBOOT_CONTINUE then (ret, st1)
               else (case block_symlink env u of
                   None \<Rightarrow> (ret, st1)
                 | Some l \<Rightarrow>
                     (ret, if map_of (by_name_symlink_map st1) n = None
                           then st1\<lparr>by_name_symlink_map := by_name_symlink_map st1 @ [(n, l)]\<rparr> else st1))))"

definition ColdbootCallback :: "fs_env \<Rightarrow> device_callback" where
  "ColdbootCallback env u st =
     (case version st of VBootV1 \<Rightarrow> FirstStageMount_ColdbootCallback u st | VBootV2 \<Rightarrow> ColdbootCallback_V2 env u st)"

definition dm_path :: string where
  "dm_path = ''/devices/virtual/misc/device-mapper''"

definition InitRequiredDevices :: "device_init \<Rightarrow> fs_env \<Rightarrow> first_stage \<Rightarrow> first_stage" where
  "InitRequiredDevices dinit env st =
     (if required_names st = {} then st
      else
        let st1 = (if need_dm_verity st then
              (let p = Some (''/sys'' @ dm_path) in
               dinit p (\<lambda>u s. (if ue_path u = Some dm_path then COLDBOOT_STOP else COLDBOOT_CONTINUE, s))
                 (log_event (Device_Init p) st))
            else st) in
        log_event Device_Close (dinit None (ColdbootCallback env) (log_event (Device_Init None) st1)))"

definition InitDevices :: "device_init \<Rightarrow> fs_env \<Rightarrow> first_stage \<Rightarrow> bool \<times> first_stage" where
  "InitDevices dinit env st =
     (case GetRequiredDevices env st of
        (False, st1) \<Rightarrow> (False, st1)
      | (True, st1) \<Rightarrow> (let st2 = InitRequiredDevices dinit env st1 in (required_names st2 = {}, st2)))"

section \<open>Verification and mounting\<close>

definition InitVerityDevice :: "device_init \<Rightarrow> string \<Rightarrow> first_stage \<Rightarrow> first_stage" where
  "InitVerityDevice dinit verity_device st =
     (let name = posix_basename verity_device; p = Some (''/sys/block/'' @ name) in
      log_event Device_Close
        (dinit p (\<lambda>u s. (if device_name u = Some name then COLDBOOT_STOP else COLDBOOT_CONTINUE, s))
          (log_event (Device_Init p) st)))"

text \<open>\<^verbatim>\<open>InitAvbHandle\<close>; the handle is returned where the source returns true.\<close>

definition InitAvbHandle :: "fs_env \<Rightarrow> first_stage \<Rightarrow> avb_handle option \<times> first_stage" where
  "InitAvbHandle env st =
     (case avb_state st of
        Some h \<Rightarrow> (Some h, st)
      | None \<Rightarrow>
          if by_name_symlink_map st = [] then (None, st)
          else let st1 = st\<lparr>avb_state := avb_open env (by_name_symlink_map st), by_name_symlink_map := []\<rparr> in
            (case avb_state st1 of
               None \<Rightarrow> (None, st1)
             | Some h \<Rightarrow> (Some h, log_event (Setenv ''INIT_AVB_VERSION'' (avb_version h)) st1)))"

text \<open>The set-up may change the block device of the record.\<close>

definition SetUpDmVerity_V1 :: "device_init \<Rightarrow> fs_env \<Rightarrow> fstab_rec \<Rightarrow> first_stage \<Rightarrow> bool \<times> fstab_rec \<times> first_stage" where
  "SetUpDmVerity_V1 dinit env r st =
     (if is_verified env r then
        (let r1 = r\<lparr>blk_device := snd (setup_verity env r)\<rparr> in
         case fst (setup_verity env r) of
           SETUP_VERITY_DISABLED \<Rightarrow> (True, r1, st)
         | SETUP_VERITY_SUCCESS \<Rightarrow> (True, r1, InitVerityDevice dinit (blk_device r1) st)
         | SETUP_VERITY_FAIL \<Rightarrow> (False, r1, st))
      else (True, r, st))"

definition SetUpDmVerity_V2 :: "device_init \<Rightarrow> fs_env \<Rightarrow> fstab_rec \<Rightarrow> first_stage \<Rightarrow> bool \<times> fstab_rec \<times> first_stage" where
  "SetUpDmVerity_V2 dinit env r st =
     (if is_avb env r then
        (case InitAvbHandle env st of
           (None, st1) \<Rightarrow> (False, r, st1)
         | (Some h, st1) \<Rightarrow>
             if hashtree_disabled h then (True, r, st1)
             else (let r1 = r\<lparr>blk_device := snd (SetUpAvb env h r)\<rparr> in
               if fst (SetUpAvb env h r) then (True, r1, InitVerityDevice dinit (blk_device r1) st1)
               else (False, r1, st1)))
      else (True, r, st))"

definition SetUpDmVerity :: "device_init \<Rightarrow> fs_env \<Rightarrow> fstab_rec \<Rightarrow> first_stage \<Rightarrow> bool \<times> fstab_rec \<times> first_stage" where
  "SetUpDmVerity dinit env r st =
     (case version st of VBootV1 \<Rightarrow> SetUpDmVerity_V1 dinit env r st | VBootV2 \<Rightarrow> SetUpDmVerity_V2 dinit env r st)"

fun MountPartitions :: "device_init \<Rightarrow> fs_env \<Rightarrow> fstab_rec list \<Rightarrow> first_stage \<Rightarrow> bool \<times> first_stage" where
  "MountPartitions dinit env [] st = (True, st)"
| "MountPartitions dinit env (r # rs) st =
     (case SetUpDmVerity dinit env r st of
        (False, _, st1) \<Rightarrow> (False, st1)
      | (True, r1, st1) \<Rightarrow>
          if \<not> do_mount_one env r1 then (False, log_event (Mount_Failed (mount_point r1) (blk_device r1)) st1)
          else MountPartitions dinit env rs (log_event (Mounted (mount_point r1) (blk_device r1)) st1))"

definition FirstStageMount_DoFirstStageMount :: "device_init \<Rightarrow> fs_env \<Rightarrow> first_stage \<Rightarrow> bool \<times> first_stage" where
  "FirstStageMount_DoFirstStageMount dinit env st =
     (if mount_fstab_recs st = [] then (True, st)
      else case InitDevices dinit env st of
        (False, st1) \<Rightarrow> (False, st1)
      | (True, st1) \<Rightarrow> MountPartitions dinit env (mount_fstab_recs st1) st1)"

text \<open>\<open>None\<close> for the object: no object is created.\<close>

definition DoFirstStageMount :: "device_init \<Rightarrow> fs_env \<Rightarrow> bool \<times> first_stage option" where
  "DoFirstStageMount dinit env =
     (if recovery env then (True, None)
      else if \<not> is_android_dt_value_expected (e_read_file env) (e_dt_dir env) ''fstab/compatible'' ''android,fstab''
      then (True, None)
      else apsnd Some (FirstStageMount_DoFirstStageMount dinit env (FirstStageMount_Create env)))"

text \<open>The value given to \<^verbatim>\<open>INIT_AVB_VERSION\<close>, if it is set.\<close>

definition SetInitAvbVersionInRecovery :: "device_init \<Rightarrow> fs_env \<Rightarrow> string option" where
  "SetInitAvbVersionInRecovery dinit env =
     (if \<not> recovery env then None
      else if \<not> IsDtVbmetaCompatible env then None
      else case InitDevices dinit env (FirstStageMount_new env VBootV2) of
        (False, _) \<Rightarrow> None
      | (True, st) \<Rightarrow> map_option avb_version (avb_open env (by_name_symlink_map st)))"

section \<open>Lemmas\<close>

text \<open>\<^verbatim>\<open>device_init\<close> hands the events below a path to the callback until it answers \<^verbatim>\<open>COLDBOOT_STOP\<close>.\<close>

fun run_until_stop :: "device_callback \<Rightarrow> uevent list \<Rightarrow> first_stage \<Rightarrow> first_stage" where
  "run_until_stop cb [] s = s"
| "run_until_stop cb (u # us) s =
     (case cb u s of (a, s1) \<Rightarrow> if a = COLDBOOT_STOP then s1 else run_until_stop cb us s1)"

definition found :: "uevent list \<Rightarrow> string set" where
  "found us = {n. \<exists>u \<in> set us. take 5 (subsystem u) = ''block'' \<and> partition_name u = Some n}"

lemma found_simps [simp]:
  "found [] = {}"
  "found (u # us) = (if take 5 (subsystem u) = ''block'' then set_option (partition_name u) else {}) \<union> found us"
  by (auto simp: found_def)

lemma run_until_stop_const: "(\<And>u s. snd (cb u s) = s) \<Longrightarrow> run_until_stop cb us s = s"
  by (induction us) (auto simp: split_beta)

definition keeps_object :: "first_stage \<Rightarrow> first_stage \<Rightarrow> bool" where
  "keeps_object s s' = (version s' = version s \<and> mount_fstab_recs s' = mount_fstab_recs s \<and> fs_events s' = fs_events s
     \<and> avb_state s' = avb_state s)"

lemma platform_not_block: "take 8 s = ''platform'' \<Longrightarrow> take 5 s \<noteq> ''block''"
proof
  assume a: "take 8 s = ''platform''" "take 5 s = ''block''"
  have "take 5 s = take 5 (take 8 s)" by simp
  then show False using a by simp
qed

lemma callback_step:
  assumes "ColdbootCallback env u s = (a, s1)"
  shows "required_names s1 = required_names s - found [u]" "keeps_object s s1"
    "a = COLDBOOT_STOP \<Longrightarrow> required_names s1 = {}"
  using assms platform_not_block[of "subsystem u"]
  by (auto simp: ColdbootCallback_def ColdbootCallback_V2_def FirstStageMount_ColdbootCallback_def keeps_object_def Let_def
      split: vboot.splits option.splits if_splits)

lemma coldboot_finds_exactly:
  "required_names (run_until_stop (ColdbootCallback env) us s) = required_names s - found us
   \<and> keeps_object s (run_until_stop (ColdbootCallback env) us s)"
proof (induction us arbitrary: s)
  case Nil
  then show ?case by (simp add: keeps_object_def)
next
  case (Cons u us)
  obtain a s1 where c: "ColdbootCallback env u s = (a, s1)" by (meson surj_pair)
  note st = callback_step[OF c]
  show ?case
  proof (cases "a = COLDBOOT_STOP")
    case True
    then show ?thesis using st c by (auto simp del: found_simps(2) simp: found_def)
  next
    case False
    then show ?thesis using st(1,2) c Cons.IH[of s1] by (auto simp: keeps_object_def)
  qed
qed

definition mounts :: "first_stage \<Rightarrow> (string \<times> string) list" where
  "mounts st = List.map_filter (\<lambda>e. case e of Mounted m d \<Rightarrow> Some (m, d) | _ \<Rightarrow> None) (fs_events st)"

text \<open>The device a record may be mounted from: if it is to be verified, the one that the set-up gave.\<close>

definition protected :: "fs_env \<Rightarrow> first_stage \<Rightarrow> fstab_rec \<Rightarrow> string \<Rightarrow> bool" where
  "protected env st r dev =
     (case version st of
        VBootV1 \<Rightarrow>
          (if is_verified env r then fst (setup_verity env r) \<noteq> SETUP_VERITY_FAIL \<and> dev = snd (setup_verity env r)
           else dev = blk_device r)
      | VBootV2 \<Rightarrow>
          (if is_avb env r then
             (case avb_state st of
                None \<Rightarrow> False
              | Some h \<Rightarrow> if hashtree_disabled h then dev = blk_device r else SetUpAvb env h r = (True, dev))
           else dev = blk_device r))"

definition device_init_ok :: "device_init \<Rightarrow> (string option \<Rightarrow> uevent list) \<Rightarrow> bool" where
  "device_init_ok dinit evs = (\<forall>p cb s. dinit p cb s = run_until_stop cb (evs p) s)"

lemma mounts_log [simp]:
  "mounts (log_event e st) = mounts st @ (case e of Mounted m d \<Rightarrow> [(m, d)] | _ \<Rightarrow> [])"
  by (auto simp: mounts_def log_event_def map_filter_def split: fs_event.split)

lemma log_keeps [simp]:
  "version (log_event e st) = version st" "avb_state (log_event e st) = avb_state st"
  "mount_fstab_recs (log_event e st) = mount_fstab_recs st" "required_names (log_event e st) = required_names st"
  by (simp_all add: log_event_def)

lemma mounts_cong: "fs_events s = fs_events s' \<Longrightarrow> mounts s = mounts s'"
  by (simp add: mounts_def)

lemma InitVerityDevice_keeps:
  assumes "device_init_ok dinit evs"
  shows "mounts (InitVerityDevice dinit d st) = mounts st" "version (InitVerityDevice dinit d st) = version st"
    "avb_state (InitVerityDevice dinit d st) = avb_state st"
  using assms by (simp_all add: InitVerityDevice_def Let_def device_init_ok_def run_until_stop_const)

lemma InitAvbHandle_keeps:
  assumes "InitAvbHandle env st = (r, st1)"
  shows "mounts st1 = mounts st" "version st1 = version st" "\<And>h. avb_state st = Some h \<Longrightarrow> avb_state st1 = Some h"
    "\<And>h. r = Some h \<Longrightarrow> avb_state st1 = Some h"
  using assms by (auto simp: InitAvbHandle_def Let_def mounts_def log_event_def map_filter_def split: option.splits if_splits)

definition later :: "first_stage \<Rightarrow> first_stage \<Rightarrow> bool" where
  "later st st1 = (version st1 = version st \<and> (\<forall>h. avb_state st = Some h \<longrightarrow> avb_state st1 = Some h))"

lemma protected_later: "protected env st r d \<Longrightarrow> later st st1 \<Longrightarrow> protected env st1 r d"
  by (auto simp: protected_def later_def split: vboot.splits if_splits option.splits)

lemma pair_True: "x = (True, snd x) \<longleftrightarrow> fst x"
  by (cases x) auto

lemma SetUpDmVerity_spec:
  assumes "device_init_ok dinit evs" "SetUpDmVerity dinit env r st = (ok, r1, st1)"
  shows "mounts st1 = mounts st" "later st st1" "mount_point r1 = mount_point r"
    "ok \<Longrightarrow> protected env st1 r (blk_device r1)"
proof -
  note k = InitVerityDevice_keeps[OF assms(1)]
  have "mounts st1 = mounts st \<and> later st st1 \<and> mount_point r1 = mount_point r \<and> (ok \<longrightarrow> protected env st1 r (blk_device r1))"
  proof (cases "version st")
    case VBootV1
    then show ?thesis using assms(2)
      by (auto simp: SetUpDmVerity_def SetUpDmVerity_V1_def SetUpDmVerity_V2_def Let_def k later_def protected_def split: if_splits verity_result.splits)
  next
    case VBootV2
    obtain x s1 where a: "InitAvbHandle env st = (x, s1)" by (meson surj_pair)
    note ka = InitAvbHandle_keeps[OF a]
    show ?thesis
    proof (cases x)
      case None
      then show ?thesis using assms(2) VBootV2 a ka by (auto simp: SetUpDmVerity_def SetUpDmVerity_V1_def SetUpDmVerity_V2_def later_def protected_def split: if_splits)
    next
      case (Some h)
      then show ?thesis using assms(2) VBootV2 a ka
        by (auto simp: SetUpDmVerity_def SetUpDmVerity_V1_def SetUpDmVerity_V2_def Let_def k later_def protected_def pair_True split: if_splits)
    qed
  qed
  then show "mounts st1 = mounts st" "later st st1" "mount_point r1 = mount_point r"
    "ok \<Longrightarrow> protected env st1 r (blk_device r1)" by simp_all
qed

lemma MountPartitions_spec:
  assumes D: "device_init_ok dinit evs"
  shows "MountPartitions dinit env rs st = (ok, st') \<Longrightarrow> later st st' \<and>
    (\<exists>devs. length devs \<le> length rs \<and> mounts st' = mounts st @ zip (map mount_point rs) devs
      \<and> (\<forall>i < length devs. protected env st' (rs ! i) (devs ! i)) \<and> ok = (length devs = length rs))"
proof (induction rs arbitrary: st)
  case Nil
  then show ?case by (auto simp: later_def)
next
  case (Cons r rs)
  obtain b r1 s1 where a: "SetUpDmVerity dinit env r st = (b, r1, s1)" by (metis prod_cases3)
  note s = SetUpDmVerity_spec[OF D a]
  show ?case
  proof (cases "b \<and> do_mount_one env r1")
    case False
    then show ?thesis using Cons.prems a s(1,2)
      by (intro conjI exI[of _ "[]"]) (auto simp: later_def split: if_splits bool.splits)
  next
    case True
    let ?s = "log_event (Mounted (mount_point r1) (blk_device r1)) s1"
    have m: "MountPartitions dinit env rs ?s = (ok, st')" using Cons.prems a True by simp
    obtain devs where d: "length devs \<le> length rs" "mounts st' = mounts ?s @ zip (map mount_point rs) devs"
      "\<forall>i < length devs. protected env st' (rs ! i) (devs ! i)" "ok = (length devs = length rs)" "later ?s st'"
      using Cons.IH[OF m] by blast
    have l: "later s1 st'" using d(5) by (simp add: later_def)
    then have "protected env st' r (blk_device r1)" using s(4) True protected_later by blast
    then have "\<forall>i < length (blk_device r1 # devs). protected env st' ((r # rs) ! i) ((blk_device r1 # devs) ! i)"
      using d(3) by (auto simp: less_Suc_eq_0_disj)
    moreover have "later st st'" using s(2) l by (auto simp: later_def)
    ultimately show ?thesis using d(1,2,4) s(1,3)
      by (intro conjI exI[of _ "blk_device r1 # devs"]) simp_all
  qed
qed

lemma GetRequiredDevices_keeps:
  assumes "GetRequiredDevices env st = (g, s1)"
  shows "mount_fstab_recs s1 = mount_fstab_recs st" "mounts s1 = mounts st" "g \<Longrightarrow> rec_names st \<subseteq> required_names s1"
  using assms
  by (auto simp: GetRequiredDevices_def GetRequiredDevices_V1_def GetRequiredDevices_V2_def Let_def mounts_def split: vboot.splits prod.splits if_splits)

lemma InitRequiredDevices_spec:
  assumes "device_init_ok dinit evs"
  shows "required_names (InitRequiredDevices dinit env st) = required_names st - found (evs None)"
    "mount_fstab_recs (InitRequiredDevices dinit env st) = mount_fstab_recs st"
    "mounts (InitRequiredDevices dinit env st) = mounts st"
proof -
  define s1 where "s1 = (if need_dm_verity st then log_event (Device_Init (Some (''/sys'' @ dm_path))) st else st)"
  note c = coldboot_finds_exactly[of env "evs None" "log_event (Device_Init None) s1"]
  have e: "InitRequiredDevices dinit env st = (if required_names st = {} then st else
      log_event Device_Close (run_until_stop (ColdbootCallback env) (evs None) (log_event (Device_Init None) s1)))"
    using assms by (simp add: InitRequiredDevices_def Let_def device_init_ok_def run_until_stop_const s1_def)
  have "mounts (run_until_stop (ColdbootCallback env) (evs None) (log_event (Device_Init None) s1)) = mounts st"
    using mounts_cong[of "run_until_stop (ColdbootCallback env) (evs None) (log_event (Device_Init None) s1)"
        "log_event (Device_Init None) s1"] c by (simp add: keeps_object_def s1_def)
  then show "required_names (InitRequiredDevices dinit env st) = required_names st - found (evs None)"
    "mount_fstab_recs (InitRequiredDevices dinit env st) = mount_fstab_recs st"
    "mounts (InitRequiredDevices dinit env st) = mounts st"
    using c by (simp_all add: e keeps_object_def s1_def)
qed

section \<open>Correctness\<close>


definition sample_evs :: "string option \<Rightarrow> uevent list" where
  "sample_evs p = (case p of None \<Rightarrow> [\<lparr>ue_path = None, subsystem = ''block'', device_name = None, partition_name = Some ''system''\<rparr>] | Some _ \<Rightarrow> [])"

definition sample_dinit :: device_init where
  "sample_dinit p cb s = run_until_stop cb (sample_evs p) s"

definition sample_fs_env :: fs_env where
  "sample_fs_env = \<lparr>recovery = False,
     e_read_file = (\<lambda>f. if f = ''/dt/fstab/compatible'' then Some ''android,fstab.'' else None), e_dt_dir = ''/dt/'',
     read_fstab_dt = Some [\<lparr>mount_point = ''/system'', blk_device = ''/dev/block/system'', verity_loc = None, fs_mgr_flags = 0\<rparr>],
     get_entry = (\<lambda>t m. List.find (\<lambda>r. mount_point r = m) t), is_verifyatboot = (\<lambda>_. False), is_verified = (\<lambda>_. True),
     is_avb = (\<lambda>_. False), setup_verity = (\<lambda>_. (SETUP_VERITY_SUCCESS, ''/dev/block/dm-0'')), do_mount_one = (\<lambda>_. True),
     slot_suffix = [], e_split = (\<lambda>s. [s]), block_symlink = (\<lambda>_. None), avb_open = (\<lambda>_. None),
     SetUpAvb = (\<lambda>_ _. (False, []))\<rparr>"

lemma sample_mount_runs:
  "fst (DoFirstStageMount sample_dinit sample_fs_env)"
  "\<not> Option.is_none (snd (DoFirstStageMount sample_dinit sample_fs_env))"
  "map mount_point (mount_fstab_recs (snd (GetRequiredDevices sample_fs_env (FirstStageMount_Create sample_fs_env)))) = [''/system'']"
  by code_simp+


end
