(* ===== verification/Android_Runtime.thy ===== *)
theory Android_Runtime
  imports Prop_Area
begin

text \<open>
  The native runtime of the framework (\<^verbatim>\<open>AndroidRuntime.cpp\<close>): the options it gives to the virtual
  machine, which come from system properties, and the start of the first Java method.

  \<open>pg\<close> is \<^verbatim>\<open>property_get\<close> of \<^verbatim>\<open>libcutils\<close> with a key and a default; \<^verbatim>\<open>PROPERTY_VALUE_MAX\<close> there is
  \<^verbatim>\<open>PROP_VALUE_MAX\<close>. A function that adds options returns the ones it adds. The hooks of options such as
  \<^verbatim>\<open>exit\<close> are left out.
\<close>

type_synonym property_get = "string \<Rightarrow> string \<Rightarrow> string"

text \<open>The kind of a file that \<^verbatim>\<open>stat\<close> finds.\<close>

datatype st_kind = S_REG | S_DIR | S_OTHER

definition hasDir :: "(string \<Rightarrow> st_kind option) \<Rightarrow> string \<Rightarrow> bool" where
  "hasDir stat dir = (stat dir = Some S_DIR)"

definition hasFile :: "(string \<Rightarrow> st_kind option) \<Rightarrow> string \<Rightarrow> bool" where
  "hasFile stat f = (stat f = Some S_REG)"

definition readLocale :: "property_get \<Rightarrow> string" where
  "readLocale pg =
     (let loc = pg ''persist.sys.locale'' [] in
      if loc \<noteq> [] then loc
      else let language = pg ''persist.sys.language'' [] in
        if language \<noteq> [] then
          (let country = pg ''persist.sys.country'' []; variant = pg ''persist.sys.localevar'' [] in
           language @ (if country \<noteq> [] then ''-'' @ country else []) @ (if variant \<noteq> [] then ''-'' @ variant else []))
        else let productLocale = pg ''ro.product.locale'' [] in
          if productLocale \<noteq> [] then productLocale
          else pg ''ro.product.locale.language'' ''en'' @ ''-'' @ pg ''ro.product.locale.region'' ''US'')"

text \<open>The loop of \<^verbatim>\<open>parseExtraOpts\<close>: skip spaces, take a token of at least one character, go on behind it.\<close>

function extra_opts :: "string \<Rightarrow> string list" where
  "extra_opts s =
     (let t = dropWhile (\<lambda>c. c = CHR '' '') s in
      case t of
        [] \<Rightarrow> []
      | c # r \<Rightarrow>
          let w = takeWhile (\<lambda>c. c \<noteq> CHR '' '') r; e = dropWhile (\<lambda>c. c \<noteq> CHR '' '') r in
          (c # w) # extra_opts (drop 1 e))"
  by auto
termination
proof (relation "measure length")
  fix s :: string and x xa and c :: char and r :: string and w e
  assume x: "x = dropWhile (\<lambda>c. c = CHR '' '') s" "x = c # r" and e: "e = dropWhile (\<lambda>c. c \<noteq> CHR '' '') r"
  have "length (c # r) \<le> length s" using x length_dropWhile_le by metis
  moreover have "length e \<le> length r" unfolding e by (rule length_dropWhile_le)
  ultimately show "(drop 1 e, s) \<in> measure length" by simp
qed simp

declare extra_opts.simps [simp del]

definition quoted :: "string option \<Rightarrow> string \<Rightarrow> string list" where
  "quoted quotingArg s = (case quotingArg of None \<Rightarrow> [s] | Some q \<Rightarrow> [q, s])"

definition parseExtraOpts :: "string \<Rightarrow> string option \<Rightarrow> string list" where
  "parseExtraOpts extraOptsBuf quotingArg = concat (map (quoted quotingArg) (extra_opts extraOptsBuf))"

definition parseRuntimeOption :: "property_get \<Rightarrow> string \<Rightarrow> string \<Rightarrow> string \<Rightarrow> string list" where
  "parseRuntimeOption pg property runtimeArg defaultArg =
     (let v = pg property defaultArg in if v = [] then [] else [runtimeArg @ v])"

definition parseCompilerOption :: "property_get \<Rightarrow> string \<Rightarrow> string \<Rightarrow> string \<Rightarrow> string list" where
  "parseCompilerOption pg property compilerArg quotingArg =
     (let v = pg property [] in if v = [] then [] else [quotingArg, compilerArg @ v])"

definition parseCompilerRuntimeOption :: "property_get \<Rightarrow> string \<Rightarrow> string \<Rightarrow> string \<Rightarrow> string list" where
  "parseCompilerRuntimeOption pg property runtimeArg quotingArg =
     (let v = pg property [] in if v = [] then [] else [quotingArg, ''--runtime-arg'', quotingArg, runtimeArg @ v])"

section \<open>The options of the virtual machine\<close>

definition check_jni :: "property_get \<Rightarrow> bool" where
  "check_jni pg =
     (let p = pg ''dalvik.vm.checkjni'' [] in
      if p = ''true'' then True
      else if p \<noteq> ''false'' then take 1 (pg ''ro.kernel.android.checkjni'' []) = ''1''
      else False)"

definition execution_mode_options :: "property_get \<Rightarrow> string list" where
  "execution_mode_options pg =
     (let p = pg ''dalvik.vm.execution-mode'' [] in
      if p = ''int:portable'' then [''-Xint:portable'']
      else if p = ''int:fast'' then [''-Xint:fast'']
      else if p = ''int:jit'' then [''-Xint:jit'']
      else [])"

definition vm_options_runtime :: "property_get \<Rightarrow> bool \<Rightarrow> string list" where
  "vm_options_runtime pg zygote =
     (if check_jni pg then [''-Xcheck:jni''] else [])
     @ parseRuntimeOption pg ''dalvik.vm.stack-trace-file'' ''-Xstacktracefile:'' []
     @ parseRuntimeOption pg ''dalvik.vm.jniopts'' ''-Xjniopts:'' []
     @ [''exit'', ''vfprintf'', ''sensitiveThread'', ''-verbose:gc'']
     @ parseRuntimeOption pg ''dalvik.vm.heapstartsize'' ''-Xms'' ''4m''
     @ parseRuntimeOption pg ''dalvik.vm.heapsize'' ''-Xmx'' ''16m''
     @ parseRuntimeOption pg ''dalvik.vm.heapgrowthlimit'' ''-XX:HeapGrowthLimit='' []
     @ parseRuntimeOption pg ''dalvik.vm.heapminfree'' ''-XX:HeapMinFree='' []
     @ parseRuntimeOption pg ''dalvik.vm.heapmaxfree'' ''-XX:HeapMaxFree='' []
     @ parseRuntimeOption pg ''dalvik.vm.heaptargetutilization'' ''-XX:HeapTargetUtilization='' []
     @ parseRuntimeOption pg ''dalvik.vm.usejit'' ''-Xusejit:'' []
     @ parseRuntimeOption pg ''dalvik.vm.jitmaxsize'' ''-Xjitmaxsize:'' []
     @ parseRuntimeOption pg ''dalvik.vm.jitinitialsize'' ''-Xjitinitialsize:'' []
     @ parseRuntimeOption pg ''dalvik.vm.jitthreshold'' ''-Xjitthreshold:'' []
     @ (if pg ''dalvik.vm.usejitprofiles'' [] = ''true'' then [''-Xjitsaveprofilinginfo''] else [])
     @ parseRuntimeOption pg ''dalvik.vm.jitprithreadweight'' ''-Xjitprithreadweight:'' []
     @ parseRuntimeOption pg ''dalvik.vm.jittransitionweight'' ''-Xjittransitionweight:'' []
     @ (if pg ''ro.config.low_ram'' [] = ''true'' then [''-XX:LowMemoryMode''] else [])
     @ parseRuntimeOption pg ''dalvik.vm.gctype'' ''-Xgc:'' []
     @ parseRuntimeOption pg ''dalvik.vm.backgroundgctype'' ''-XX:BackgroundGC='' []
     @ (if zygote then [''-agentlib:jdwp=transport=dt_android_adb,suspend=n,server=y''] else [])
     @ parseRuntimeOption pg ''dalvik.vm.lockprof.threshold'' ''-Xlockprofthreshold:'' []
     @ execution_mode_options pg"

definition skip_compilation :: "property_get \<Rightarrow> bool" where
  "skip_compilation pg =
     (let p = pg ''vold.decrypt'' [] in p = ''trigger_restart_min_framework'' \<or> p = ''1'')"

definition image_opt :: string where
  "image_opt = ''-Ximage-compiler-option''"

definition compiler_opt :: string where
  "compiler_opt = ''-Xcompiler-option''"

definition vm_options_image :: "property_get \<Rightarrow> string list" where
  "vm_options_image pg =
     parseCompilerRuntimeOption pg ''dalvik.vm.image-dex2oat-Xms'' ''-Xms'' image_opt
     @ parseCompilerRuntimeOption pg ''dalvik.vm.image-dex2oat-Xmx'' ''-Xmx'' image_opt
     @ (if skip_compilation pg then [image_opt, ''--compiler-filter=assume-verified'']
        else parseCompilerOption pg ''dalvik.vm.image-dex2oat-filter'' ''--compiler-filter='' image_opt)"

text \<open>\<open>isa\<close> is the instruction set the code is compiled for.\<close>

definition isa_key :: "string \<Rightarrow> string \<Rightarrow> string" where
  "isa_key isa what = ''dalvik.vm.isa.'' @ isa @ what"

definition vm_options_compiler :: "property_get \<Rightarrow> (string \<Rightarrow> st_kind option) \<Rightarrow> string \<Rightarrow> string list" where
  "vm_options_compiler pg stat isa =
     [image_opt, ''--image-classes=/system/etc/preloaded-classes'']
     @ (if hasFile stat ''/system/etc/compiled-classes''
        then [image_opt, ''--compiled-classes=/system/etc/compiled-classes''] else [])
     @ parseExtraOpts (pg ''dalvik.vm.image-dex2oat-flags'' []) (Some image_opt)
     @ parseCompilerRuntimeOption pg ''dalvik.vm.dex2oat-Xms'' ''-Xms'' compiler_opt
     @ parseCompilerRuntimeOption pg ''dalvik.vm.dex2oat-Xmx'' ''-Xmx'' compiler_opt
     @ (if skip_compilation pg
        then [compiler_opt, ''--compiler-filter=assume-verified'', ''--runtime-arg'', ''-Xnorelocate'']
        else parseCompilerOption pg ''dalvik.vm.dex2oat-filter'' ''--compiler-filter='' compiler_opt)
     @ parseCompilerOption pg ''dalvik.vm.dex2oat-threads'' ''-j'' compiler_opt
     @ parseCompilerOption pg ''dalvik.vm.image-dex2oat-threads'' ''-j'' image_opt
     @ parseCompilerOption pg (isa_key isa ''.variant'') ''--instruction-set-variant='' image_opt
     @ parseCompilerOption pg (isa_key isa ''.variant'') ''--instruction-set-variant='' compiler_opt
     @ parseCompilerOption pg (isa_key isa ''.features'') ''--instruction-set-features='' image_opt
     @ parseCompilerOption pg (isa_key isa ''.features'') ''--instruction-set-features='' compiler_opt
     @ parseExtraOpts (pg ''dalvik.vm.dex2oat-flags'' []) (Some compiler_opt)
     @ parseExtraOpts (pg ''dalvik.vm.extra-opts'' []) None"

definition trace_options :: "property_get \<Rightarrow> string list" where
  "trace_options pg =
     (if pg ''ro.debuggable'' ''0'' = ''1'' \<and> pg ''dalvik.vm.method-trace'' ''false'' = ''true'' then
        [''-Xmethod-trace'']
        @ parseRuntimeOption pg ''dalvik.vm.method-trace-file'' ''-Xmethod-trace-file:'' []
        @ parseRuntimeOption pg ''dalvik.vm.method-trace-file-siz'' ''-Xmethod-trace-file-size:'' []
        @ (if pg ''dalvik.vm.method-trace-stream'' ''false'' = ''true'' then [''-Xmethod-trace-stream''] else [])
      else [])"

definition vm_options_late :: "property_get \<Rightarrow> string list" where
  "vm_options_late pg =
     [''-Duser.locale='' @ take PROP_VALUE_MAX (readLocale pg)]
     @ trace_options pg
     @ (let p = pg ''ro.dalvik.vm.native.bridge'' [] in
        if p = [] then [] else if p \<noteq> ''0'' then [''-XX:NativeBridge='' @ p] else [])"

definition vm_options_last :: "property_get \<Rightarrow> string \<Rightarrow> string list" where
  "vm_options_last pg abilist =
     [''--cpu-abilist='' @ abilist]
     @ parseRuntimeOption pg ''dalvik.vm.zygote.max-boot-retry'' ''-Xzygote-max-boot-retry='' []
     @ (if pg ''debug.generate-debug-info'' [] = ''true''
        then [compiler_opt, ''--generate-debug-info'', image_opt, ''--generate-debug-info''] else [])
     @ parseRuntimeOption pg ''ro.build.fingerprint'' ''-Xfingerprint:'' []"

text \<open>
  \<open>lp64\<close>: a 64 bit build; \<open>create\<close> is \<^verbatim>\<open>JNI_CreateJavaVM\<close> on the options, true on success. The result is the
  return value and the options afterwards.
\<close>

definition cpu_abilist_property_name :: "bool \<Rightarrow> string" where
  "cpu_abilist_property_name lp64 = (if lp64 then ''ro.product.cpu.abilist64'' else ''ro.product.cpu.abilist32'')"

definition startVm ::
  "property_get \<Rightarrow> (string \<Rightarrow> st_kind option) \<Rightarrow> string \<Rightarrow> bool \<Rightarrow> (string list \<Rightarrow> bool) \<Rightarrow> bool \<Rightarrow> string list \<Rightarrow> int \<times> string list" where
  "startVm pg stat isa lp64 create zygote mOptions =
     (let o1 = mOptions @ vm_options_runtime pg zygote @ vm_options_image pg in
      if \<not> hasFile stat ''/system/etc/preloaded-classes'' then (- 1, o1)
      else let o2 = o1 @ vm_options_compiler pg stat isa @ vm_options_late pg;
               abilist = pg (cpu_abilist_property_name lp64) [] in
        if abilist = [] then (- 1, o2)
        else let o3 = o2 @ vm_options_last pg abilist in
          (if create o3 then 0 else - 1, o3))"

section \<open>Starting\<close>

definition toSlashClassName :: "string \<Rightarrow> string" where
  "toSlashClassName className = map (\<lambda>c. if c = CHR ''.'' then CHR ''/'' else c) className"

text \<open>The name of the thread, if it is set, and the bytes of the argument block of length \<open>n\<close>.\<close>

definition setArgv0 :: "string \<Rightarrow> bool \<Rightarrow> nat \<Rightarrow> string option \<times> string" where
  "setArgv0 argv0 setProcName n =
     ((if setProcName then Some (if length argv0 < 15 then argv0 else drop (length argv0 - 15) argv0) else None),
      (let t = take (n - 1) argv0 in t @ replicate (n - length t) NUL))"

text \<open>
  The environment of \<^verbatim>\<open>start\<close>: \<open>r_root\<close> is the variable \<^verbatim>\<open>ANDROID_ROOT\<close>, \<open>r_reg\<close> whether \<^verbatim>\<open>startReg\<close> succeeds,
  \<open>r_main\<close> whether a class has a method \<^verbatim>\<open>main\<close>; a class that is not there has none.
\<close>

record rt_env =
  r_pg :: property_get
  r_stat :: "string \<Rightarrow> st_kind option"
  r_isa :: string
  r_lp64 :: bool
  r_create :: "string list \<Rightarrow> bool"
  r_root :: "string option"
  r_reg :: bool
  r_main :: "string \<Rightarrow> bool"

datatype start_result =
    No_Root
  | Vm_Failed
  | Reg_Failed
  | No_Main
  | Main_Called string "string list"

definition start :: "rt_env \<Rightarrow> string \<Rightarrow> string list \<Rightarrow> bool \<Rightarrow> string list \<Rightarrow> start_result" where
  "start env className options zygote mOptions =
     (if r_root env = None \<and> \<not> hasDir (r_stat env) ''/system'' then No_Root
      else if fst (startVm (r_pg env) (r_stat env) (r_isa env) (r_lp64 env) (r_create env) zygote mOptions) \<noteq> 0
      then Vm_Failed
      else if \<not> r_reg env then Reg_Failed
      else if r_main env (toSlashClassName className) then Main_Called (toSlashClassName className) (className # options)
      else No_Main)"

section \<open>Lemmas\<close>

text \<open>The options of a property are its words.\<close>

definition space_words :: "string \<Rightarrow> string list" where
  "space_words s = filter (\<lambda>x. x \<noteq> []) (split_on (CHR '' '') s)"

lemma space_words_simps:
  "space_words [] = []"
  "space_words (CHR '' '' # s) = space_words s"
  "w \<noteq> [] \<Longrightarrow> CHR '' '' \<notin> set w \<Longrightarrow> space_words w = [w]"
  "w \<noteq> [] \<Longrightarrow> CHR '' '' \<notin> set w \<Longrightarrow> space_words (w @ CHR '' '' # r) = w # space_words r"
  by (simp_all add: space_words_def split_on.simps[of _ "[]"] split_on.simps[of _ "CHR '' '' # s"]
      split_on.simps[of _ w] split_on.simps[of _ "w @ CHR '' '' # r"])

lemma space_words_skip: "space_words (dropWhile (\<lambda>c. c = CHR '' '') s) = space_words s"
  by (induction s) (simp_all add: space_words_simps)

lemma extra_opts_words: "extra_opts s = space_words s"
proof (induction s rule: extra_opts.induct)
  case (1 s)
  define t where "t = dropWhile (\<lambda>c. c = CHR '' '') s"
  have t: "space_words s = space_words t" by (simp add: t_def space_words_skip)
  show ?case
  proof (cases t)
    case Nil
    then show ?thesis using t by (simp add: extra_opts.simps[of s] t_def[symmetric] space_words_simps)
  next
    case (Cons c r)
    define w where "w = takeWhile (\<lambda>c. c \<noteq> CHR '' '') r"
    define e where "e = dropWhile (\<lambda>c. c \<noteq> CHR '' '') r"
    have r: "t = (c # w) @ e" using Cons by (simp add: w_def e_def)
    have c: "c \<noteq> CHR '' ''" using Cons hd_dropWhile[of "\<lambda>c. c = CHR '' ''" s] unfolding t_def by auto
    have nw: "CHR '' '' \<notin> set (c # w)" using c set_takeWhileD by (fastforce simp: w_def)
    have ih: "extra_opts (drop 1 e) = space_words (drop 1 e)" using "1.IH"[OF t_def Cons w_def e_def] .
    have x: "extra_opts s = (c # w) # extra_opts (drop 1 e)"
      using Cons by (simp add: extra_opts.simps[of s] t_def[symmetric] w_def e_def)
    show ?thesis
    proof (cases e)
      case Nil
      then show ?thesis using x ih t r nw space_words_simps(1) space_words_simps(3)[of "c # w"] by simp
    next
      case (Cons d e')
      then have "d = CHR '' ''" using hd_dropWhile[of "\<lambda>c. c \<noteq> CHR '' ''" r] unfolding e_def by auto
      then show ?thesis using x ih t r nw Cons space_words_simps(4)[of "c # w" e'] by simp
    qed
  qed
qed

fun well_quoted :: "string list \<Rightarrow> bool" where
  "well_quoted [] = True"
| "well_quoted (x # xs) =
     (if x = image_opt \<or> x = compiler_opt then
        (case xs of [] \<Rightarrow> False | y # ys \<Rightarrow> y \<noteq> image_opt \<and> y \<noteq> compiler_opt \<and> well_quoted ys)
      else well_quoted xs)"

lemma well_quoted_append: "well_quoted a \<Longrightarrow> well_quoted (a @ b) = well_quoted b"
  by (induction a rule: well_quoted.induct) (auto split: list.splits if_splits)

definition not_quoting :: "string \<Rightarrow> bool" where
  "not_quoting x = (x \<noteq> image_opt \<and> x \<noteq> compiler_opt)"

lemma not_quoting_simps:
  "not_quoting x \<Longrightarrow> well_quoted [x]"
  "not_quoting x \<Longrightarrow> well_quoted [image_opt, x]"
  "not_quoting x \<Longrightarrow> well_quoted [compiler_opt, x]"
  by (simp_all add: not_quoting_def)

lemma well_quoted_runtime:
  "(\<And>v. not_quoting (arg @ v)) \<Longrightarrow> well_quoted (parseRuntimeOption pg p arg d)"
  by (simp add: parseRuntimeOption_def Let_def not_quoting_def)

lemma well_quoted_compiler:
  "(\<And>v. not_quoting (arg @ v)) \<Longrightarrow> q = image_opt \<or> q = compiler_opt \<Longrightarrow> well_quoted (parseCompilerOption pg p arg q)"
  "(\<And>v. not_quoting (arg @ v)) \<Longrightarrow> q = image_opt \<or> q = compiler_opt \<Longrightarrow> well_quoted (parseCompilerRuntimeOption pg p arg q)"
  by (auto simp: parseCompilerOption_def parseCompilerRuntimeOption_def Let_def not_quoting_def)
    (simp_all add: image_opt_def compiler_opt_def)

lemma well_quoted_concat: "list_all well_quoted xs \<Longrightarrow> well_quoted (concat xs)"
  by (induction xs) (simp_all add: well_quoted_append)

lemma well_quoted_extra:
  assumes "list_all not_quoting (extra_opts s)" "q = None \<or> q = Some image_opt \<or> q = Some compiler_opt"
  shows "well_quoted (parseExtraOpts s q)"
  unfolding parseExtraOpts_def
  by (rule well_quoted_concat) (use assms in \<open>auto simp: list_all_iff quoted_def not_quoting_def\<close>)

lemmas well_quoted_parts = well_quoted_runtime well_quoted_compiler well_quoted_extra

lemmas quoting_defs = not_quoting_def image_opt_def compiler_opt_def

lemma well_quoted_vm_runtime: "well_quoted (vm_options_runtime pg zygote)"
  unfolding vm_options_runtime_def
  by (simp add: well_quoted_append well_quoted_parts quoting_defs execution_mode_options_def Let_def)

lemma well_quoted_vm_image: "well_quoted (vm_options_image pg)"
  unfolding vm_options_image_def
  by (simp add: well_quoted_append well_quoted_parts quoting_defs)

definition words_ok :: "property_get \<Rightarrow> bool" where
  "words_ok pg = list_all (\<lambda>k. list_all not_quoting (space_words (pg k [])))
     [''dalvik.vm.image-dex2oat-flags'', ''dalvik.vm.dex2oat-flags'', ''dalvik.vm.extra-opts'']"

lemma well_quoted_vm_compiler: "words_ok pg \<Longrightarrow> well_quoted (vm_options_compiler pg stat isa)"
  unfolding vm_options_compiler_def words_ok_def extra_opts_words[symmetric]
  by (simp add: well_quoted_append well_quoted_parts) (simp add: quoting_defs well_quoted_append well_quoted_parts)

lemma well_quoted_vm_late: "well_quoted (vm_options_late pg)" "well_quoted (vm_options_last pg abis)"
  unfolding vm_options_late_def vm_options_last_def trace_options_def
  by (simp_all add: well_quoted_append well_quoted_parts quoting_defs Let_def)

section \<open>Correctness\<close>

lemma startVm_success:
  assumes "fst (startVm pg stat isa lp64 create zygote mOptions) = 0"
  shows "hasFile stat ''/system/etc/preloaded-classes'' \<and> pg (cpu_abilist_property_name lp64) [] \<noteq> []
    \<and> create (snd (startVm pg stat isa lp64 create zygote mOptions))
    \<and> ''--cpu-abilist='' @ pg (cpu_abilist_property_name lp64) [] \<in> set (snd (startVm pg stat isa lp64 create zygote mOptions))"
  using assms by (auto simp: startVm_def Let_def vm_options_last_def split: if_splits)



end
