(* ===== verification/App_Process.thy ===== *)
theory App_Process
  imports Android_Runtime Keyword_Map
begin

text \<open>
  The program \<^verbatim>\<open>app_process\<close> (\<^verbatim>\<open>app_main.cpp\<close>), which init starts as zygote: it takes its command line
  apart, prepares the cache directory and starts a Java class through \<^verbatim>\<open>AndroidRuntime\<close>.
\<close>

section \<open>Arguments\<close>

text \<open>\<open>addrs\<close> are the addresses of the arguments; the difference is a \<^verbatim>\<open>size_t\<close>.\<close>

definition computeArgBlockSize :: "64 word list \<Rightarrow> string list \<Rightarrow> 64 word" where
  "computeArgBlockSize addrs argv = (last addrs + of_nat (length (last argv)) + 1) - hd addrs"

text \<open>The first loop of \<^verbatim>\<open>main\<close>: the options for the virtual machine and the arguments left.\<close>

fun vm_args :: "bool \<Rightarrow> string list \<Rightarrow> string list \<times> string list" where
  "vm_args known_command [] = ([], [])"
| "vm_args known_command (a # as) =
     (if known_command then apfst ((#) a) (vm_args False as)
      else if take 1 a \<noteq> ''-'' then ([], a # as)
      else if a = ''--'' then ([], as)
      else apfst ((#) a) (vm_args (a = ''-cp'' \<or> a = ''-classpath'') as))"

record app_args =
  zygote :: bool
  startSystemServer :: bool
  application :: bool
  niceName :: string
  className :: string

text \<open>The second loop; it ends at a class name or behind the known options.\<close>

fun runtime_args :: "string \<Rightarrow> string list \<Rightarrow> app_args \<Rightarrow> app_args \<times> string list" where
  "runtime_args zname [] r = (r, [])"
| "runtime_args zname (arg # as) r =
     (if arg = ''--zygote'' then runtime_args zname as (r\<lparr>zygote := True, niceName := zname\<rparr>)
      else if arg = ''--start-system-server'' then runtime_args zname as (r\<lparr>startSystemServer := True\<rparr>)
      else if arg = ''--application'' then runtime_args zname as (r\<lparr>application := True\<rparr>)
      else if take 12 arg = ''--nice-name='' then runtime_args zname as (r\<lparr>niceName := drop 12 arg\<rparr>)
      else if take 2 arg \<noteq> ''--'' then (r\<lparr>className := arg\<rparr>, as)
      else (r, arg # as))"

section \<open>The cache directory\<close>

datatype app_call =
    App_mkdir string nat
  | App_chown string nat nat
  | App_chmod string nat

text \<open>
  The environment: \<open>a_data\<close> is the variable \<^verbatim>\<open>ANDROID_DATA\<close>, \<open>a_kernel\<close> the result and \<^verbatim>\<open>errno\<close> of a call, \<open>a_rt\<close>
  what \<^verbatim>\<open>AndroidRuntime\<close> uses, \<open>a_string8\<close> whether a \<^verbatim>\<open>String8\<close> is true as a condition, \<open>a_path_max\<close> and
  \<open>a_eexist\<close> the constants \<^verbatim>\<open>PATH_MAX\<close> and \<^verbatim>\<open>EEXIST\<close>.
\<close>

record app_env =
  a_data :: "string option"
  a_kernel :: "app_call \<Rightarrow> int \<times> int"
  a_rt :: rt_env
  a_string8 :: "string \<Rightarrow> bool"
  a_path_max :: nat
  a_eexist :: int

datatype fatal =
    Fatal_Data_Unset
  | Fatal_Cache_Path
  | Fatal_Mkdir
  | Fatal_Chown
  | Fatal_Chmod
  | Fatal_No_Abi_List
  | Fatal_No_Class

definition maybeCreateDalvikCache :: "app_env \<Rightarrow> fatal option \<times> app_call list" where
  "maybeCreateDalvikCache env =
     (case a_data env of
        None \<Rightarrow> (Some Fatal_Data_Unset, [])
      | Some androidRoot \<Rightarrow>
          let dir = androidRoot @ ''/dalvik-cache/'' @ r_isa (a_rt env);
              mk = App_mkdir dir 457; ow = App_chown dir 0 0; md = App_chmod dir 457 in
          if length dir \<ge> a_path_max env then (Some Fatal_Cache_Path, [])
          else if fst (a_kernel env mk) < 0 \<and> snd (a_kernel env mk) \<noteq> a_eexist env then (Some Fatal_Mkdir, [mk])
          else if fst (a_kernel env ow) < 0 then (Some Fatal_Chown, [mk, ow])
          else if fst (a_kernel env md) < 0 then (Some Fatal_Chmod, [mk, ow, md])
          else (None, [mk, ow, md]))"

section \<open>The main program\<close>

definition ZYGOTE_NICE_NAME :: "bool \<Rightarrow> string" where
  "ZYGOTE_NICE_NAME lp64 = (if lp64 then ''zygote64'' else ''zygote'')"

definition ABI_LIST_PROPERTY :: "bool \<Rightarrow> string" where
  "ABI_LIST_PROPERTY lp64 = (if lp64 then ''ro.product.cpu.abilist64'' else ''ro.product.cpu.abilist32'')"

text \<open>
  The object \<^verbatim>\<open>AppRuntime\<close>: the options, the class and its arguments, the name set by \<^verbatim>\<open>setArgv0\<close>, and
  the calls made.
\<close>

record app_runtime =
  mOptions :: "string list"
  mClassName :: string
  mArgs :: "string list"
  argv0 :: "string option"
  app_calls :: "app_call list"

definition setClassNameAndArgs :: "string \<Rightarrow> string list \<Rightarrow> app_runtime \<Rightarrow> app_runtime" where
  "setClassNameAndArgs cls as rt = rt\<lparr>mClassName := cls, mArgs := mArgs rt @ as\<rparr>"

text \<open>The arguments for the Java class, or a fatal error.\<close>

definition start_args :: "app_env \<Rightarrow> app_args \<Rightarrow> string list \<Rightarrow> app_runtime \<Rightarrow> (fatal + string list) \<times> app_runtime" where
  "start_args env r rest rt =
     (if className r \<noteq> [] then
        (Inr [if application r then ''application'' else ''tool''], setClassNameAndArgs (className r) rest rt)
      else
        (case maybeCreateDalvikCache env of
           (Some e, cs) \<Rightarrow> (Inl e, rt\<lparr>app_calls := app_calls rt @ cs\<rparr>)
         | (None, cs) \<Rightarrow>
             let rt1 = rt\<lparr>app_calls := app_calls rt @ cs\<rparr>;
                 prop = r_pg (a_rt env) (ABI_LIST_PROPERTY (r_lp64 (a_rt env))) [] in
             if prop = [] then (Inl Fatal_No_Abi_List, rt1)
             else (Inr ((if startSystemServer r then [''start-system-server''] else [])
                        @ [''--abi-list='' @ prop] @ rest), rt1)))"

definition app_main :: "app_env \<Rightarrow> string list \<Rightarrow> (fatal + start_result) \<times> app_runtime" where
  "app_main env argv =
     (let lp64 = r_lp64 (a_rt env);
          va = vm_args False (tl argv);
          rt = \<lparr>mOptions = fst va, mClassName = [], mArgs = [], argv0 = None, app_calls = []\<rparr>;
          ra = runtime_args (ZYGOTE_NICE_NAME lp64) (drop 1 (snd va))
                 \<lparr>zygote = False, startSystemServer = False, application = False, niceName = [], className = []\<rparr>;
          r = fst ra in
      case start_args env r (snd ra) rt of
        (Inl e, rt1) \<Rightarrow> (Inl e, rt1)
      | (Inr args, rt1) \<Rightarrow>
          let rt2 = (if niceName r \<noteq> [] then rt1\<lparr>argv0 := Some (niceName r)\<rparr> else rt1) in
          if zygote r then
            (Inr (start (a_rt env) ''com.android.internal.os.ZygoteInit'' args True (mOptions rt2)), rt2)
          else if a_string8 env (className r) then
            (Inr (start (a_rt env) ''com.android.internal.os.RuntimeInit'' args False (mOptions rt2)), rt2)
          else (Inl Fatal_No_Class, rt2))"

section \<open>Lemmas\<close>

text \<open>The block ends behind the last argument; with adjacent arguments its size is that of all strings.\<close>

definition contiguous :: "64 word list \<Rightarrow> string list \<Rightarrow> bool" where
  "contiguous addrs argv = (length addrs = length argv \<and> argv \<noteq> [] \<and>
     (\<forall>i < length argv. addrs ! i = hd addrs + of_nat (sum_list (map (\<lambda>s. length s + 1) (take i argv)))))"

lemma computeArgBlockSize_contiguous:
  assumes "contiguous addrs argv"
  shows "computeArgBlockSize addrs argv = of_nat (sum_list (map (\<lambda>s. length s + 1) argv))"
proof -
  define n where "n = length argv - 1"
  have n: "n < length argv" "length argv = Suc n" using assms by (simp_all add: contiguous_def n_def)
  have "addrs ! n = hd addrs + of_nat (sum_list (map (\<lambda>s. length s + 1) (take n argv)))"
    using assms n(1) unfolding contiguous_def by blast
  moreover have "length addrs = length argv" "addrs \<noteq> []" using assms by (auto simp: contiguous_def)
  then have "last addrs = addrs ! n" using last_conv_nth[of addrs] n(2) by simp
  moreover have "argv = take n argv @ [last argv]"
    using n append_butlast_last_id[of argv] by (cases argv) (simp_all add: butlast_conv_take)
  then have "sum_list (map (\<lambda>s. length s + 1) argv) = sum_list (map (\<lambda>s. length s + 1) (take n argv @ [last argv]))"
    by (rule arg_cong)
  then have "sum_list (map (\<lambda>s. length s + 1) argv) = sum_list (map (\<lambda>s. length s + 1) (take n argv)) + (length (last argv) + 1)"
    by (simp only: map_append sum_list_append list.map sum_list.Cons sum_list.Nil add_0_right)
  ultimately show ?thesis by (simp only: computeArgBlockSize_def of_nat_add of_nat_1) simp
qed

lemma vm_args_options:
  "list_all (\<lambda>a. take 1 a = ''-'' \<and> a \<noteq> ''--'' \<and> a \<noteq> ''-cp'' \<and> a \<noteq> ''-classpath'') vm \<Longrightarrow>
   take 1 parent \<noteq> ''-'' \<Longrightarrow> vm_args False (vm @ parent # rest) = (vm, parent # rest)"
  by (induction vm) auto

text \<open>Nothing of the command line is lost before the directory argument.\<close>

lemma vm_args_keeps: "\<exists>sep. as = fst (vm_args k as) @ sep @ snd (vm_args k as) \<and> (sep = [] \<or> sep = [''--''])"
proof (induction k as rule: vm_args.induct)
  case (2 k a as)
  then show ?case by (cases k; cases "take 1 a = ''-''"; cases "a = ''--''") (auto simp: apfst_def map_prod_def split_beta)
qed simp

end
