(* ===== verification/Zygote_Init.thy ===== *)
theory Zygote_Init
  imports App_Process
begin

text \<open>
  The Java side of the start of zygote (\<^verbatim>\<open>ZygoteInit.java\<close>): the arguments of \<^verbatim>\<open>main\<close>, the steps up to the
  loop that accepts connections, preloading of classes with dropped privileges, and the start of
  the system server.
\<close>

section \<open>Arguments and steps of main\<close>

record zygote_args =
  z_system_server :: bool
  z_socket :: string
  z_abi :: "string option"
  z_lazy :: bool

datatype z_step =
    Enable_Ddms
  | Register_Socket string
  | Preload
  | Reset_Nice_Priority
  | Gc_And_Finalize
  | Set_Tracing_Enabled bool
  | Unmount_Storage
  | Set_Seccomp_Policy
  | Stop_No_Thread_Creation
  | Start_System_Server string string
  | Run_Select_Loop string
  | Close_Server_Socket

datatype z_error =
    Setpgid_Failed
  | Unknown_Argument string
  | No_Abi_List
  | Step_Threw z_step

fun parse_zygote_args :: "string list \<Rightarrow> zygote_args \<Rightarrow> z_error + zygote_args" where
  "parse_zygote_args [] r = Inr r"
| "parse_zygote_args (a # as) r =
     (if a = ''start-system-server'' then parse_zygote_args as (r\<lparr>z_system_server := True\<rparr>)
      else if a = ''--enable-lazy-preload'' then parse_zygote_args as (r\<lparr>z_lazy := True\<rparr>)
      else if take 11 a = ''--abi-list='' then parse_zygote_args as (r\<lparr>z_abi := Some (drop 11 a)\<rparr>)
      else if take 14 a = ''--socket-name='' then parse_zygote_args as (r\<lparr>z_socket := drop 14 a\<rparr>)
      else Inl (Unknown_Argument a))"

definition zygote_arguments :: "string list \<Rightarrow> z_error + zygote_args \<times> string" where
  "zygote_arguments argv =
     (case parse_zygote_args (drop 1 argv) \<lparr>z_system_server = False, z_socket = ''zygote'', z_abi = None, z_lazy = False\<rparr> of
        Inl e \<Rightarrow> Inl e
      | Inr r \<Rightarrow> (case z_abi r of None \<Rightarrow> Inl No_Abi_List | Some abis \<Rightarrow> Inr (r, abis)))"

text \<open>
  A step returns, throws, or throws \<^verbatim>\<open>MethodAndArgsCaller\<close>: then the process is a child of zygote, which
  goes on with the method it carries.
\<close>

datatype z_answer = Returns | Throws | Calls_Method

datatype z_result = Z_Returned | Z_Died z_error | Z_Child

definition zygote_steps :: "zygote_args \<Rightarrow> string \<Rightarrow> z_step list" where
  "zygote_steps r abis =
     [Register_Socket (z_socket r)]
     @ (if z_lazy r then [Reset_Nice_Priority] else [Preload])
     @ [Gc_And_Finalize, Set_Tracing_Enabled False, Unmount_Storage, Set_Seccomp_Policy, Stop_No_Thread_Creation]
     @ (if z_system_server r then [Start_System_Server abis (z_socket r)] else [])
     @ [Run_Select_Loop abis, Close_Server_Socket]"

text \<open>The handlers of \<^verbatim>\<open>main\<close>: a child calls its method; any other exception closes the socket.\<close>

fun run_steps :: "(z_step \<Rightarrow> z_answer) \<Rightarrow> z_step list \<Rightarrow> z_step list \<times> z_result" where
  "run_steps ans [] = ([], Z_Returned)"
| "run_steps ans (s # ss) =
     (case ans s of
        Returns \<Rightarrow> apfst ((#) s) (run_steps ans ss)
      | Throws \<Rightarrow> ([s, Close_Server_Socket], Z_Died (Step_Threw s))
      | Calls_Method \<Rightarrow> ([s], Z_Child))"

definition ZygoteInit_main :: "bool \<Rightarrow> (z_step \<Rightarrow> z_answer) \<Rightarrow> string list \<Rightarrow> z_step list \<times> z_result" where
  "ZygoteInit_main setpgid_ok ans argv =
     (if \<not> setpgid_ok then ([], Z_Died Setpgid_Failed)
      else case ans Enable_Ddms of
        Throws \<Rightarrow> ([Enable_Ddms, Close_Server_Socket], Z_Died (Step_Threw Enable_Ddms))
      | Calls_Method \<Rightarrow> ([Enable_Ddms], Z_Child)
      | Returns \<Rightarrow>
          (case zygote_arguments argv of
             Inl e \<Rightarrow> ([Enable_Ddms, Close_Server_Socket], Z_Died e)
           | Inr (r, abis) \<Rightarrow> apfst ((#) Enable_Ddms) (run_steps ans (zygote_steps r abis))))"

section \<open>Preloading classes\<close>

definition ROOT_UID :: nat where "ROOT_UID = 0"
definition ROOT_GID :: nat where "ROOT_GID = 0"
definition UNPRIVILEGED_UID :: nat where "UNPRIVILEGED_UID = 9999"
definition UNPRIVILEGED_GID :: nat where "UNPRIVILEGED_GID = 9999"

record credentials =
  ruid :: nat
  euid :: nat
  rgid :: nat
  egid :: nat

text \<open>What the initialiser of a class does; \<open>Init_Throws\<close> is an exception that is not caught as missing.\<close>

datatype init_result = Init_Ok | Init_NotFound | Init_LinkError | Init_Throws

datatype preload_error = Failed_To_Drop_Root | Class_Threw string | Failed_To_Restore_Root

text \<open>
  The state: the credentials, whether the heap utilization is the default, and the classes
  initialised with the credentials they ran with.
\<close>

record preload_state =
  cred :: credentials
  default_utilization :: bool
  inits :: "(string \<times> credentials) list"

definition java_trim :: "string \<Rightarrow> string" where
  "java_trim s = rev (dropWhile (\<lambda>c. of_char c \<le> (32::nat)) (rev (dropWhile (\<lambda>c. of_char c \<le> (32::nat)) s)))"

definition is_class_line :: "string \<Rightarrow> bool" where
  "is_class_line t = (\<not> take 1 t = ''#'' \<and> t \<noteq> [])"

fun init_classes :: "(string \<Rightarrow> init_result) \<Rightarrow> string list \<Rightarrow> preload_state \<Rightarrow> preload_error option \<times> preload_state" where
  "init_classes forName [] st = (None, st)"
| "init_classes forName (l # ls) st =
     (let t = java_trim l in
      if \<not> is_class_line t then init_classes forName ls st
      else let st1 = st\<lparr>inits := inits st @ [(t, cred st)]\<rparr> in
        if forName t = Init_Throws then (Some (Class_Threw t), st1) else init_classes forName ls st1)"

text \<open>The calls \<^verbatim>\<open>setregid\<close> and \<^verbatim>\<open>setreuid\<close> may fail; \<open>ok\<close> tells for the four of them in order.\<close>

record setid_ok =
  drop_gid_ok :: bool
  drop_uid_ok :: bool
  restore_uid_ok :: bool
  restore_gid_ok :: bool

definition drop_root :: "setid_ok \<Rightarrow> preload_state \<Rightarrow> bool \<times> preload_state" where
  "drop_root ok st =
     (if \<not> drop_gid_ok ok then (False, st)
      else let st1 = st\<lparr>cred := (cred st)\<lparr>rgid := ROOT_GID, egid := UNPRIVILEGED_GID\<rparr>\<rparr> in
        if \<not> drop_uid_ok ok then (False, st1)
        else (True, st1\<lparr>cred := (cred st1)\<lparr>ruid := ROOT_UID, euid := UNPRIVILEGED_UID\<rparr>\<rparr>))"

definition restore_root :: "setid_ok \<Rightarrow> preload_state \<Rightarrow> bool \<times> preload_state" where
  "restore_root ok st =
     (if \<not> restore_uid_ok ok then (False, st)
      else let st1 = st\<lparr>cred := (cred st)\<lparr>ruid := ROOT_UID, euid := ROOT_UID\<rparr>\<rparr> in
        if \<not> restore_gid_ok ok then (False, st1)
        else (True, st1\<lparr>cred := (cred st1)\<lparr>rgid := ROOT_GID, egid := ROOT_GID\<rparr>\<rparr>))"

text \<open>\<open>None\<close> for the lines: the file is missing. A read error ends the lines and is only logged.\<close>

definition preloadClasses ::
  "setid_ok \<Rightarrow> (string \<Rightarrow> init_result) \<Rightarrow> string list option \<Rightarrow> preload_state \<Rightarrow> preload_error option \<times> preload_state" where
  "preloadClasses ok forName file st =
     (case file of
        None \<Rightarrow> (None, st)
      | Some ls \<Rightarrow>
          let is_root = (ruid (cred st) = ROOT_UID \<and> rgid (cred st) = ROOT_GID) in
          (case (if is_root then drop_root ok st else (True, st)) of
             (False, st1) \<Rightarrow> (Some Failed_To_Drop_Root, st1)
           | (True, st1) \<Rightarrow>
               (case init_classes forName ls (st1\<lparr>default_utilization := False\<rparr>) of
                  (e, st2) \<Rightarrow>
                    let st3 = st2\<lparr>default_utilization := default_utilization st1\<rparr> in
                    if is_root then
                      (case restore_root ok st3 of
                         (False, st4) \<Rightarrow> (Some Failed_To_Restore_Root, st4)
                       | (True, st4) \<Rightarrow> (e, st4))
                    else (e, st3))))"

section \<open>The system server\<close>

text \<open>\<open>last_cap\<close> is \<^verbatim>\<open>CAP_LAST_CAP\<close>; \<open>None\<close> is \<^verbatim>\<open>IllegalArgumentException\<close>.\<close>

fun capability_bits :: "int \<Rightarrow> int list \<Rightarrow> 64 word \<Rightarrow> 64 word option" where
  "capability_bits last_cap [] r = Some r"
| "capability_bits last_cap (c # cs) r =
     (if c < 0 \<or> c > last_cap then None
      else capability_bits last_cap cs (r OR push_bit (nat (c mod 64)) 1))"

definition posixCapabilitiesAsBits :: "int \<Rightarrow> int list \<Rightarrow> 64 word option" where
  "posixCapabilitiesAsBits last_cap caps = capability_bits last_cap caps 0"

text \<open>A \<^verbatim>\<open>long\<close> as decimal digits.\<close>

definition show_long :: "64 word \<Rightarrow> string" where
  "show_long w = (if sint w < 0 then ''-'' @ show_nat (nat (- sint w)) else show_nat (nat (sint w)))"

text \<open>\<open>caps\<close> are the twelve capabilities of the list in the source, \<open>block_suspend\<close> is \<^verbatim>\<open>CAP_BLOCK_SUSPEND\<close>.\<close>

definition system_server_args :: "int \<Rightarrow> int list \<Rightarrow> int \<Rightarrow> bool \<Rightarrow> string list option" where
  "system_server_args last_cap caps block_suspend container =
     (case posixCapabilitiesAsBits last_cap caps of
        None \<Rightarrow> None
      | Some c0 \<Rightarrow>
         (case (if container then Some 0 else posixCapabilitiesAsBits last_cap [block_suspend]) of
            None \<Rightarrow> None
          | Some c1 \<Rightarrow>
              let capabilities = show_long (c0 OR c1) in
              Some [''--setuid=1000'', ''--setgid=1000'',
                ''--setgroups=1001,1002,1003,1004,1005,1006,1007,1008,1009,1010,1018,1021,1023,1032,3001,3002,3003,3006,3007,3009,3010'',
                ''--capabilities='' @ capabilities @ '','' @ capabilities, ''--nice-name=system_server'', ''--runtime-args'',
                ''com.android.server.SystemServer'']))"

definition hasSecondZygote :: "property_get \<Rightarrow> string \<Rightarrow> bool" where
  "hasSecondZygote pg abiList = (pg ''ro.product.cpu.abilist'' [] \<noteq> abiList)"

text \<open>The name of the other zygote; \<open>prim\<close> and \<open>sec\<close> are the constants of \<^verbatim>\<open>Process\<close>.\<close>

definition otherZygoteName :: "string \<Rightarrow> string \<Rightarrow> string \<Rightarrow> string" where
  "otherZygoteName prim sec socketName = (if prim = socketName then sec else prim)"

text \<open>\<^verbatim>\<open>performSystemServerDexOpt\<close>: what the check of an element answers, and the calls to \<^verbatim>\<open>installd\<close>.\<close>

datatype dexopt_answer = Element_Missing | Element_Io_Error | No_Dexopt_Needed | Dexopt_Needed int

record dexopt_call =
  dx_element :: string
  dx_needed :: int
  dx_shared :: string

fun dexopt_elements :: "(string \<Rightarrow> dexopt_answer) \<Rightarrow> string list \<Rightarrow> string \<Rightarrow> dexopt_call list \<times> string" where
  "dexopt_elements needed [] shared = ([], shared)"
| "dexopt_elements needed (e # es) shared =
     (case needed e of
        Element_Missing \<Rightarrow> dexopt_elements needed es shared
      | a \<Rightarrow>
          let calls = (case a of Dexopt_Needed n \<Rightarrow> [\<lparr>dx_element = e, dx_needed = n, dx_shared = shared\<rparr>] | _ \<Rightarrow> []);
              shared1 = (if shared \<noteq> [] then shared @ '':'' else shared) @ e in
          apfst ((@) calls) (dexopt_elements needed es shared1))"

text \<open>\<^verbatim>\<open>String.split(":")\<close> drops empty strings at the end.\<close>

definition java_split :: "char \<Rightarrow> string \<Rightarrow> string list" where
  "java_split c s = (if c \<notin> set s then [s] else rev (dropWhile (\<lambda>x. x = []) (rev (split_on c s))))"

definition performSystemServerDexOpt :: "(string \<Rightarrow> dexopt_answer) \<Rightarrow> string \<Rightarrow> dexopt_call list" where
  "performSystemServerDexOpt needed classPath = fst (dexopt_elements needed (java_split (CHR '':'') classPath) [])"

datatype server_result =
    Exec_Application string "string list"
  | Zygote_Init "string option" "string list"

definition handleSystemServerProcess ::
  "(string \<Rightarrow> dexopt_answer) \<Rightarrow> string option \<Rightarrow> string option \<Rightarrow> string list \<Rightarrow> dexopt_call list \<times> server_result" where
  "handleSystemServerProcess needed systemServerClasspath invokeWith remainingArgs =
     (let calls = (case systemServerClasspath of None \<Rightarrow> [] | Some cp \<Rightarrow> performSystemServerDexOpt needed cp) in
      case invokeWith of
        Some w \<Rightarrow>
          (calls, Exec_Application w
             (case systemServerClasspath of None \<Rightarrow> remainingArgs | Some cp \<Rightarrow> [''-cp'', cp] @ remainingArgs))
      | None \<Rightarrow> (calls, Zygote_Init systemServerClasspath remainingArgs))"

section \<open>Lemmas\<close>

lemma parse_zygote_append:
  "parse_zygote_args (as @ bs) r = (case parse_zygote_args as r of Inl e \<Rightarrow> Inl e | Inr r1 \<Rightarrow> parse_zygote_args bs r1)"
  by (induction as r rule: parse_zygote_args.induct) auto

text \<open>The arguments after the known options of \<^verbatim>\<open>app_process\<close> that zygote accepts.\<close>

definition zygote_option :: "string \<Rightarrow> bool" where
  "zygote_option a = (a = ''--enable-lazy-preload'' \<or> take 14 a = ''--socket-name='')"

definition socket_of :: "string list \<Rightarrow> string" where
  "socket_of as = (case filter (\<lambda>a. take 14 a = ''--socket-name='') (rev as) of [] \<Rightarrow> ''zygote'' | a # _ \<Rightarrow> drop 14 a)"

lemma zygote_option_cases:
  assumes "zygote_option a"
  obtains "a = ''--enable-lazy-preload''" | t where "a = ''--socket-name='' @ t"
  using assms unfolding zygote_option_def by (metis append_take_drop_id)

lemma parse_zygote_options:
  "list_all zygote_option as \<Longrightarrow> parse_zygote_args as r = Inr (r\<lparr>
     z_lazy := z_lazy r \<or> ''--enable-lazy-preload'' \<in> set as,
     z_socket := (case filter (\<lambda>a. take 14 a = ''--socket-name='') (rev as) of [] \<Rightarrow> z_socket r | a # _ \<Rightarrow> drop 14 a)\<rparr>)"
proof (induction as arbitrary: r)
  case (Cons a as)
  define fs where "fs = filter (\<lambda>a. take 14 a = ''--socket-name='') (rev as)"
  have "zygote_option a" using Cons.prems by simp
  then show ?case
  proof (cases rule: zygote_option_cases)
    case 1
    then show ?thesis using Cons.prems Cons.IH[of "r\<lparr>z_lazy := True\<rparr>"] by (simp split: list.split)
  next
    case (2 t)
    have "parse_zygote_args (a # as) r = parse_zygote_args as (r\<lparr>z_socket := t\<rparr>)" by (simp add: 2)
    moreover have "filter (\<lambda>a. take 14 a = ''--socket-name='') (rev (a # as)) = fs @ [a]" by (simp add: 2 fs_def)
    moreover have "a \<noteq> ''--enable-lazy-preload''" "drop 14 a = t" by (simp_all add: 2)
    ultimately show ?thesis using Cons.prems Cons.IH[of "r\<lparr>z_socket := t\<rparr>"]
      by (cases fs) (simp_all add: fs_def[symmetric])
  qed
qed simp

lemma runtime_args_stops:
  assumes "list_all zygote_option as"
  shows "runtime_args zname as r = (r, as)"
proof (cases as)
  case (Cons a bs)
  then have "zygote_option a" using assms by simp
  then show ?thesis by (cases rule: zygote_option_cases) (simp_all add: Cons)
qed simp

text \<open>Order of the steps.\<close>

lemma run_steps_prefix:
  "\<exists>dn rest. fst (run_steps ans ss) = dn @ rest \<and> prefix dn ss \<and> rest \<in> {[], [Close_Server_Socket]}"
proof (induction ss)
  case (Cons s ss)
  then obtain dn rest where i: "fst (run_steps ans ss) = dn @ rest" "prefix dn ss" "rest \<in> {[], [Close_Server_Socket]}" by blast
  show ?case
  proof (cases "ans s")
    case Returns
    then show ?thesis using i by (intro exI[of _ "s # dn"] exI[of _ rest]) simp
  next
    case Throws
    then show ?thesis by (intro exI[of _ "[s]"] exI[of _ "[Close_Server_Socket]"]) simp
  next
    case Calls_Method
    then show ?thesis by (intro exI[of _ "[s]"] exI[of _ "[]"]) simp
  qed
qed simp

lemma run_steps_all: "(\<forall>s. ans s = Returns) \<Longrightarrow> run_steps ans ss = (ss, Z_Returned)"
  by (induction ss) auto

section \<open>Privileges while preloading\<close>

lemma init_classes_spec:
  "init_classes forName ls st = (e, st1) \<Longrightarrow>
   cred st1 = cred st \<and> default_utilization st1 = default_utilization st
   \<and> (\<exists>cs. inits st1 = inits st @ map (\<lambda>c. (c, cred st)) cs \<and> prefix cs (filter is_class_line (map java_trim ls))
        \<and> (e = None \<longrightarrow> cs = filter is_class_line (map java_trim ls)) \<and> e \<noteq> Some Failed_To_Drop_Root \<and> e \<noteq> Some Failed_To_Restore_Root)"
proof (induction ls arbitrary: st)
  case (Cons l ls)
  let ?t = "java_trim l"
  let ?s = "st\<lparr>inits := inits st @ [(?t, cred st)]\<rparr>"
  show ?case
  proof (cases "is_class_line ?t")
    case False
    then show ?thesis using Cons by (simp add: Let_def)
  next
    case True
    show ?thesis
    proof (cases "forName ?t = Init_Throws")
      case thr: True
      then show ?thesis using True Cons.prems by (intro conjI exI[of _ "[?t]"]) (auto simp: Let_def)
    next
      case False
      then have r: "init_classes forName ls ?s = (e, st1)" using True Cons.prems by (simp add: Let_def)
      from Cons.IH[OF r] obtain cs where c: "inits st1 = inits ?s @ map (\<lambda>c. (c, cred ?s)) cs"
        "prefix cs (filter is_class_line (map java_trim ls))" "e = None \<longrightarrow> cs = filter is_class_line (map java_trim ls)"
        "e \<noteq> Some Failed_To_Drop_Root" "e \<noteq> Some Failed_To_Restore_Root" by blast
      then show ?thesis using True Cons.IH[OF r] by (intro conjI exI[of _ "?t # cs"]) auto
    qed
  qed
qed auto

lemma prefix_before:
  assumes "prefix (a @ [s]) zs" "prefix p zs" "s \<notin> set p"
  shows "prefix p a"
proof -
  have "prefix p (a @ [s]) \<or> prefix (a @ [s]) p" using assms prefix_same_cases by blast
  then show ?thesis
  proof
    assume "prefix p (a @ [s])"
    then show ?thesis using assms(3) by (auto simp: prefix_snoc)
  next
    assume "prefix (a @ [s]) p"
    then show ?thesis using assms(3) set_mono_prefix[of "a @ [s]" p] by auto
  qed
qed

section \<open>Correctness\<close>

text \<open>
  C13. Classes are initialised without privileges. If zygote is root and the calls that change its ids
  succeed, every class is initialised with the effective ids 9999, the classes are those of the
  lines of the file in order up to the first that fails, and the ids and the heap utilization
  are as before at the end, also when a class throws an exception.
\<close>

theorem preload_drops_privileges:
  assumes "cred st = \<lparr>ruid = 0, euid = 0, rgid = 0, egid = 0\<rparr>" "inits st = []"
    "preloadClasses ok forName (Some ls) st = (e, st')" "e \<noteq> Some Failed_To_Drop_Root" "e \<noteq> Some Failed_To_Restore_Root"
  shows "cred st' = cred st \<and> default_utilization st' = default_utilization st
    \<and> (\<forall>c k. (c, k) \<in> set (inits st') \<longrightarrow> euid k = 9999 \<and> egid k = 9999)
    \<and> prefix (map fst (inits st')) (filter is_class_line (map java_trim ls))
    \<and> (e = None \<longrightarrow> map fst (inits st') = filter is_class_line (map java_trim ls))"
proof -
  define st1 where "st1 = st\<lparr>cred := \<lparr>ruid = 0, euid = 9999, rgid = 0, egid = 9999\<rparr>\<rparr>"
  have root: "ruid (cred st) = ROOT_UID \<and> rgid (cred st) = ROOT_GID" using assms(1) by (simp add: ROOT_UID_def ROOT_GID_def)
  have d: "drop_root ok st = (True, st1)"
    using assms(3,4) root by (auto simp: preloadClasses_def drop_root_def Let_def st1_def assms(1) ROOT_UID_def ROOT_GID_def
        UNPRIVILEGED_UID_def UNPRIVILEGED_GID_def split: if_splits)
  obtain e1 st2 where i: "init_classes forName ls (st1\<lparr>default_utilization := False\<rparr>) = (e1, st2)" by (meson surj_pair)
  obtain cs where c: "inits st2 = map (\<lambda>c. (c, cred st1)) cs" "prefix cs (filter is_class_line (map java_trim ls))"
    "e1 = None \<longrightarrow> cs = filter is_class_line (map java_trim ls)"
    using init_classes_spec[OF i] assms(2) by (auto simp: st1_def)
  have r: "e = e1" "st' = st2\<lparr>default_utilization := default_utilization st, cred := cred st\<rparr>"
    using assms(3,5) d root i init_classes_spec[OF i]
    by (auto simp: preloadClasses_def restore_root_def Let_def st1_def assms(1) ROOT_UID_def ROOT_GID_def split: if_splits)
  then show ?thesis using c by (auto simp: st1_def comp_def)
qed

theorem preload_drops_privileges_witness:
  "inits (snd (preloadClasses \<lparr>drop_gid_ok = True, drop_uid_ok = True, restore_uid_ok = True, restore_gid_ok = True\<rparr>
      (\<lambda>_. Init_Throws) (Some [''# list'', ''java.lang.String''])
      \<lparr>cred = \<lparr>ruid = 0, euid = 0, rgid = 0, egid = 0\<rparr>, default_utilization = True, inits = []\<rparr>))
   = [(''java.lang.String'', \<lparr>ruid = 0, euid = 9999, rgid = 0, egid = 9999\<rparr>)]
   \<and> cred (snd (preloadClasses \<lparr>drop_gid_ok = True, drop_uid_ok = True, restore_uid_ok = True, restore_gid_ok = True\<rparr>
      (\<lambda>_. Init_Throws) (Some [''# list'', ''java.lang.String''])
      \<lparr>cred = \<lparr>ruid = 0, euid = 0, rgid = 0, egid = 0\<rparr>, default_utilization = True, inits = []\<rparr>))
   = \<lparr>ruid = 0, euid = 0, rgid = 0, egid = 0\<rparr>"
proof -
  let ?ok = "\<lparr>drop_gid_ok = True, drop_uid_ok = True, restore_uid_ok = True, restore_gid_ok = True\<rparr>"
  let ?st = "\<lparr>cred = \<lparr>ruid = 0, euid = 0, rgid = 0, egid = 0\<rparr>, default_utilization = True, inits = []\<rparr>"
  let ?r = "preloadClasses ?ok (\<lambda>_. Init_Throws) (Some [''# list'', ''java.lang.String'']) ?st"
  have e: "fst ?r = Some (Class_Threw ''java.lang.String'')" by code_simp
  have i: "inits (snd ?r) = [(''java.lang.String'', \<lparr>ruid = 0, euid = 9999, rgid = 0, egid = 9999\<rparr>)]" by code_simp
  have p: "?r = (Some (Class_Threw ''java.lang.String''), snd ?r)" using e by (metis prod.collapse)
  have "cred (snd ?r) = cred ?st" by (rule preload_drops_privileges[OF _ _ p, THEN conjunct1]) simp_all
  then show ?thesis using i by simp
qed

text \<open>
  C39. Zygote restricts itself before it has children. Whatever the steps of \<^verbatim>\<open>main\<close> do, when the system
  server is started or connections are accepted, the storage of the root is unmounted and the
  system call filter is set.
\<close>

theorem zygote_restricted_before_children:
  assumes "fst (ZygoteInit_main setpgid_ok ans argv) = a @ s # b" "s = Start_System_Server x y \<or> s = Run_Select_Loop z"
  shows "Set_Seccomp_Policy \<in> set a \<and> Unmount_Storage \<in> set a"
proof -
  have "\<exists>r abis. fst (ZygoteInit_main setpgid_ok ans argv) = Enable_Ddms # fst (run_steps ans (zygote_steps r abis))"
    using assms by (auto simp: ZygoteInit_main_def Cons_eq_append_conv append_eq_Cons_conv split: if_splits z_answer.splits sum.splits; metis)
  then obtain r abis where m: "Enable_Ddms # fst (run_steps ans (zygote_steps r abis)) = a @ s # b" using assms(1) by auto
  obtain dn rest where d: "fst (run_steps ans (zygote_steps r abis)) = dn @ rest" "prefix dn (zygote_steps r abis)"
    "rest \<in> {[], [Close_Server_Socket]}" using run_steps_prefix by blast
  obtain a' where a: "a = Enable_Ddms # a'" "dn @ rest = a' @ s # b" using m d(1) assms(2) by (cases a) auto
  have "prefix (a' @ [s]) dn"
    using a(2) d(3) assms(2) by (auto simp: append_eq_append_conv2 Cons_eq_append_conv append_eq_Cons_conv prefix_def)
  then have p: "prefix (a' @ [s]) (zygote_steps r abis)" using d(2) by (meson prefix_order.trans)
  let ?p = "[Register_Socket (z_socket r)] @ (if z_lazy r then [Reset_Nice_Priority] else [Preload])
     @ [Gc_And_Finalize, Set_Tracing_Enabled False, Unmount_Storage, Set_Seccomp_Policy]"
  have "prefix ?p (zygote_steps r abis)" by (simp add: zygote_steps_def)
  from prefix_before[OF p this] have "prefix ?p a'" using assms(2) by auto
  then show ?thesis using a(1) set_mono_prefix[of ?p a'] by auto
qed

theorem zygote_restricted_before_children_witness:
  "Set_Seccomp_Policy \<in> set [Enable_Ddms, Register_Socket ''zygote'', Preload, Gc_And_Finalize, Set_Tracing_Enabled False,
     Unmount_Storage, Set_Seccomp_Policy, Stop_No_Thread_Creation]
   \<and> fst (ZygoteInit_main True (\<lambda>_. Returns) [''Z'', ''--abi-list=x''])
     = [Enable_Ddms, Register_Socket ''zygote'', Preload, Gc_And_Finalize, Set_Tracing_Enabled False,
     Unmount_Storage, Set_Seccomp_Policy, Stop_No_Thread_Creation] @ Run_Select_Loop ''x'' # [Close_Server_Socket]"
proof -
  have m: "fst (ZygoteInit_main True (\<lambda>_. Returns) [''Z'', ''--abi-list=x''])
     = [Enable_Ddms, Register_Socket ''zygote'', Preload, Gc_And_Finalize, Set_Tracing_Enabled False,
     Unmount_Storage, Set_Seccomp_Policy, Stop_No_Thread_Creation] @ Run_Select_Loop ''x'' # [Close_Server_Socket]"
    by code_simp
  show ?thesis using zygote_restricted_before_children[OF m disjI2[OF refl]] m by blast
qed

text \<open>The runtime can start zygote with the options \<open>vm\<close>.\<close>

definition zygote_ready :: "app_env \<Rightarrow> string list \<Rightarrow> bool" where
  "zygote_ready env vm =
     ((r_root (a_rt env) \<noteq> None \<or> hasDir (r_stat (a_rt env)) ''/system'')
      \<and> fst (startVm (r_pg (a_rt env)) (r_stat (a_rt env)) (r_isa (a_rt env)) (r_lp64 (a_rt env)) (r_create (a_rt env)) True vm) = 0
      \<and> r_reg (a_rt env) \<and> r_main (a_rt env) ''com/android/internal/os/ZygoteInit''
      \<and> fst (maybeCreateDalvikCache env) = None)"

lemma start_zygote:
  assumes "zygote_ready env vm"
  shows "start (a_rt env) ''com.android.internal.os.ZygoteInit'' args True vm =
    Main_Called ''com/android/internal/os/ZygoteInit'' (''com.android.internal.os.ZygoteInit'' # args)"
  using assms by (auto simp: zygote_ready_def start_def toSlashClassName_def)

lemma zygote_start_args:
  assumes "zygote_ready env vm" "className r = []"
  shows "\<exists>rt1. start_args env r rest rt = (Inr ((if startSystemServer r then [''start-system-server''] else [])
      @ [''--abi-list='' @ r_pg (a_rt env) (ABI_LIST_PROPERTY (r_lp64 (a_rt env))) []] @ rest), rt1)
    \<and> mOptions rt1 = mOptions rt"
proof -
  obtain cs where "maybeCreateDalvikCache env = (None, cs)"
    using assms(1) by (cases "maybeCreateDalvikCache env") (auto simp: zygote_ready_def)
  moreover have "r_pg (a_rt env) (ABI_LIST_PROPERTY (r_lp64 (a_rt env))) [] \<noteq> []"
    using assms(1) startVm_success unfolding zygote_ready_def ABI_LIST_PROPERTY_def cpu_abilist_property_name_def by blast
  ultimately show ?thesis using assms(2) by (simp add: start_args_def)
qed

text \<open>
  C12. The command line of init reaches zygote. When init starts \<^verbatim>\<open>app_process\<close> with options for the
  virtual machine, a directory, \<^verbatim>\<open>--zygote\<close>, possibly \<^verbatim>\<open>--start-system-server\<close>, and further options of zygote,
  and the runtime can start, then \<^verbatim>\<open>ZygoteInit.main\<close> is called, and it reads from its arguments exactly
  what was asked for and the list of binary interfaces of the device. The process is named zygote.
\<close>

theorem zygote_launch:
  assumes "list_all (\<lambda>a. take 1 a = ''-'' \<and> a \<noteq> ''--'' \<and> a \<noteq> ''-cp'' \<and> a \<noteq> ''-classpath'') vm" "take 1 parent \<noteq> ''-''"
    "list_all zygote_option rest" "zygote_ready env vm"
  shows "\<exists>rt jargs. app_main env (prog # vm @ parent # ''--zygote'' # (if ss then [''--start-system-server''] else []) @ rest)
      = (Inr (Main_Called ''com/android/internal/os/ZygoteInit'' jargs), rt)
    \<and> mOptions rt = vm \<and> argv0 rt = Some (ZYGOTE_NICE_NAME (r_lp64 (a_rt env)))
    \<and> zygote_arguments jargs = Inr (\<lparr>z_system_server = ss, z_socket = socket_of rest,
        z_abi = Some (r_pg (a_rt env) (ABI_LIST_PROPERTY (r_lp64 (a_rt env))) []),
        z_lazy = (''--enable-lazy-preload'' \<in> set rest)\<rparr>, r_pg (a_rt env) (ABI_LIST_PROPERTY (r_lp64 (a_rt env))) [])"
proof -
  let ?z = "ZYGOTE_NICE_NAME (r_lp64 (a_rt env))"
  let ?abis = "r_pg (a_rt env) (ABI_LIST_PROPERTY (r_lp64 (a_rt env))) []"
  let ?tail = "''--zygote'' # (if ss then [''--start-system-server''] else []) @ rest"
  let ?r = "\<lparr>zygote = True, startSystemServer = ss, application = False, niceName = ?z, className = []\<rparr>"
  let ?rt = "\<lparr>mOptions = vm, mClassName = [], mArgs = [], argv0 = None, app_calls = []\<rparr>"
  have v: "vm_args False (vm @ parent # ?tail) = (vm, parent # ?tail)" by (rule vm_args_options[OF assms(1,2)])
  have r: "runtime_args ?z ?tail \<lparr>zygote = False, startSystemServer = False, application = False, niceName = [], className = []\<rparr>
      = (?r, rest)" by (cases ss) (simp_all add: runtime_args_stops[OF assms(3)])
  obtain rt1 where s: "start_args env ?r rest ?rt =
      (Inr ((if ss then [''start-system-server''] else []) @ [''--abi-list='' @ ?abis] @ rest), rt1)" "mOptions rt1 = vm"
    using zygote_start_args[OF assms(4), of ?r rest ?rt] by auto
  have n: "?z \<noteq> []" by (simp add: ZYGOTE_NICE_NAME_def)
  have m: "app_main env (prog # vm @ parent # ?tail) = (Inr (Main_Called ''com/android/internal/os/ZygoteInit''
      (''com.android.internal.os.ZygoteInit'' # (if ss then [''start-system-server''] else []) @ [''--abi-list='' @ ?abis] @ rest)),
      rt1\<lparr>argv0 := Some ?z\<rparr>)"
    unfolding app_main_def Let_def list.sel v fst_conv snd_conv One_nat_def drop_Suc_Cons drop_0 r s(1)
    using n s(2) start_zygote[OF assms(4)] by simp
  show ?thesis
    by (rule exI, rule exI, rule conjI, rule m)
      (simp add: s(2) zygote_arguments_def parse_zygote_append parse_zygote_options[OF assms(3)] socket_of_def split: list.split)
qed

definition sample_app_env :: app_env where
  "sample_app_env = \<lparr>a_data = Some ''/data'', a_kernel = (\<lambda>_. (0, 0)),
     a_rt = \<lparr>r_pg = (\<lambda>k d. if k = ''ro.product.cpu.abilist64'' then ''arm64-v8a'' else d), r_stat = (\<lambda>_. Some S_REG), r_isa = ''arm64'',
       r_lp64 = True, r_create = (\<lambda>_. True), r_root = Some ''/system'', r_reg = True, r_main = (\<lambda>_. True)\<rparr>,
     a_string8 = (\<lambda>_. True), a_path_max = 4096, a_eexist = 17\<rparr>"

theorem zygote_launch_witness:
  "\<exists>rt jargs. app_main sample_app_env [''app_process64'', ''-Xzygote'', ''/system/bin'', ''--zygote'', ''--start-system-server'']
      = (Inr (Main_Called ''com/android/internal/os/ZygoteInit'' jargs), rt)
    \<and> zygote_arguments jargs = Inr (\<lparr>z_system_server = True, z_socket = ''zygote'', z_abi = Some ''arm64-v8a'', z_lazy = False\<rparr>, ''arm64-v8a'')"
proof -
  have "zygote_ready sample_app_env [''-Xzygote'']"
    by (simp add: zygote_ready_def sample_app_env_def startVm_def hasFile_def cpu_abilist_property_name_def maybeCreateDalvikCache_def Let_def)
  from zygote_launch[of "[''-Xzygote'']" "''/system/bin''" "[]" sample_app_env "''app_process64''" True, OF _ _ _ this]
  show ?thesis by (auto simp: socket_of_def sample_app_env_def ABI_LIST_PROPERTY_def)
qed

section \<open>Further facts\<close>

text \<open>The bits of the capabilities.\<close>

lemma capability_bits_bit:
  "last_cap < 64 \<Longrightarrow> capability_bits last_cap cs r = Some w \<Longrightarrow> bit w i = (bit r i \<or> int i \<in> set cs)"
proof (induction last_cap cs r rule: capability_bits.induct)
  case (2 last_cap c cs r)
  have c: "0 \<le> c" "c \<le> last_cap" "c < 64" using "2.prems" by (auto split: if_splits)
  then have "bit (push_bit (nat (c mod 64)) (1 :: 64 word)) i = (int i = c)"
    by (auto simp: bit_simps)
  then show ?case using 2 c by (auto simp: bit_or_iff)
qed simp

theorem capabilities_are_the_bits:
  "last_cap < 64 \<Longrightarrow> posixCapabilitiesAsBits last_cap cs = Some w \<Longrightarrow> bit w i = (int i \<in> set cs)"
  using capability_bits_bit[of last_cap cs 0 w i] by (simp add: posixCapabilitiesAsBits_def)

text \<open>An element is compiled with the elements before it that exist as its shared libraries.\<close>

lemma dexopt_shared:
  "shared \<noteq> [] \<Longrightarrow> snd (dexopt_elements needed es shared) =
   shared @ concat (map (\<lambda>e. '':'' @ e) (filter (\<lambda>e. needed e \<noteq> Element_Missing) es))"
  by (induction needed es shared rule: dexopt_elements.induct) (auto simp: apfst_def map_prod_def split_beta split: dexopt_answer.split)

end
