(* ===== verification/Pid_Map.thy ===== *)
theory Pid_Map
  imports Prelude
begin

text \<open>
  The allocator of process numbers in the kernel (\<^verbatim>\<open>msm/kernel/pid.c\<close>): the bitmaps of a pid
  namespace, \<^verbatim>\<open>alloc_pidmap\<close>, \<^verbatim>\<open>free_pidmap\<close>, \<^verbatim>\<open>next_pidmap\<close> and \<^verbatim>\<open>set_last_pid\<close>.

  A bitmap page is the set of its bits that are set, or nothing before its first use. \<open>B\<close> is
  \<^verbatim>\<open>BITS_PER_PAGE\<close> and \<open>pm\<close> is \<^verbatim>\<open>pid_max\<close>; \<open>kz m\<close> says whether \<^verbatim>\<open>kzalloc\<close> succeeds for page \<open>m\<close>. The
  calls of one processor are modelled; the loop of \<^verbatim>\<open>set_last_pid\<close>, which is there for the
  others, is modelled with the values they may have stored in between.
\<close>

section \<open>Data\<close>

record pidmap =
  nr_free :: int
  page :: "nat set option"

record pid_bitmaps =
  pidmaps :: "pidmap list"
  last_pid :: nat

definition RESERVED_PIDS :: nat where "RESERVED_PIDS = 300"

definition new_pidmap :: "nat \<Rightarrow> pidmap" where
  "new_pidmap B = \<lparr>nr_free = int B, page = None\<rparr>"

definition init_pid_ns :: "nat \<Rightarrow> nat \<Rightarrow> pid_bitmaps" where
  "init_pid_ns B PIDMAP_ENTRIES = \<lparr>pidmaps = replicate PIDMAP_ENTRIES (new_pidmap B), last_pid = 0\<rparr>"

text \<open>\<^verbatim>\<open>pidmap_init\<close>, as far as it concerns the bitmaps.\<close>

definition pidmap_init :: "nat \<Rightarrow> pid_bitmaps \<Rightarrow> pid_bitmaps" where
  "pidmap_init B ns =
     ns\<lparr>pidmaps := (pidmaps ns)[0 := \<lparr>nr_free = nr_free (pidmaps ns ! 0) - 1, page = Some {0}\<rparr>]\<rparr>"

definition mk_pid :: "nat \<Rightarrow> nat \<Rightarrow> nat \<Rightarrow> nat" where
  "mk_pid B m off = m * B + off"

definition find_next_zero_bit :: "nat set \<Rightarrow> nat \<Rightarrow> nat \<Rightarrow> nat" where
  "find_next_zero_bit p sz off = (case filter (\<lambda>i. i \<notin> p) [off..<sz] of [] \<Rightarrow> sz | i # _ \<Rightarrow> i)"

definition find_next_bit :: "nat set \<Rightarrow> nat \<Rightarrow> nat \<Rightarrow> nat" where
  "find_next_bit p sz off = (case filter (\<lambda>i. i \<in> p) [off..<sz] of [] \<Rightarrow> sz | i # _ \<Rightarrow> i)"

section \<open>The last number\<close>

definition pid_before :: "int \<Rightarrow> int \<Rightarrow> int \<Rightarrow> bool" where
  "pid_before base a b = ((word_of_int (a - base) :: u32) < word_of_int (b - base))"

text \<open>
  The loop of \<^verbatim>\<open>set_last_pid\<close>: \<open>seen\<close> are the values \<^verbatim>\<open>cmpxchg\<close> finds in \<^verbatim>\<open>last_pid\<close>, one for each
  turn. The result says whether \<^verbatim>\<open>pid\<close> was stored.
\<close>

fun set_last_loop :: "int \<Rightarrow> int \<Rightarrow> int \<Rightarrow> int list \<Rightarrow> bool option" where
  "set_last_loop base pid prev [] = None"
| "set_last_loop base pid prev (last_write # seen) =
     (if prev = last_write then Some True
      else if pid_before base last_write pid then set_last_loop base pid last_write seen
      else Some False)"

text \<open>With no other writer the second turn at the latest is the last.\<close>

definition set_last_pid :: "nat \<Rightarrow> nat \<Rightarrow> pid_bitmaps \<Rightarrow> pid_bitmaps" where
  "set_last_pid base pid ns =
     (case set_last_loop (int base) (int pid) (int base) [int (last_pid ns), int (last_pid ns)] of
        Some True \<Rightarrow> ns\<lparr>last_pid := pid\<rparr>
      | _ \<Rightarrow> ns)"

section \<open>Allocation\<close>

lemma find_next_zero_bit_gt: "off \<in> p \<Longrightarrow> off < sz \<Longrightarrow> off < find_next_zero_bit p sz off"
proof -
  assume "off \<in> p" "off < sz"
  moreover have "i \<in> set (filter (\<lambda>i. i \<notin> p) [off..<sz]) \<Longrightarrow> off < i" for i
    using calculation by (auto simp: le_less)
  ultimately show ?thesis
    by (cases "filter (\<lambda>i. i \<notin> p) [off..<sz]") (simp_all add: find_next_zero_bit_def)
qed

text \<open>The inner loop: the number and the bit it takes.\<close>

function find_free :: "nat \<Rightarrow> nat \<Rightarrow> nat \<Rightarrow> nat set \<Rightarrow> nat \<Rightarrow> nat \<Rightarrow> (nat \<times> nat) option" where
  "find_free B pm m p pid offset =
     (if offset \<notin> p then Some (pid, offset)
      else
       let offset' = find_next_zero_bit p B offset in
       if offset' \<ge> B then None
       else
        let pid' = mk_pid B m offset' in
        if pid' \<ge> pm then None else find_free B pm m p pid' offset')"
  by pat_completeness auto
termination
proof (relation "measure (\<lambda>(B, _, _, _, _, offset). B - offset)", goal_cases)
  case (2 B pm m p pid offset x xa)
  then show ?case
    using find_next_zero_bit_gt[of offset p B] by (cases "offset < B") (auto simp: find_next_zero_bit_def)
qed simp

declare find_free.simps [simp del]

text \<open>The outer loop; the sixth argument counts the turns that are left.\<close>

fun scan_maps ::
  "(nat \<Rightarrow> bool) \<Rightarrow> nat \<Rightarrow> nat \<Rightarrow> nat \<Rightarrow> nat \<Rightarrow> nat \<Rightarrow> nat \<Rightarrow> nat \<Rightarrow> pid_bitmaps \<Rightarrow> nat option \<times> pid_bitmaps" where
  "scan_maps kz B pm lst 0 m offset pid ns = (None, ns)"
| "scan_maps kz B pm lst (Suc i) m offset pid ns =
     (let mp0 = pidmaps ns ! m;
          mp = (if page mp0 = None \<and> kz m then mp0\<lparr>page := Some {}\<rparr> else mp0);
          ns1 = ns\<lparr>pidmaps := (pidmaps ns)[m := mp]\<rparr> in
      case page mp of
        None \<Rightarrow> (None, ns1)
      | Some p \<Rightarrow>
         (case (if nr_free mp \<noteq> 0 then find_free B pm m p pid offset else None) of
            Some (pid', offset') \<Rightarrow>
              (Some pid', set_last_pid lst pid'
                 (ns\<lparr>pidmaps := (pidmaps ns)[m := \<lparr>nr_free = nr_free mp - 1, page = Some (insert offset' p)\<rparr>]\<rparr>))
          | None \<Rightarrow>
              if m < (pm - 1) div B then scan_maps kz B pm lst i (m + 1) 0 (mk_pid B (m + 1) 0) ns1
              else if lst = RESERVED_PIDS then (None, ns1)
              else scan_maps kz B pm lst i 0 RESERVED_PIDS (mk_pid B 0 RESERVED_PIDS) ns1))"

definition alloc_pidmap :: "(nat \<Rightarrow> bool) \<Rightarrow> nat \<Rightarrow> nat \<Rightarrow> pid_bitmaps \<Rightarrow> nat option \<times> pid_bitmaps" where
  "alloc_pidmap kz B pm ns =
     (let lst = last_pid ns;
          pid = (if lst + 1 \<ge> pm then RESERVED_PIDS else lst + 1);
          offset = pid mod B;
          max_scan = (pm + B - 1) div B - (if offset = 0 then 1 else 0)
      in scan_maps kz B pm lst (Suc max_scan) (pid div B) offset pid ns)"

definition free_pidmap :: "nat \<Rightarrow> nat \<Rightarrow> pid_bitmaps \<Rightarrow> pid_bitmaps" where
  "free_pidmap B nr ns =
     (let m = nr div B; mp = pidmaps ns ! m in
      ns\<lparr>pidmaps := (pidmaps ns)[m := mp\<lparr>page := map_option (\<lambda>p. p - {nr mod B}) (page mp),
                                        nr_free := nr_free mp + 1\<rparr>]\<rparr>)"

text \<open>\<open>next_map\<close> is the loop of \<^verbatim>\<open>next_pidmap\<close> over the maps from number \<open>m\<close> on.\<close>

fun next_map :: "nat \<Rightarrow> nat \<Rightarrow> nat \<Rightarrow> pidmap list \<Rightarrow> nat option" where
  "next_map B m offset [] = None"
| "next_map B m offset (mp # mps) =
     (case page mp of
        None \<Rightarrow> next_map B (Suc m) 0 mps
      | Some p \<Rightarrow>
         let offset' = find_next_bit p B offset in
         if offset' < B then Some (mk_pid B m offset') else next_map B (Suc m) 0 mps)"

definition next_pidmap :: "nat \<Rightarrow> nat \<Rightarrow> pid_bitmaps \<Rightarrow> nat \<Rightarrow> nat option" where
  "next_pidmap B PID_MAX_LIMIT ns lst =
     (if lst \<ge> PID_MAX_LIMIT then None
      else next_map B ((lst + 1) div B) ((lst + 1) mod B) (drop ((lst + 1) div B) (pidmaps ns)))"

end
