(* ===== verification/Pid_Map_Correct.thy ===== *)
theory Pid_Map_Correct
  imports Pid_Map
begin

text \<open>
  Correctness of the allocator of process numbers: the invariant of the bitmaps, what an
  allocation changes, when it fails, and the walk over the numbers in use.
\<close>

section \<open>Invariant and numbers in use\<close>

definition map_ok :: "nat \<Rightarrow> pidmap \<Rightarrow> bool" where
  "map_ok B mp = (case page mp of
     None \<Rightarrow> nr_free mp = int B
   | Some p \<Rightarrow> p \<subseteq> {..<B} \<and> nr_free mp = int B - int (card p))"

definition maps_ok :: "nat \<Rightarrow> nat \<Rightarrow> pid_bitmaps \<Rightarrow> bool" where
  "maps_ok B pm ns = (RESERVED_PIDS < B \<and> RESERVED_PIDS < pm \<and> (pm - 1) div B < length (pidmaps ns)
     \<and> list_all (map_ok B) (pidmaps ns))"

definition used :: "nat \<Rightarrow> pid_bitmaps \<Rightarrow> nat set" where
  "used B ns = {pid. pid div B < length (pidmaps ns)
     \<and> (case page (pidmaps ns ! (pid div B)) of None \<Rightarrow> False | Some p \<Rightarrow> pid mod B \<in> p)}"

definition put_map :: "nat \<Rightarrow> pidmap \<Rightarrow> pid_bitmaps \<Rightarrow> pid_bitmaps" where
  "put_map m mp ns = ns\<lparr>pidmaps := (pidmaps ns)[m := mp]\<rparr>"

lemma used_put_map:
  "m < length (pidmaps ns) \<Longrightarrow>
   pid \<in> used B (put_map m mp ns) \<longleftrightarrow>
     (if pid div B = m then (case page mp of None \<Rightarrow> False | Some p \<Rightarrow> pid mod B \<in> p) else pid \<in> used B ns)"
  by (simp add: used_def put_map_def)

lemma maps_ok_put_map: "maps_ok B pm ns \<Longrightarrow> map_ok B mp \<Longrightarrow> maps_ok B pm (put_map m mp ns)"
  by (auto simp: maps_ok_def put_map_def list_all_iff dest: set_update_subset_insert[THEN subsetD])

lemma map_ok_nth: "maps_ok B pm ns \<Longrightarrow> m < length (pidmaps ns) \<Longrightarrow> map_ok B (pidmaps ns ! m)"
  by (simp add: maps_ok_def list_all_length)

lemma filter_upt_Cons:
  assumes "filter P [a..<b] = i # xs"
  shows "a \<le> i \<and> i < b \<and> P i \<and> (\<forall>j. a \<le> j \<and> j < i \<longrightarrow> \<not> P j)"
proof -
  obtain us vs where s: "[a..<b] = us @ i # vs" "\<forall>u \<in> set us. \<not> P u" "P i"
    using assms by (auto simp: filter_eq_Cons_iff)
  have len: "length us < b - a" using arg_cong[OF s(1), of length] by simp
  have nth: "([a..<b] ! k) = a + k" if "k < b - a" for k using that by simp
  have i: "i = a + length us" using nth[OF len] unfolding s(1) by simp
  have "\<not> P j" if "a \<le> j" "j < i" for j
  proof -
    have k: "j - a < length us" using that i by simp
    then have "us ! (j - a) = j" using nth[of "j - a"] len that(1) unfolding s(1) by (simp add: nth_append)
    then show ?thesis using s(2) k nth_mem by metis
  qed
  then show ?thesis using i len s(3) by auto
qed

lemma find_next_zero_bit_spec:
  "(find_next_zero_bit p sz off < sz \<longrightarrow> off \<le> find_next_zero_bit p sz off \<and> find_next_zero_bit p sz off \<notin> p)
   \<and> (\<forall>i. off \<le> i \<and> i < find_next_zero_bit p sz off \<and> i < sz \<longrightarrow> i \<in> p)"
proof (cases "filter (\<lambda>i. i \<notin> p) [off..<sz]")
  case Nil
  then show ?thesis by (simp add: find_next_zero_bit_def filter_empty_conv)
next
  case (Cons i xs)
  then show ?thesis using filter_upt_Cons[OF Cons] by (simp add: find_next_zero_bit_def)
qed

lemma find_next_bit_spec:
  "(find_next_bit p sz off < sz \<longrightarrow> off \<le> find_next_bit p sz off \<and> find_next_bit p sz off \<in> p)
   \<and> (\<forall>i. off \<le> i \<and> i < find_next_bit p sz off \<and> i < sz \<longrightarrow> i \<notin> p)"
proof (cases "filter (\<lambda>i. i \<in> p) [off..<sz]")
  case Nil
  then show ?thesis by (simp add: find_next_bit_def filter_empty_conv)
next
  case (Cons i xs)
  then show ?thesis using filter_upt_Cons[OF Cons] by (simp add: find_next_bit_def)
qed

section \<open>The inner loop\<close>

lemma find_free_spec:
  "off < B \<Longrightarrow> pid = mk_pid B m off \<Longrightarrow> pid < pm \<Longrightarrow>
   (case find_free B pm m p pid off of
      Some (pid', off') \<Rightarrow> off' < B \<and> off' \<notin> p \<and> pid' = mk_pid B m off' \<and> pid' < pm
    | None \<Rightarrow> \<forall>i. off \<le> i \<and> i < B \<and> mk_pid B m i < pm \<longrightarrow> i \<in> p)"
proof (induction B pm m p pid off rule: find_free.induct)
  case (1 B pm m p pid off)
  define o' where "o' = find_next_zero_bit p B off"
  note z = find_next_zero_bit_spec[of p B off, folded o'_def]
  show ?case
  proof (cases "off \<in> p \<and> o' < B \<and> mk_pid B m o' < pm")
    case True
    have eq: "find_free B pm m p pid off = find_free B pm m p (mk_pid B m o') o'"
      using True by (subst find_free.simps) (simp add: o'_def Let_def)
    have ih: "case find_free B pm m p (mk_pid B m o') o' of
        Some (pid', off') \<Rightarrow> off' < B \<and> off' \<notin> p \<and> pid' = mk_pid B m off' \<and> pid' < pm
      | None \<Rightarrow> \<forall>i. o' \<le> i \<and> i < B \<and> mk_pid B m i < pm \<longrightarrow> i \<in> p"
      using 1(1)[OF _ o'_def] True by auto
    show ?thesis unfolding eq
    proof (cases "find_free B pm m p (mk_pid B m o') o'")
      case None
      then have "\<forall>i. o' \<le> i \<and> i < B \<and> mk_pid B m i < pm \<longrightarrow> i \<in> p" using ih by simp
      then have "\<forall>i. off \<le> i \<and> i < B \<and> mk_pid B m i < pm \<longrightarrow> i \<in> p" using z by (meson not_le)
      then show "case find_free B pm m p (mk_pid B m o') o' of
        Some (pid', off') \<Rightarrow> off' < B \<and> off' \<notin> p \<and> pid' = mk_pid B m off' \<and> pid' < pm
      | None \<Rightarrow> \<forall>i. off \<le> i \<and> i < B \<and> mk_pid B m i < pm \<longrightarrow> i \<in> p" using None by simp
    qed (use ih in simp)
  next
    case False
    then show ?thesis
    proof (cases "off \<in> p")
      case True
      have "find_free B pm m p pid off = None"
        using False True by (subst find_free.simps) (auto simp: o'_def Let_def)
      moreover have "i \<in> p" if "off \<le> i" "i < B" "mk_pid B m i < pm" for i
      proof -
        have "i < o'" using False True that by (auto simp: mk_pid_def not_less)
        then show ?thesis using z that by blast
      qed
      ultimately show ?thesis by simp
    next
      case nf: False
      then have "find_free B pm m p pid off = Some (pid, off)" by (subst find_free.simps) simp
      then show ?thesis using nf "1.prems" by simp
    qed
  qed
qed

section \<open>The outer loop\<close>

text \<open>The numbers a scan of \<open>i\<close> turns looks at.\<close>

fun cover :: "nat \<Rightarrow> nat \<Rightarrow> nat \<Rightarrow> nat \<Rightarrow> nat \<Rightarrow> nat set" where
  "cover B pm 0 m off = {}"
| "cover B pm (Suc i) m off =
     {n. m * B + off \<le> n \<and> n < (m + 1) * B \<and> n < pm} \<union>
     (if m < (pm - 1) div B then cover B pm i (m + 1) 0 else cover B pm i 0 RESERVED_PIDS)"

lemma set_last_pid_own [simp]: "last_pid ns = lst \<Longrightarrow> set_last_pid lst pid ns = ns\<lparr>last_pid := pid\<rparr>"
  by (simp add: set_last_pid_def)

lemma div_mod_mk_pid: "off < B \<Longrightarrow> mk_pid B m off div B = m \<and> mk_pid B m off mod B = off"
  by (simp add: mk_pid_def)

lemma segment_used:
  assumes "m < length (pidmaps ns)" "page (pidmaps ns ! m) = Some p"
    and "\<forall>i. off \<le> i \<and> i < B \<and> mk_pid B m i < pm \<longrightarrow> i \<in> p"
  shows "{n. m * B + off \<le> n \<and> n < (m + 1) * B \<and> n < pm} \<subseteq> used B ns"
proof
  fix n
  assume "n \<in> {n. m * B + off \<le> n \<and> n < (m + 1) * B \<and> n < pm}"
  then have n: "m * B + off \<le> n" "n < m * B + B" "n < pm" by (simp_all add: algebra_simps)
  define i where "i = n - m * B"
  have i: "n = mk_pid B m i" "i < B" "off \<le> i" using n by (auto simp: i_def mk_pid_def)
  then have "i \<in> p" using assms(3) n(3) by blast
  then show "n \<in> used B ns" using assms(1,2) i div_mod_mk_pid[of i B m] by (simp add: used_def)
qed

lemma full_map: "map_ok B mp \<Longrightarrow> page mp = Some p \<Longrightarrow> nr_free mp = 0 \<Longrightarrow> p = {..<B}"
proof -
  assume a: "map_ok B mp" "page mp = Some p" "nr_free mp = 0"
  have "p \<subseteq> {..<B}" using a(1) unfolding map_ok_def a(2) by simp
  moreover have "card p = card {..<B}" using a(1) unfolding map_ok_def a(2,3) by simp
  ultimately show ?thesis by (intro card_subset_eq) simp_all
qed

lemma used_at: "m < length (pidmaps ns) \<Longrightarrow> n div B = m \<Longrightarrow>
  n \<in> used B ns \<longleftrightarrow> (case page (pidmaps ns ! m) of None \<Rightarrow> False | Some p \<Rightarrow> n mod B \<in> p)"
  by (simp add: used_def)

lemma used_taken:
  assumes "m < length (pidmaps ns)" "off < B" "page (pidmaps ns ! m) = Some p \<or> page (pidmaps ns ! m) = None \<and> p = {}"
    and "page mp = Some (insert off p)"
  shows "used B (put_map m mp ns) = insert (mk_pid B m off) (used B ns)"
proof (rule set_eqI)
  fix n
  have "n = mk_pid B m off \<longleftrightarrow> n div B = m \<and> n mod B = off"
    using div_mod_mk_pid[OF assms(2), of m] by (auto simp: mk_pid_def)
  then show "n \<in> used B (put_map m mp ns) \<longleftrightarrow> n \<in> insert (mk_pid B m off) (used B ns)"
    using assms(3,4) used_at[OF assms(1), of n B] by (cases "n div B = m") (auto simp: used_put_map[OF assms(1)])
qed

lemma page_installed:
  assumes "maps_ok B pm ns" "m < length (pidmaps ns)"
    and mp_def: "mp = (if page (pidmaps ns ! m) = None \<and> ok then (pidmaps ns ! m)\<lparr>page := Some {}\<rparr> else pidmaps ns ! m)"
  shows "map_ok B mp \<and> maps_ok B pm (put_map m mp ns) \<and> used B (put_map m mp ns) = used B ns"
proof -
  have "map_ok B (pidmaps ns ! m)" by (rule map_ok_nth[OF assms(1,2)])
  then have ok: "map_ok B mp" by (auto simp: mp_def map_ok_def)
  have "n \<in> used B (put_map m mp ns) \<longleftrightarrow> n \<in> used B ns" for n
    using used_at[OF assms(2), of n B] by (auto simp: used_put_map[OF assms(2)] mp_def)
  then show ?thesis using ok maps_ok_put_map[OF assms(1) ok] by blast
qed

lemma map_taken_ok:
  assumes "map_ok B mp" "page mp = Some p" "off < B" "off \<notin> p"
  shows "map_ok B \<lparr>nr_free = nr_free mp - 1, page = Some (insert off p)\<rparr>"
proof -
  have "finite p" using assms(1,2) by (auto simp: map_ok_def intro: finite_subset)
  then show ?thesis using assms by (auto simp: map_ok_def)
qed

definition scan_post :: "(nat \<Rightarrow> bool) \<Rightarrow> nat \<Rightarrow> nat \<Rightarrow> nat set \<Rightarrow> pid_bitmaps \<Rightarrow> nat option \<times> pid_bitmaps \<Rightarrow> bool" where
  "scan_post kz B pm cov ns r = (maps_ok B pm (snd r) \<and>
     (case fst r of
        Some pid \<Rightarrow> pid < pm \<and> pid \<notin> used B ns \<and> used B (snd r) = insert pid (used B ns) \<and> last_pid (snd r) = pid
      | None \<Rightarrow> used B (snd r) = used B ns \<and> last_pid (snd r) = last_pid ns
          \<and> ((\<forall>m. kz m) \<and> last_pid ns \<noteq> RESERVED_PIDS \<longrightarrow> cov \<subseteq> used B ns)))"

lemma scan_post_later:
  assumes "scan_post kz B pm cov ns1 r" "used B ns1 = used B ns" "last_pid ns1 = last_pid ns" "seg \<subseteq> used B ns"
  shows "scan_post kz B pm (seg \<union> cov) ns r"
  using assms by (auto simp: scan_post_def split: option.splits)

lemma scan_maps_spec:
  "maps_ok B pm ns \<Longrightarrow> m \<le> (pm - 1) div B \<Longrightarrow> off < B \<Longrightarrow> mk_pid B m off < pm \<Longrightarrow> lst = last_pid ns \<Longrightarrow>
   scan_post kz B pm (cover B pm i m off) ns (scan_maps kz B pm lst i m off (mk_pid B m off) ns)"
proof (induction i arbitrary: m off ns)
  case 0
  then show ?case by (simp add: scan_post_def)
next
  case (Suc i)
  define mp where "mp = (if page (pidmaps ns ! m) = None \<and> kz m then (pidmaps ns ! m)\<lparr>page := Some {}\<rparr> else pidmaps ns ! m)"
  define ns1 where "ns1 = put_map m mp ns"
  have len: "m < length (pidmaps ns)" using Suc.prems(1,2) by (simp add: maps_ok_def)
  note inst = page_installed[OF Suc.prems(1) len mp_def, folded ns1_def]
  have l1: "last_pid ns1 = last_pid ns" by (simp add: ns1_def put_map_def)
  have at: "m < length (pidmaps ns1)" "pidmaps ns1 ! m = mp" using len by (simp_all add: ns1_def put_map_def)
  have step: "scan_maps kz B pm lst (Suc i) m off (mk_pid B m off) ns =
      (case page mp of
        None \<Rightarrow> (None, ns1)
      | Some p \<Rightarrow>
         (case (if nr_free mp \<noteq> 0 then find_free B pm m p (mk_pid B m off) off else None) of
            Some (pid', offset') \<Rightarrow>
              (Some pid', set_last_pid lst pid' (put_map m \<lparr>nr_free = nr_free mp - 1, page = Some (insert offset' p)\<rparr> ns))
          | None \<Rightarrow>
              if m < (pm - 1) div B then scan_maps kz B pm lst i (m + 1) 0 (mk_pid B (m + 1) 0) ns1
              else if lst = RESERVED_PIDS then (None, ns1)
              else scan_maps kz B pm lst i 0 RESERVED_PIDS (mk_pid B 0 RESERVED_PIDS) ns1))"
    by (simp only: scan_maps.simps Let_def mp_def[symmetric] put_map_def[symmetric] ns1_def[symmetric])
  show ?case
  proof (cases "page mp")
    case None
    then have "\<not> kz m" by (auto simp: mp_def split: if_splits)
    then show ?thesis unfolding step using None inst l1 by (auto simp: scan_post_def)
  next
    case (Some p)
    show ?thesis
    proof (cases "if nr_free mp \<noteq> 0 then find_free B pm m p (mk_pid B m off) off else None")
      case None
      have "\<forall>j. off \<le> j \<and> j < B \<and> mk_pid B m j < pm \<longrightarrow> j \<in> p"
      proof (cases "nr_free mp = 0")
        case True
        then show ?thesis using full_map[OF _ Some True] inst by auto
      next
        case False
        then show ?thesis using None find_free_spec[OF Suc.prems(3) refl Suc.prems(4), of p] by simp
      qed
      then have "{n. m * B + off \<le> n \<and> n < (m + 1) * B \<and> n < pm} \<subseteq> used B ns1"
        using Some at(2) by (intro segment_used[OF at(1)]) auto
      then have seg: "{n. m * B + off \<le> n \<and> n < (m + 1) * B \<and> n < pm} \<subseteq> used B ns" using inst by simp
      note later = scan_post_later[OF _ _ l1 seg]
      have B: "RESERVED_PIDS < B" "RESERVED_PIDS < pm" using Suc.prems(1) by (simp_all add: maps_ok_def)
      have ok1: "maps_ok B pm ns1" "lst = last_pid ns1" using inst l1 Suc.prems(5) by simp_all
      show ?thesis
      proof (cases "m < (pm - 1) div B")
        case True
        have "(m + 1) * B \<le> (pm - 1) div B * B" using True by (intro mult_right_mono) simp_all
        also have "\<dots> \<le> pm - 1" by (rule div_times_less_eq_dividend)
        finally have "mk_pid B (m + 1) 0 < pm" using B(2) by (simp add: mk_pid_def)
        then have "scan_post kz B pm (cover B pm i (m + 1) 0) ns1 (scan_maps kz B pm lst i (m + 1) 0 (mk_pid B (m + 1) 0) ns1)"
          using Suc.IH[of ns1 "m + 1" 0] ok1 True B by simp
        then show ?thesis unfolding step using later inst Some None True by simp
      next
        case last: False
        show ?thesis
        proof (cases "lst = RESERVED_PIDS")
          case True
          then show ?thesis unfolding step using Some None last inst l1 Suc.prems(5) by (simp add: scan_post_def)
        next
          case False
          have "scan_post kz B pm (cover B pm i 0 RESERVED_PIDS) ns1
              (scan_maps kz B pm lst i 0 RESERVED_PIDS (mk_pid B 0 RESERVED_PIDS) ns1)"
            using Suc.IH[of ns1 0 RESERVED_PIDS] ok1 B by (simp add: mk_pid_def)
          then show ?thesis unfolding step using later inst Some None last False by simp
        qed
      qed
    next
      case taken: (Some q)
      obtain pid' off' where q: "q = (pid', off')" by force
      have ff: "off' < B" "off' \<notin> p" "pid' = mk_pid B m off'" "pid' < pm"
        using taken q find_free_spec[OF Suc.prems(3) refl Suc.prems(4), of p] by (auto split: if_splits)
      let ?mp = "\<lparr>nr_free = nr_free mp - 1, page = Some (insert off' p)\<rparr>"
      have pg: "page (pidmaps ns ! m) = Some p \<or> page (pidmaps ns ! m) = None \<and> p = {}"
        using Some by (auto simp: mp_def split: if_splits)
      have u: "used B (put_map m ?mp ns) = insert pid' (used B ns)"
        using used_taken[OF len ff(1) pg, of ?mp] ff(3) by simp
      have "pid' \<notin> used B ns"
        using pg ff(1-3) div_mod_mk_pid[OF ff(1), of m] used_at[OF len, of pid' B] by auto
      moreover have "maps_ok B pm (put_map m ?mp ns)"
        using maps_ok_put_map[OF Suc.prems(1) map_taken_ok[OF _ Some ff(1,2)]] inst by blast
      moreover have "last_pid (put_map m ?mp ns) = lst" using Suc.prems(5) by (simp add: put_map_def)
      ultimately show ?thesis
        unfolding step using Some taken q u ff(4) by (simp add: scan_post_def maps_ok_def used_def)
    qed
  qed
qed

section \<open>What a whole scan looks at\<close>

lemma cover_ahead:
  "0 < B \<Longrightarrow> m + k \<le> (pm - 1) div B + 1 \<Longrightarrow> {n. m * B + off \<le> n \<and> n < (m + k) * B \<and> n < pm} \<subseteq> cover B pm k m off"
proof (induction k arbitrary: m off)
  case (Suc k)
  show ?case
  proof
    fix n
    assume n: "n \<in> {n. m * B + off \<le> n \<and> n < (m + Suc k) * B \<and> n < pm}"
    show "n \<in> cover B pm (Suc k) m off"
    proof (cases "n < (m + 1) * B")
      case True
      then show ?thesis using n by simp
    next
      case False
      have "(m + 1) * B \<le> pm - 1" using False n by auto
      then have lt: "m < (pm - 1) div B" using Suc.prems(1) less_eq_div_iff_mult_less_eq[of B "m + 1" "pm - 1"] by simp
      have "n \<in> {n. (m + 1) * B + 0 \<le> n \<and> n < (m + 1 + k) * B \<and> n < pm}" using False n by simp
      then have "n \<in> cover B pm k (m + 1) 0" using Suc.IH[of "m + 1" 0] Suc.prems by auto
      then show ?thesis using lt by simp
    qed
  qed
qed simp

lemma cover_step: "m < (pm - 1) div B \<Longrightarrow> cover B pm j (m + 1) 0 \<subseteq> cover B pm (Suc j) m off"
  by simp

lemma cover_mono: "cover B pm a m off \<subseteq> cover B pm (a + b) m off"
proof (induction a arbitrary: m off)
  case (Suc a)
  have "cover B pm a (m + 1) 0 \<subseteq> cover B pm (a + b) (m + 1) 0" "cover B pm a 0 RESERVED_PIDS \<subseteq> cover B pm (a + b) 0 RESERVED_PIDS"
    by (rule Suc.IH)+
  then show ?case by (cases "m < (pm - 1) div B") auto
qed simp

lemma cover_wraps:
  "m \<le> (pm - 1) div B \<Longrightarrow> cover B pm k 0 RESERVED_PIDS \<subseteq> cover B pm (Suc ((pm - 1) div B - m) + k) m off"
proof (induction "(pm - 1) div B - m" arbitrary: m off)
  case 0
  then show ?case by simp
next
  case (Suc d)
  have "d = (pm - 1) div B - (m + 1)" "m + 1 \<le> (pm - 1) div B" using Suc.hyps(2) by simp_all
  from Suc.hyps(1)[OF this, of 0]
  have "cover B pm k 0 RESERVED_PIDS \<subseteq> cover B pm (Suc ((pm - 1) div B - (m + 1)) + k) (m + 1) 0" .
  also have "\<dots> \<subseteq> cover B pm (Suc (Suc ((pm - 1) div B - (m + 1)) + k)) m off"
    using Suc.hyps(2) by (intro cover_step) simp
  also have "Suc (Suc ((pm - 1) div B - (m + 1)) + k) = Suc ((pm - 1) div B - m) + k" using Suc.hyps(2) by simp
  finally show ?case .
qed

lemma div_round_up: "0 < B \<Longrightarrow> 0 < pm \<Longrightarrow> (pm + B - 1) div B = (pm - 1) div B + (1 :: nat)"
proof -
  assume "0 < B" "0 < pm"
  have "(pm + B - 1) div B = ((pm - 1) + B) div B" using \<open>0 < pm\<close> by (intro arg_cong[of _ _ "\<lambda>x. x div B"]) linarith
  also have "\<dots> = (pm - 1) div B + 1" using \<open>0 < B\<close> by (intro div_add_self2) simp
  finally show ?thesis .
qed

text \<open>A scan looks at every number that is not reserved.\<close>

lemma cover_all:
  assumes "0 < B" "pid < pm" "off = pid mod B" "m = pid div B"
  shows "{n. RESERVED_PIDS \<le> n \<and> n < pm} \<subseteq> cover B pm (Suc ((pm + B - 1) div B - (if off = 0 then 1 else 0))) m off"
proof
  define M where "M = (pm - 1) div B"
  fix n
  assume n: "n \<in> {n. RESERVED_PIDS \<le> n \<and> n < pm}"
  have mM: "m \<le> M" using assms(2,4) by (simp add: M_def div_le_mono)
  define k where "k = m + (if off = 0 then 0 else 1)"
  have start: "m * B + off = pid" using assms(3,4) by simp
  have turns: "Suc ((pm + B - 1) div B - (if off = 0 then 1 else 0)) = Suc (M - m) + k"
    using mM div_round_up[OF assms(1), of pm] assms(2) by (auto simp: k_def M_def)
  have below: "{n. RESERVED_PIDS \<le> n \<and> n < k * B \<and> n < pm} \<subseteq> cover B pm (Suc (M - m) + k) m off"
  proof -
    have "k \<le> M + 1" using mM by (simp add: k_def)
    then have "{n. 0 * B + RESERVED_PIDS \<le> n \<and> n < (0 + k) * B \<and> n < pm} \<subseteq> cover B pm k 0 RESERVED_PIDS"
      using assms(1) by (intro cover_ahead) (simp_all add: M_def)
    then show ?thesis using cover_wraps[of m pm B k off] mM by (simp add: M_def)
  qed
  have above: "{n. pid \<le> n \<and> n < pm} \<subseteq> cover B pm (Suc (M - m) + k) m off"
  proof -
    have a: "{n. m * B + off \<le> n \<and> n < (m + Suc (M - m)) * B \<and> n < pm} \<subseteq> cover B pm (Suc (M - m)) m off"
      using assms(1) mM by (intro cover_ahead) (simp_all add: M_def)
    have le: "pm \<le> (m + Suc (M - m)) * B"
    proof -
      have "pm - 1 < B + M * B" using dividend_less_div_times[OF assms(1), of "pm - 1"] by (simp add: M_def)
      moreover have "(m + Suc (M - m)) * B = B + M * B" using mM by simp
      ultimately show ?thesis using assms(2) by linarith
    qed
    have "{n. pid \<le> n \<and> n < pm} \<subseteq> {n. m * B + off \<le> n \<and> n < (m + Suc (M - m)) * B \<and> n < pm}"
      unfolding start by (rule Collect_mono) (use le in linarith)
    then have "{n. pid \<le> n \<and> n < pm} \<subseteq> cover B pm (Suc (M - m)) m off" using a by (rule subset_trans)
    then show ?thesis using cover_mono[of B pm "Suc (M - m)" m off k] by (rule subset_trans)
  qed
  have "n < k * B \<or> pid \<le> n" using start assms(1) mod_less_divisor[OF assms(1), of pid] assms(3)
    by (cases "off = 0") (auto simp: k_def)
  then show "n \<in> cover B pm (Suc ((pm + B - 1) div B - (if off = 0 then 1 else 0))) m off"
    unfolding turns using above below n by blast
qed

lemma alloc_pidmap_spec:
  assumes "maps_ok B pm ns" "last_pid ns < pm"
  shows "scan_post kz B pm {n. RESERVED_PIDS \<le> n \<and> n < pm} ns (alloc_pidmap kz B pm ns)"
proof -
  define pid where "pid = (if last_pid ns + 1 \<ge> pm then RESERVED_PIDS else last_pid ns + 1)"
  have B: "RESERVED_PIDS < B" "RESERVED_PIDS < pm" using assms(1) by (simp_all add: maps_ok_def)
  have p: "pid < pm" using B by (simp add: pid_def)
  define k where "k = Suc ((pm + B - 1) div B - (if pid mod B = 0 then 1 else 0))"
  have eq: "alloc_pidmap kz B pm ns = scan_maps kz B pm (last_pid ns) k (pid div B) (pid mod B) (mk_pid B (pid div B) (pid mod B)) ns"
    by (simp add: alloc_pidmap_def Let_def pid_def k_def mk_pid_def del: scan_maps.simps)
  have "scan_post kz B pm (cover B pm k (pid div B) (pid mod B)) ns (alloc_pidmap kz B pm ns)"
    unfolding eq using assms(1) p B by (intro scan_maps_spec) (simp_all add: mk_pid_def div_le_mono)
  moreover have "{n. RESERVED_PIDS \<le> n \<and> n < pm} \<subseteq> cover B pm k (pid div B) (pid mod B)"
    unfolding k_def using B p by (intro cover_all) simp_all
  ultimately show ?thesis by (auto simp: scan_post_def split: option.splits)
qed

section \<open>Freeing and walking\<close>

lemma free_pidmap_spec:
  assumes "maps_ok B pm ns" "nr \<in> used B ns"
  shows "maps_ok B pm (free_pidmap B nr ns) \<and> used B (free_pidmap B nr ns) = used B ns - {nr}
    \<and> last_pid (free_pidmap B nr ns) = last_pid ns"
proof -
  define m where "m = nr div B"
  have len: "m < length (pidmaps ns)" using assms(2) by (simp add: used_def m_def)
  obtain p where p: "page (pidmaps ns ! m) = Some p" "nr mod B \<in> p"
    using assms(2) by (auto simp: used_def m_def split: option.splits)
  define mp where "mp = (pidmaps ns ! m)\<lparr>page := Some (p - {nr mod B}), nr_free := nr_free (pidmaps ns ! m) + 1\<rparr>"
  have eq: "free_pidmap B nr ns = put_map m mp ns"
    using p(1) by (simp add: free_pidmap_def put_map_def mp_def m_def Let_def)
  have ok: "map_ok B (pidmaps ns ! m)" by (rule map_ok_nth[OF assms(1) len])
  then have fin: "finite p" using p(1) by (auto simp: map_ok_def intro: finite_subset)
  have "card p = card (p - {nr mod B}) + 1" using card.remove[OF fin p(2)] by linarith
  then have "map_ok B mp" using ok p(1) by (auto simp: map_ok_def mp_def)
  moreover have "n \<in> used B (put_map m mp ns) \<longleftrightarrow> n \<in> used B ns - {nr}" for n
  proof (cases "n div B = m")
    case True
    have "n = nr \<longleftrightarrow> n mod B = nr mod B" using True m_def by (metis div_mult_mod_eq)
    then show ?thesis using True p(1) used_at[OF len True] by (auto simp: used_put_map[OF len] mp_def)
  next
    case False
    then have "n \<noteq> nr" by (auto simp: m_def)
    then show ?thesis using False by (simp add: used_put_map[OF len])
  qed
  ultimately show ?thesis unfolding eq using maps_ok_put_map[OF assms(1)] by (auto simp: put_map_def)
qed

lemma next_map_spec:
  assumes "0 < B" "m + length mps = length (pidmaps ns)" "drop m (pidmaps ns) = mps" "off < B"
  shows "case next_map B m off mps of
      Some n \<Rightarrow> n \<in> used B ns \<and> m * B + off \<le> n \<and> (\<forall>j. m * B + off \<le> j \<and> j < n \<longrightarrow> j \<notin> used B ns)
    | None \<Rightarrow> \<forall>j. m * B + off \<le> j \<longrightarrow> j \<notin> used B ns"
  using assms(2-4)
proof (induction B m off mps rule: next_map.induct)
  case (1 B m off)
  have "j \<notin> used B ns" if "m * B + off \<le> j" for j
  proof -
    have "m \<le> j div B" using that "1.prems"(3) less_eq_div_iff_mult_less_eq[of B m j] by simp
    then show ?thesis using "1.prems"(1) by (simp add: used_def)
  qed
  then show ?case by simp
next
  case (2 B m off mp mps)
  have len: "m < length (pidmaps ns)" using "2.prems"(1) by simp
  have mp: "pidmaps ns ! m = mp" "drop (Suc m) (pidmaps ns) = mps"
    using "2.prems"(2) len by (simp_all add: Cons_nth_drop_Suc[symmetric])
  have B: "0 < B" using "2.prems"(3) by simp
  have seg: "j div B = m \<and> j mod B = j - m * B" if "m * B \<le> j" "j < Suc m * B" for j
    using div_mod_mk_pid[of "j - m * B" B m] that by (simp add: mk_pid_def)
  have at: "j \<in> used B ns \<longleftrightarrow> (case page mp of None \<Rightarrow> False | Some p \<Rightarrow> j - m * B \<in> p)"
    if "m * B \<le> j" "j < Suc m * B" for j
    using used_at[OF len, of j B] seg[OF that] mp(1) by (cases "page mp") simp_all
  have join: "case next_map B (Suc m) 0 mps of
      Some n \<Rightarrow> n \<in> used B ns \<and> m * B + off \<le> n \<and> (\<forall>j. m * B + off \<le> j \<and> j < n \<longrightarrow> j \<notin> used B ns)
    | None \<Rightarrow> \<forall>j. m * B + off \<le> j \<longrightarrow> j \<notin> used B ns"
    if free: "\<And>j. m * B + off \<le> j \<Longrightarrow> j < Suc m * B \<Longrightarrow> j \<notin> used B ns"
      and ih: "case next_map B (Suc m) 0 mps of
          Some n \<Rightarrow> n \<in> used B ns \<and> Suc m * B + 0 \<le> n \<and> (\<forall>j. Suc m * B + 0 \<le> j \<and> j < n \<longrightarrow> j \<notin> used B ns)
        | None \<Rightarrow> \<forall>j. Suc m * B + 0 \<le> j \<longrightarrow> j \<notin> used B ns"
  proof (cases "next_map B (Suc m) 0 mps")
    case None
    have "j \<notin> used B ns" if "m * B + off \<le> j" for j
      using free[OF that] ih None by (cases "j < Suc m * B") (simp_all del: mult_Suc)
    then show ?thesis using None by simp
  next
    case (Some n)
    have "m * B + off \<le> n" using ih Some "2.prems"(3) by simp
    moreover have "j \<notin> used B ns" if "m * B + off \<le> j" "j < n" for j
      using free[OF that(1)] ih Some that(2) by (cases "j < Suc m * B") (simp_all del: mult_Suc)
    ultimately show ?thesis using Some ih by simp
  qed
  have pr: "Suc m + length mps = length (pidmaps ns)" using "2.prems"(1) by simp
  show ?case
  proof (cases "page mp")
    case None
    then show ?thesis using join at "2.IH"(1)[OF None pr mp(2) B] by simp
  next
    case (Some p)
    note z = find_next_bit_spec[of p B off]
    show ?thesis
    proof (cases "find_next_bit p B off < B")
      case True
      define o' where "o' = find_next_bit p B off"
      have "mk_pid B m o' \<in> used B ns" "m * B + off \<le> mk_pid B m o'"
        using True z at[of "mk_pid B m o'"] Some by (simp_all add: o'_def mk_pid_def)
      moreover have "j \<notin> used B ns" if "m * B + off \<le> j" "j < mk_pid B m o'" for j
      proof -
        have "j - m * B < o'" "off \<le> j - m * B" "j < Suc m * B" using that True by (auto simp: o'_def mk_pid_def)
        then show ?thesis using z True at[of j] Some that(1) by (simp add: o'_def)
      qed
      ultimately show ?thesis using True Some by (simp add: o'_def Let_def)
    next
      case False
      have "j \<notin> used B ns" if "m * B + off \<le> j" "j < Suc m * B" for j
      proof -
        have "off \<le> j - m * B" "j - m * B < B" using that by auto
        then show ?thesis using z False at[of j] Some that by simp
      qed
      then show ?thesis using join "2.IH"(2)[OF Some refl False pr mp(2) B] Some False by (simp add: Let_def)
    qed
  qed
qed

section \<open>Properties\<close>

text \<open>
  C5. Allocation of a process number. The bitmaps stay consistent with their counters. A number
  that is returned is below the maximum and was free, is now in use, is the last number, and
  no other number changes. When the allocation fails nothing changes, and if there was memory
  for the bitmaps and the last number was not 300, then every number that is not reserved is
  in use.
\<close>

theorem alloc_pidmap_correct:
  assumes "maps_ok B pm ns" "last_pid ns < pm" "alloc_pidmap kz B pm ns = (r, ns')"
  shows "maps_ok B pm ns' \<and> (case r of
      Some pid \<Rightarrow> pid < pm \<and> pid \<notin> used B ns \<and> used B ns' = insert pid (used B ns) \<and> last_pid ns' = pid
    | None \<Rightarrow> used B ns' = used B ns \<and> last_pid ns' = last_pid ns
        \<and> ((\<forall>m. kz m) \<and> last_pid ns \<noteq> RESERVED_PIDS \<longrightarrow> {n. RESERVED_PIDS \<le> n \<and> n < pm} \<subseteq> used B ns))"
  using alloc_pidmap_spec[OF assms(1,2), of kz] assms(3) by (cases r) (auto simp: scan_post_def)

lemma pidmap_init_ok:
  assumes "RESERVED_PIDS < B" "RESERVED_PIDS < pm" "(pm - 1) div B < n"
  shows "maps_ok B pm (pidmap_init B (init_pid_ns B n)) \<and> used B (pidmap_init B (init_pid_ns B n)) = {0}"
proof -
  define mp0 where "mp0 = \<lparr>nr_free = int B - 1, page = Some {0}\<rparr>"
  have n: "0 < n" using assms(3) by simp
  have pg: "pidmaps (pidmap_init B (init_pid_ns B n)) = (replicate n (new_pidmap B))[0 := mp0]"
    using n by (simp add: pidmap_init_def init_pid_ns_def new_pidmap_def mp0_def)
  have ok: "map_ok B (new_pidmap B)" "map_ok B mp0"
    using assms(1) by (simp_all add: map_ok_def new_pidmap_def mp0_def)
  have "set ((replicate n (new_pidmap B))[0 := mp0]) \<subseteq> {mp0, new_pidmap B}"
    using set_update_subset_insert[of "replicate n (new_pidmap B)" 0 mp0] n by simp
  then have "list_all (map_ok B) ((replicate n (new_pidmap B))[0 := mp0])"
    using ok by (auto simp: list_all_iff)
  then have "maps_ok B pm (pidmap_init B (init_pid_ns B n))" using assms by (simp add: maps_ok_def pg)
  moreover have "j \<in> used B (pidmap_init B (init_pid_ns B n)) \<longleftrightarrow> j = 0" for j
  proof (cases "j div B = 0")
    case True
    then have "j < B" using assms(1) by (simp add: div_eq_0_iff)
    then show ?thesis using n by (simp add: used_def pg mp0_def)
  next
    case False
    then show ?thesis by (auto simp: used_def pg new_pidmap_def)
  qed
  ultimately show ?thesis by (simp add: set_eq_iff)
qed

theorem alloc_pidmap_correct_witness:
  "fst (alloc_pidmap (\<lambda>_. True) 512 600 (pidmap_init 512 (init_pid_ns 512 2))) = Some 1
   \<and> used 512 (snd (alloc_pidmap (\<lambda>_. True) 512 600 (pidmap_init 512 (init_pid_ns 512 2)))) = {0, 1}"
proof -
  let ?ns = "pidmap_init 512 (init_pid_ns 512 2)"
  have ok: "maps_ok 512 600 ?ns" "used 512 ?ns = {0}" using pidmap_init_ok[of 512 600 2] by (simp_all add: RESERVED_PIDS_def)
  have "alloc_pidmap (\<lambda>_. True) 512 600 ?ns = scan_maps (\<lambda>_. True) 512 600 0 (Suc 2) 0 1 1 ?ns"
    by (simp add: alloc_pidmap_def pidmap_init_def init_pid_ns_def del: scan_maps.simps)
  also have "fst \<dots> = Some 1" unfolding scan_maps.simps(2)
    by (simp add: pidmap_init_def init_pid_ns_def new_pidmap_def find_free.simps numeral_2_eq_2 del: scan_maps.simps)
  finally have f: "fst (alloc_pidmap (\<lambda>_. True) 512 600 ?ns) = Some 1" .
  then have r: "alloc_pidmap (\<lambda>_. True) 512 600 ?ns = (Some 1, snd (alloc_pidmap (\<lambda>_. True) 512 600 ?ns))"
    by (metis prod.collapse)
  have "last_pid ?ns < 600" by (simp add: pidmap_init_def init_pid_ns_def)
  from alloc_pidmap_correct[OF ok(1) this r] have u: "used 512 (snd (alloc_pidmap (\<lambda>_. True) 512 600 ?ns)) = {1, 0}"
    unfolding ok(2) option.case by blast
  show ?thesis unfolding f u by (simp add: insert_commute)
qed

text \<open>
  C40. The walk over the numbers in use. \<^verbatim>\<open>next_pidmap\<close> returns the least number in use above the
  given one, and none exactly if there is none.
\<close>

theorem next_pidmap_least:
  assumes "0 < B" "lst < PID_MAX_LIMIT" "(lst + 1) div B \<le> length (pidmaps ns)"
  shows "case next_pidmap B PID_MAX_LIMIT ns lst of
      Some n \<Rightarrow> n \<in> used B ns \<and> lst < n \<and> (\<forall>j. lst < j \<and> j < n \<longrightarrow> j \<notin> used B ns)
    | None \<Rightarrow> \<forall>j. lst < j \<longrightarrow> j \<notin> used B ns"
proof -
  have st: "(lst + 1) div B * B + (lst + 1) mod B = lst + 1" by (rule div_mult_mod_eq)
  have "(lst + 1) div B + length (drop ((lst + 1) div B) (pidmaps ns)) = length (pidmaps ns)"
    using assms(3) by simp
  from next_map_spec[OF assms(1) this refl mod_less_divisor[OF assms(1)], of "lst + 1", unfolded st]
  show ?thesis
    using assms(2) by (cases "next_pidmap B PID_MAX_LIMIT ns lst") (simp_all add: next_pidmap_def Suc_le_eq)
qed

theorem next_pidmap_least_witness:
  "case next_pidmap 512 1024 (pidmap_init 512 (init_pid_ns 512 2)) 0 of
     Some n \<Rightarrow> n \<in> used 512 (pidmap_init 512 (init_pid_ns 512 2)) \<and> 0 < n
   | None \<Rightarrow> \<forall>j. 0 < j \<longrightarrow> j \<notin> used 512 (pidmap_init 512 (init_pid_ns 512 2))"
  using next_pidmap_least[of 512 0 1024 "pidmap_init 512 (init_pid_ns 512 2)"] by (simp split: option.splits)

text \<open>
  Racing allocations. However the values of \<^verbatim>\<open>last_pid\<close> change under it, \<^verbatim>\<open>set_last_pid\<close> stores
  its number exactly if the value it last saw comes before that number on the way from the
  number at which the search began, numbers taken modulo \<open>2 ^ 32\<close>: the later number wins.
\<close>

lemma set_last_loop_later:
  "set_last_loop base pid prev seen = Some stored \<Longrightarrow> pid_before base prev pid \<Longrightarrow>
   \<exists>v \<in> set seen. stored = pid_before base v pid"
  by (induction base pid prev seen rule: set_last_loop.induct) (auto split: if_splits)

lemma pid_before_base: "pid_before base base pid \<longleftrightarrow> (word_of_int pid :: u32) \<noteq> word_of_int base"
  by (simp add: pid_before_def word_neq_0_conv[symmetric])

theorem later_pid_wins:
  assumes "set_last_loop base pid base seen = Some stored" "(word_of_int pid :: u32) \<noteq> word_of_int base"
  shows "\<exists>v \<in> set seen. stored = pid_before base v pid"
  using set_last_loop_later[OF assms(1)] assms(2) by (simp add: pid_before_base)

theorem later_pid_wins_witness:
  "set_last_loop 32000 310 32000 [305, 305] = Some True \<and> (\<exists>v \<in> set [305, 305 :: int]. pid_before 32000 v 310)"
proof -
  have "set_last_loop 32000 310 32000 [305, 305] = Some True" by (simp add: pid_before_def)
  with later_pid_wins[OF this] show ?thesis by simp
qed

end
