(* ===== verification/Pid_Struct.thy ===== *)
theory Pid_Struct
  imports Pid_Map_Correct
begin

text \<open>
  Process numbers across nested namespaces (\<^verbatim>\<open>msm/kernel/pid.c\<close>): \<^verbatim>\<open>alloc_pid\<close> takes a number in a
  namespace and in all its ancestors and enters them into the hash table, \<^verbatim>\<open>free_pid\<close> gives them
  back, \<^verbatim>\<open>find_pid_ns\<close> looks one up.

  Namespaces and \<^verbatim>\<open>struct pid\<close> are at addresses (numbers). \<open>H\<close> is the hash function, \<open>ADDING\<close> the flag
  \<^verbatim>\<open>PIDNS_HASH_ADDING\<close> of \<^verbatim>\<open>nr_hashed\<close>, \<open>reaper\<close> the function \<^verbatim>\<open>is_child_reaper\<close>; these are in headers outside the
  repository. The lists are those of \<^verbatim>\<open>hlist\<close>, first entry first. Locks and the grace period of
  read-copy-update are left out: each operation is atomic, and \<open>Delayed_Put\<close> is the call of \<^verbatim>\<open>put_pid\<close>
  that follows the grace period.
\<close>

record upid =
  up_nr :: nat
  up_ns :: nat

record pid_namespace =
  n_maps :: pid_bitmaps
  n_level :: nat
  n_parent :: nat
  nr_hashed :: u32

datatype pid_type = PIDTYPE_PID | PIDTYPE_PGID | PIDTYPE_SID

record pid_struct =
  p_level :: nat
  numbers :: "upid list"
  p_count :: int
  p_tasks :: "pid_type \<Rightarrow> nat list"

datatype pid_event =
    Get_Ns nat
  | Put_Ns nat
  | Wake_Reaper nat
  | Schedule_Proc_Work nat
  | Delayed_Put nat

record pid_kernel =
  spaces :: "nat \<Rightarrow> pid_namespace"
  pid_table :: "nat \<rightharpoonup> pid_struct"
  pid_hash :: "nat \<Rightarrow> (upid \<times> nat) list"
  task_pids :: "nat \<Rightarrow> pid_type \<Rightarrow> nat option"
  pid_events :: "pid_event list"

definition set_maps :: "nat \<Rightarrow> pid_bitmaps \<Rightarrow> (nat \<Rightarrow> pid_namespace) \<Rightarrow> nat \<Rightarrow> pid_namespace" where
  "set_maps n mm sp = sp(n := (sp n)\<lparr>n_maps := mm\<rparr>)"

text \<open>The loop over the levels, from the namespace up to the root; the numbers found so far are kept.\<close>

fun alloc_levels ::
  "(nat \<Rightarrow> bool) \<Rightarrow> nat \<Rightarrow> nat \<Rightarrow> nat \<Rightarrow> nat \<Rightarrow> upid list \<Rightarrow> (nat \<Rightarrow> pid_namespace)
   \<Rightarrow> bool \<times> upid list \<times> (nat \<Rightarrow> pid_namespace)" where
  "alloc_levels kz B pm 0 tmp ups sp = (True, ups, sp)"
| "alloc_levels kz B pm (Suc i) tmp ups sp =
     (case alloc_pidmap kz B pm (n_maps (sp tmp)) of
        (None, mm) \<Rightarrow> (False, ups, set_maps tmp mm sp)
      | (Some nr, mm) \<Rightarrow>
          alloc_levels kz B pm i (n_parent (sp tmp)) (\<lparr>up_nr = nr, up_ns = tmp\<rparr> # ups) (set_maps tmp mm sp))"

definition free_upid :: "nat \<Rightarrow> upid \<Rightarrow> (nat \<Rightarrow> pid_namespace) \<Rightarrow> nat \<Rightarrow> pid_namespace" where
  "free_upid B u sp = set_maps (up_ns u) (free_pidmap B (up_nr u) (n_maps (sp (up_ns u)))) sp"

definition hash_add :: "(nat \<Rightarrow> nat \<Rightarrow> nat) \<Rightarrow> nat \<Rightarrow> upid \<Rightarrow> pid_kernel \<Rightarrow> pid_kernel" where
  "hash_add H addr u st =
     (let b = H (up_nr u) (up_ns u); n = up_ns u in
      st\<lparr>pid_hash := (pid_hash st)(b := (u, addr) # pid_hash st b),
         spaces := (spaces st)(n := (spaces st n)\<lparr>nr_hashed := nr_hashed (spaces st n) + 1\<rparr>)\<rparr>)"

text \<open>
  \<open>addr\<close> is the result of \<^verbatim>\<open>kmem_cache_alloc\<close>, \<open>proc_ok\<close> whether \<^verbatim>\<open>pid_ns_prepare_proc\<close> succeeds. The
  numbers are hashed from the namespace up to the root.
\<close>

definition alloc_pid ::
  "(nat \<Rightarrow> nat \<Rightarrow> nat) \<Rightarrow> u32 \<Rightarrow> (pid_struct \<Rightarrow> bool) \<Rightarrow> (nat \<Rightarrow> bool) \<Rightarrow> nat \<Rightarrow> nat \<Rightarrow> nat option \<Rightarrow> bool \<Rightarrow> nat \<Rightarrow> pid_kernel
   \<Rightarrow> nat option \<times> pid_kernel" where
  "alloc_pid H ADDING reaper kz B pm addr proc_ok ns st =
     (case addr of
        None \<Rightarrow> (None, st)
      | Some a \<Rightarrow>
         (case alloc_levels kz B pm (Suc (n_level (spaces st ns))) ns [] (spaces st) of
            (ok, ups, sp) \<Rightarrow>
              let p = \<lparr>p_level = n_level (spaces st ns), numbers = ups, p_count = 1, p_tasks = (\<lambda>_. [])\<rparr>;
                  freed = fold (free_upid B) ups sp in
              if \<not> ok \<or> reaper p \<and> \<not> proc_ok then (None, st\<lparr>spaces := freed\<rparr>)
              else if nr_hashed (sp ns) AND ADDING = 0 then
                (None, st\<lparr>spaces := freed, pid_events := pid_events st @ [Get_Ns ns, Put_Ns ns]\<rparr>)
              else (Some a, fold (hash_add H a) (rev ups)
                     (st\<lparr>spaces := sp, pid_table := (pid_table st)(a \<mapsto> p),
                         pid_events := pid_events st @ [Get_Ns ns]\<rparr>))))"

definition find_pid_ns :: "(nat \<Rightarrow> nat \<Rightarrow> nat) \<Rightarrow> nat \<Rightarrow> nat \<Rightarrow> pid_kernel \<Rightarrow> nat option" where
  "find_pid_ns H nr ns st =
     map_option snd (List.find (\<lambda>(u, _). up_nr u = nr \<and> up_ns u = ns) (pid_hash st (H nr ns)))"

definition unhash :: "(nat \<Rightarrow> nat \<Rightarrow> nat) \<Rightarrow> nat \<Rightarrow> upid \<Rightarrow> pid_kernel \<Rightarrow> pid_kernel" where
  "unhash H addr u st =
     (let b = H (up_nr u) (up_ns u); n = up_ns u; c = nr_hashed (spaces st n) - 1 in
      st\<lparr>pid_hash := (pid_hash st)(b := remove1 (u, addr) (pid_hash st b)),
         spaces := (spaces st)(n := (spaces st n)\<lparr>nr_hashed := c\<rparr>),
         pid_events := pid_events st @
           (if c = 2 \<or> c = 1 then [Wake_Reaper n] else if c = 0 then [Schedule_Proc_Work n] else [])\<rparr>)"

text \<open>The address is one of a structure in the table.\<close>

definition free_pid :: "(nat \<Rightarrow> nat \<Rightarrow> nat) \<Rightarrow> nat \<Rightarrow> nat \<Rightarrow> pid_kernel \<Rightarrow> pid_kernel" where
  "free_pid H B addr st =
     (case pid_table st addr of
        None \<Rightarrow> st
      | Some p \<Rightarrow>
         let st1 = fold (unhash H addr) (numbers p) st in
         st1\<lparr>spaces := fold (free_upid B) (numbers p) (spaces st1), pid_events := pid_events st1 @ [Delayed_Put addr]\<rparr>)"

text \<open>The last reference frees the structure and drops its reference to the namespace.\<close>

definition put_pid :: "nat option \<Rightarrow> pid_kernel \<Rightarrow> pid_kernel" where
  "put_pid pid st =
     (case pid of
        None \<Rightarrow> st
      | Some a \<Rightarrow>
         (case pid_table st a of
            None \<Rightarrow> st
          | Some p \<Rightarrow>
             if p_count p = 1 \<or> p_count p - 1 = 0 then
               st\<lparr>pid_table := (pid_table st)(a := None),
                  pid_events := pid_events st @ [Put_Ns (up_ns (numbers p ! p_level p))]\<rparr>
             else st\<lparr>pid_table := (pid_table st)(a \<mapsto> p\<lparr>p_count := p_count p - 1\<rparr>)\<rparr>))"

definition disable_pid_allocation :: "u32 \<Rightarrow> nat \<Rightarrow> pid_kernel \<Rightarrow> pid_kernel" where
  "disable_pid_allocation ADDING ns st =
     st\<lparr>spaces := (spaces st)(ns := (spaces st ns)\<lparr>nr_hashed := nr_hashed (spaces st ns) AND NOT ADDING\<rparr>)\<rparr>"

definition pid_nr_ns :: "pid_struct option \<Rightarrow> nat \<Rightarrow> pid_kernel \<Rightarrow> nat" where
  "pid_nr_ns p ns st =
     (case p of
        None \<Rightarrow> 0
      | Some q \<Rightarrow>
         if n_level (spaces st ns) \<le> p_level q then
           (let u = numbers q ! n_level (spaces st ns) in if up_ns u = ns then up_nr u else 0)
         else 0)"

text \<open>The tasks of a \<^verbatim>\<open>struct pid\<close>. A task is in a list through its own link.\<close>

definition map_tasks :: "nat \<Rightarrow> pid_type \<Rightarrow> (nat list \<Rightarrow> nat list) \<Rightarrow> pid_kernel \<Rightarrow> pid_kernel" where
  "map_tasks a ty f st =
     st\<lparr>pid_table := (pid_table st)(a := map_option (\<lambda>p. p\<lparr>p_tasks := (p_tasks p)(ty := f (p_tasks p ty))\<rparr>) (pid_table st a))\<rparr>"

definition set_link :: "nat \<Rightarrow> pid_type \<Rightarrow> nat option \<Rightarrow> pid_kernel \<Rightarrow> pid_kernel" where
  "set_link task ty pid st = st\<lparr>task_pids := (task_pids st)(task := (task_pids st task)(ty := pid))\<rparr>"

definition attach_pid :: "nat \<Rightarrow> pid_type \<Rightarrow> nat \<Rightarrow> pid_kernel \<Rightarrow> pid_kernel" where
  "attach_pid task ty pid st = map_tasks pid ty (\<lambda>ts. task # ts) (set_link task ty (Some pid) st)"

definition no_tasks :: "pid_struct \<Rightarrow> bool" where
  "no_tasks p = list_all (\<lambda>ty. p_tasks p ty = []) [PIDTYPE_SID, PIDTYPE_PGID, PIDTYPE_PID]"

text \<open>\<^verbatim>\<open>__change_pid\<close>. It follows the link of the task; \<open>None\<close> is a null or stale pointer there.\<close>

definition change_pid_link ::
  "(nat \<Rightarrow> nat \<Rightarrow> nat) \<Rightarrow> nat \<Rightarrow> nat \<Rightarrow> pid_type \<Rightarrow> nat option \<Rightarrow> pid_kernel \<Rightarrow> pid_kernel option" where
  "change_pid_link H B task ty new st =
     (case task_pids st task ty of
        None \<Rightarrow> None
      | Some a \<Rightarrow>
         let st1 = set_link task ty new (map_tasks a ty (remove1 task) st) in
         (case pid_table st1 a of
            None \<Rightarrow> None
          | Some p \<Rightarrow> Some (if no_tasks p then free_pid H B a st1 else st1)))"

definition detach_pid :: "(nat \<Rightarrow> nat \<Rightarrow> nat) \<Rightarrow> nat \<Rightarrow> nat \<Rightarrow> pid_type \<Rightarrow> pid_kernel \<Rightarrow> pid_kernel option" where
  "detach_pid H B task ty st = change_pid_link H B task ty None st"

definition change_pid :: "(nat \<Rightarrow> nat \<Rightarrow> nat) \<Rightarrow> nat \<Rightarrow> nat \<Rightarrow> pid_type \<Rightarrow> nat \<Rightarrow> pid_kernel \<Rightarrow> pid_kernel option" where
  "change_pid H B task ty pid st = map_option (attach_pid task ty pid) (change_pid_link H B task ty (Some pid) st)"

definition transfer_pid :: "nat \<Rightarrow> nat \<Rightarrow> pid_type \<Rightarrow> pid_kernel \<Rightarrow> pid_kernel" where
  "transfer_pid old new ty st =
     (let st1 = set_link new ty (task_pids st old ty) st in
      (case task_pids st old ty of
         None \<Rightarrow> st1
       | Some a \<Rightarrow> map_tasks a ty (map (\<lambda>t. if t = old then new else t)) st1))"

definition pid_task :: "nat option \<Rightarrow> pid_type \<Rightarrow> pid_kernel \<Rightarrow> nat option" where
  "pid_task pid ty st =
     (case Option.bind pid (pid_table st) of
        None \<Rightarrow> None
      | Some p \<Rightarrow> (case p_tasks p ty of [] \<Rightarrow> None | t # _ \<Rightarrow> Some t))"

definition find_task_by_pid_ns :: "(nat \<Rightarrow> nat \<Rightarrow> nat) \<Rightarrow> nat \<Rightarrow> nat \<Rightarrow> pid_kernel \<Rightarrow> nat option" where
  "find_task_by_pid_ns H nr ns st = pid_task (find_pid_ns H nr ns st) PIDTYPE_PID st"

section \<open>Lemmas\<close>

definition all_used :: "nat \<Rightarrow> (nat \<Rightarrow> pid_namespace) \<Rightarrow> nat \<Rightarrow> nat set" where
  "all_used B sp n = used B (n_maps (sp n))"

definition spaces_ok :: "nat \<Rightarrow> nat \<Rightarrow> (nat \<Rightarrow> pid_namespace) \<Rightarrow> bool" where
  "spaces_ok B pm sp = (\<forall>n. maps_ok B pm (n_maps (sp n)) \<and> last_pid (n_maps (sp n)) < pm)"

text \<open>Taking back the numbers of a list, one after the other.\<close>

definition taken :: "nat \<Rightarrow> (nat \<Rightarrow> pid_namespace) \<Rightarrow> upid list \<Rightarrow> (nat \<Rightarrow> pid_namespace) \<Rightarrow> bool" where
  "taken B sp ups sp' = (distinct (map up_ns ups)
     \<and> (\<forall>u \<in> set ups. up_nr u \<notin> all_used B sp (up_ns u))
     \<and> (\<forall>n. all_used B sp' n = all_used B sp n \<union> {up_nr u | u. u \<in> set ups \<and> up_ns u = n})
     \<and> (\<forall>n. n_level (sp' n) = n_level (sp n) \<and> n_parent (sp' n) = n_parent (sp n) \<and> nr_hashed (sp' n) = nr_hashed (sp n)))"

lemma free_upid_spec:
  assumes "spaces_ok B pm sp" "up_nr u \<in> all_used B sp (up_ns u)"
  shows "spaces_ok B pm (free_upid B u sp)
    \<and> all_used B (free_upid B u sp) = (all_used B sp)(up_ns u := all_used B sp (up_ns u) - {up_nr u})"
proof -
  have "maps_ok B pm (n_maps (sp (up_ns u)))" using assms(1) by (simp add: spaces_ok_def)
  from free_pidmap_spec[OF this] assms(2) show ?thesis
    using assms(1) by (auto simp: spaces_ok_def free_upid_def set_maps_def all_used_def fun_eq_iff)
qed

lemma free_all_spec:
  "spaces_ok B pm sp' \<Longrightarrow> taken B sp ups sp' \<Longrightarrow>
   spaces_ok B pm (fold (free_upid B) ups sp') \<and> all_used B (fold (free_upid B) ups sp') = all_used B sp"
proof (induction ups arbitrary: sp')
  case Nil
  then show ?case by (simp add: taken_def fun_eq_iff)
next
  case (Cons u ups)
  have u: "up_nr u \<in> all_used B sp' (up_ns u)" using Cons.prems(2) by (auto simp: taken_def)
  note f = free_upid_spec[OF Cons.prems(1) u]
  have "taken B sp ups (free_upid B u sp')"
    unfolding taken_def
  proof (intro conjI allI)
    fix n
    show "all_used B (free_upid B u sp') n = all_used B sp n \<union> {up_nr v |v. v \<in> set ups \<and> up_ns v = n}"
      using Cons.prems(2) f by (auto simp: taken_def image_iff)
  qed (use Cons.prems(2) in \<open>auto simp: taken_def free_upid_def set_maps_def\<close>)
  then show ?case using Cons.IH f by simp
qed


lemma numbers_Cons:
  "{up_nr v |v. v \<in> set (u # ups) \<and> up_ns v = n}
   = (if up_ns u = n then {up_nr u} else {}) \<union> {up_nr v |v. v \<in> set ups \<and> up_ns v = n}"
  by auto

lemma taken_step:
  assumes "taken B sp0 ups sp" "spaces_ok B pm sp" "\<forall>u \<in> set ups. up_ns u \<noteq> tmp"
    "alloc_pidmap kz B pm (n_maps (sp tmp)) = (r, mm)"
  shows "spaces_ok B pm (set_maps tmp mm sp)
    \<and> taken B sp0 (case r of None \<Rightarrow> ups | Some nr \<Rightarrow> \<lparr>up_nr = nr, up_ns = tmp\<rparr> # ups) (set_maps tmp mm sp)"
proof -
  have ok: "maps_ok B pm (n_maps (sp tmp))" "last_pid (n_maps (sp tmp)) < pm" using assms(2) by (auto simp: spaces_ok_def)
  note post = alloc_pidmap_spec[OF ok, of kz, unfolded assms(4) scan_post_def]
  have same: "all_used B sp0 tmp = used B (n_maps (sp tmp))"
    using assms(1,3) by (auto simp: taken_def all_used_def)
  show ?thesis
  proof (cases r)
    case None
    then show ?thesis using post assms(1,2)
      by (auto simp: taken_def all_used_def set_maps_def spaces_ok_def)
  next
    case (Some nr)
    have u: "all_used B (set_maps tmp mm sp) n = (if n = tmp then insert nr (all_used B sp0 tmp) else all_used B sp n)" for n
      using post Some same by (auto simp: all_used_def set_maps_def)
    have "nr \<notin> all_used B sp0 tmp" using post Some same by simp
    moreover have "{up_nr v |v. v \<in> set (\<lparr>up_nr = nr, up_ns = tmp\<rparr> # ups) \<and> up_ns v = n}
        = (if n = tmp then {nr} else {}) \<union> {up_nr v |v. v \<in> set ups \<and> up_ns v = n}" for n
      by (subst numbers_Cons) auto
    then have "all_used B (set_maps tmp mm sp) n
        = all_used B sp0 n \<union> {up_nr v |v. v \<in> set (\<lparr>up_nr = nr, up_ns = tmp\<rparr> # ups) \<and> up_ns v = n}" for n
      using assms(1,3) u[of n] by (auto simp: taken_def)
    moreover have "spaces_ok B pm (set_maps tmp mm sp)" using post assms(2) Some by (auto simp: set_maps_def spaces_ok_def)
    ultimately show ?thesis using assms(1,3) Some
      unfolding taken_def by (auto simp: set_maps_def)
  qed
qed

text \<open>The parent of a namespace is one level below.\<close>

definition ns_tree :: "(nat \<Rightarrow> pid_namespace) \<Rightarrow> bool" where
  "ns_tree sp = (\<forall>n l. n_level (sp n) = Suc l \<longrightarrow> n_level (sp (n_parent (sp n))) = l)"


definition levels :: "(nat \<Rightarrow> pid_namespace) \<Rightarrow> upid list \<Rightarrow> nat list" where
  "levels sp ups = map (\<lambda>u. n_level (sp (up_ns u))) ups"

lemma alloc_levels_suffix:
  "alloc_levels kz B pm i tmp ups sp = (ok, ups', sp') \<Longrightarrow>
   \<exists>pre. ups' = pre @ ups \<and> (ok \<longrightarrow> length pre = i)"
proof (induction kz B pm i tmp ups sp rule: alloc_levels.induct)
  case (2 kz B pm i tmp ups sp)
  obtain r mm where a: "alloc_pidmap kz B pm (n_maps (sp tmp)) = (r, mm)" by (meson surj_pair)
  show ?case
  proof (cases r)
    case (Some nr)
    then obtain pre where "ups' = pre @ \<lparr>up_nr = nr, up_ns = tmp\<rparr> # ups" "ok \<longrightarrow> length pre = i"
      using "2.IH"[OF a[symmetric] Some] "2.prems" a by auto
    then show ?thesis by (intro exI[of _ "pre @ [\<lparr>up_nr = nr, up_ns = tmp\<rparr>]"]) simp
  qed (use "2.prems" a in simp)
qed simp

lemma alloc_levels_spec:
  assumes "ns_tree sp0"
  shows "taken B sp0 ups sp \<Longrightarrow> spaces_ok B pm sp \<Longrightarrow> \<forall>l \<in> set (levels sp0 ups). i \<le> l \<Longrightarrow>
    i = 0 \<or> Suc (n_level (sp0 tmp)) = i \<Longrightarrow>
    alloc_levels kz B pm i tmp ups sp = (ok, ups', sp') \<Longrightarrow>
    taken B sp0 ups' sp' \<and> spaces_ok B pm sp'
    \<and> (ok \<longrightarrow> levels sp0 ups' = [0..<i] @ levels sp0 ups
          \<and> (0 < i \<longrightarrow> up_ns (ups' ! (i - 1)) = tmp))"
proof (induction kz B pm i tmp ups sp rule: alloc_levels.induct)
  case (1 kz B pm tmp ups sp)
  then show ?case by simp
next
  case (2 kz B pm i tmp ups sp)
  obtain r mm where a: "alloc_pidmap kz B pm (n_maps (sp tmp)) = (r, mm)" by (meson surj_pair)
  have lv: "n_level (sp0 tmp) = i" using "2.prems"(4) by simp
  have ne: "\<forall>u \<in> set ups. up_ns u \<noteq> tmp" using "2.prems"(3) lv by (auto simp: levels_def)
  note st = taken_step[OF "2.prems"(1,2) ne a]
  show ?case
  proof (cases r)
    case None
    then show ?thesis using st a "2.prems"(5) by simp
  next
    case (Some nr)
    let ?ups = "\<lparr>up_nr = nr, up_ns = tmp\<rparr> # ups"
    have par: "n_parent (sp tmp) = n_parent (sp0 tmp)" using "2.prems"(1) by (simp add: taken_def)
    have r2: "alloc_levels kz B pm i (n_parent (sp tmp)) ?ups (set_maps tmp mm sp) = (ok, ups', sp')"
      using "2.prems"(5) a Some by simp
    have low: "\<forall>l \<in> set (levels sp0 ?ups). i \<le> l" using "2.prems"(3) lv by (auto simp: levels_def)
    have nxt: "i = 0 \<or> Suc (n_level (sp0 (n_parent (sp tmp)))) = i"
      using assms lv par by (cases i) (auto simp: ns_tree_def)
    have ih: "taken B sp0 ups' sp' \<and> spaces_ok B pm sp'
      \<and> (ok \<longrightarrow> levels sp0 ups' = [0..<i] @ levels sp0 ?ups \<and> (0 < i \<longrightarrow> up_ns (ups' ! (i - 1)) = n_parent (sp tmp)))"
      using "2.IH"[OF a[symmetric] Some _ _ low nxt r2] st Some by simp
    have "ok \<Longrightarrow> up_ns (ups' ! i) = tmp"
      using alloc_levels_suffix[OF r2] by auto
    then show ?thesis using ih lv by (simp add: levels_def)
  qed
qed


lemma taken_Nil: "taken B sp [] sp"
  by (simp add: taken_def)

lemma alloc_levels_top:
  assumes "spaces_ok B pm sp" "ns_tree sp" "alloc_levels kz B pm (Suc (n_level (sp ns))) ns [] sp = (ok, ups, sp')"
  shows "taken B sp ups sp'" "spaces_ok B pm sp'"
    "ok \<Longrightarrow> levels sp ups = [0..<Suc (n_level (sp ns))]" "ok \<Longrightarrow> up_ns (ups ! n_level (sp ns)) = ns"
  using alloc_levels_spec[OF assms(2) taken_Nil assms(1) _ _ assms(3)] by (auto simp: levels_def)

text \<open>The hash table. An entry hides older ones with its number and namespace.\<close>

lemma find_hash_add:
  "find_pid_ns H nr n (hash_add H a u st)
   = (if nr = up_nr u \<and> n = up_ns u then Some a else find_pid_ns H nr n st)"
  by (auto simp: find_pid_ns_def hash_add_def Let_def)

lemma find_hash_all:
  "find_pid_ns H nr n (fold (hash_add H a) us st)
   = (if \<exists>u \<in> set us. nr = up_nr u \<and> n = up_ns u then Some a else find_pid_ns H nr n st)"
  by (induction us arbitrary: st) (auto simp: find_hash_add)

lemma hash_add_keeps:
  "pid_table (hash_add H a u st) = pid_table st" "task_pids (hash_add H a u st) = task_pids st"
  "n_maps (spaces (hash_add H a u st) n) = n_maps (spaces st n)"
  by (simp_all add: hash_add_def Let_def)

lemma hash_all_keeps:
  "pid_table (fold (hash_add H a) us st) = pid_table st"
  "n_maps (spaces (fold (hash_add H a) us st) n) = n_maps (spaces st n)"
  by (induction us arbitrary: st) (simp_all add: hash_add_keeps)

lemma unhash_last:
  assumes "pid_hash X = pid_hash (hash_add H a u Y)" "spaces X = spaces (hash_add H a u Y)"
  shows "pid_hash (unhash H a u X) = pid_hash Y" "spaces (unhash H a u X) = spaces Y"
  using assms by (simp_all add: unhash_def hash_add_def Let_def fun_upd_idem)

lemma unhash_all:
  "pid_hash X = pid_hash (fold (hash_add H a) (rev us) Y) \<Longrightarrow> spaces X = spaces (fold (hash_add H a) (rev us) Y) \<Longrightarrow>
   pid_hash (fold (unhash H a) us X) = pid_hash Y \<and> spaces (fold (unhash H a) us X) = spaces Y"
proof (induction us arbitrary: X)
  case (Cons u us)
  note l = unhash_last[of X H a u "fold (hash_add H a) (rev us) Y"]
  show ?case using Cons.IH[of "unhash H a u X"] l Cons.prems by simp
qed simp

lemma free_all_frame:
  "n_level (fold (free_upid B) ups sp n) = n_level (sp n) \<and> n_parent (fold (free_upid B) ups sp n) = n_parent (sp n)
   \<and> nr_hashed (fold (free_upid B) ups sp n) = nr_hashed (sp n)"
  by (induction ups arbitrary: sp) (simp_all add: free_upid_def set_maps_def)

text \<open>Tasks and their links agree.\<close>

definition links_ok :: "pid_kernel \<Rightarrow> bool" where
  "links_ok st = (\<forall>a p ty. pid_table st a = Some p \<longrightarrow>
     distinct (p_tasks p ty) \<and> (\<forall>t. t \<in> set (p_tasks p ty) \<longleftrightarrow> task_pids st t ty = Some a))"

lemma unhash_all_keeps:
  "pid_table (fold (unhash H a) us st) = pid_table st \<and> task_pids (fold (unhash H a) us st) = task_pids st"
  by (induction us arbitrary: st) (simp_all add: unhash_def Let_def)

lemma free_pid_keeps:
  "pid_table (free_pid H B a st) = pid_table st" "task_pids (free_pid H B a st) = task_pids st"
  by (simp_all add: free_pid_def Let_def unhash_all_keeps split: option.split)

lemma links_free: "links_ok (free_pid H B a st) = links_ok st"
  by (simp add: links_ok_def free_pid_keeps)

lemma links_attach:
  assumes "links_ok st" "task_pids st t ty = None \<or> task_pids st t ty = Some a \<and> (\<forall>p. pid_table st a = Some p \<longrightarrow> t \<notin> set (p_tasks p ty))"
  shows "links_ok (attach_pid t ty a st)"
  using assms by (auto simp: links_ok_def attach_pid_def map_tasks_def set_link_def split: if_splits)

lemma links_detach:
  assumes "links_ok st" "detach_pid H B t ty st = Some st'"
  shows "links_ok st' \<and> task_pids st' t ty = None"
proof -
  obtain a where a: "task_pids st t ty = Some a" using assms(2) by (auto simp: detach_pid_def change_pid_link_def split: option.splits)
  have "links_ok (set_link t ty None (map_tasks a ty (remove1 t) st))"
    using assms(1) a by (auto simp: links_ok_def map_tasks_def set_link_def split: if_splits)
  then show ?thesis using assms(2) a
    by (auto simp: detach_pid_def change_pid_link_def Let_def links_free free_pid_keeps set_link_def split: option.splits if_splits)
qed

lemma change_pid_detach_attach:
  assumes "change_pid H B t ty a st = Some st'"
  shows "\<exists>st1. detach_pid H B t ty st = Some st1
    \<and> pid_table st' = pid_table (attach_pid t ty a st1) \<and> task_pids st' = task_pids (attach_pid t ty a st1)"
  using assms
  by (auto simp: change_pid_def detach_pid_def change_pid_link_def attach_pid_def Let_def map_tasks_def set_link_def
      free_pid_keeps fun_eq_iff split: option.splits if_splits)

text \<open>
  Moving a task to another group or session keeps every task in the list its link names, once.
\<close>

theorem change_pid_keeps_links:
  assumes "links_ok st" "change_pid H B t ty a st = Some st'"
  shows "links_ok st' \<and> task_pids st' t ty = Some a"
proof -
  obtain st1 where d: "detach_pid H B t ty st = Some st1"
    "pid_table st' = pid_table (attach_pid t ty a st1)" "task_pids st' = task_pids (attach_pid t ty a st1)"
    using change_pid_detach_attach[OF assms(2)] by blast
  have "links_ok (attach_pid t ty a st1)" using links_attach links_detach[OF assms(1) d(1)] by blast
  then show ?thesis using d(2,3) by (simp add: links_ok_def) (simp add: attach_pid_def map_tasks_def set_link_def)
qed

section \<open>Correctness\<close>

lemma alloc_pid_success:
  assumes "alloc_pid H ADDING reaper kz B pm addr proc_ok ns st = (Some a, st')"
  shows "\<exists>ups sp p. alloc_levels kz B pm (Suc (n_level (spaces st ns))) ns [] (spaces st) = (True, ups, sp)
    \<and> addr = Some a \<and> numbers p = ups \<and> p_level p = n_level (spaces st ns)
    \<and> st' = fold (hash_add H a) (rev ups)
        (st\<lparr>spaces := sp, pid_table := (pid_table st)(a \<mapsto> p), pid_events := pid_events st @ [Get_Ns ns]\<rparr>)"
proof -
  obtain ok ups sp where l: "alloc_levels kz B pm (Suc (n_level (spaces st ns))) ns [] (spaces st) = (ok, ups, sp)"
    by (metis prod_cases3)
  show ?thesis using assms l
    by (intro exI[of _ ups] exI[of _ sp]
        exI[of _ "\<lparr>p_level = n_level (spaces st ns), numbers = ups, p_count = 1, p_tasks = (\<lambda>_. [])\<rparr>"])
      (auto simp: alloc_pid_def Let_def split: if_splits option.splits simp del: alloc_levels.simps)
qed

lemma alloc_pid_failure:
  assumes "spaces_ok B pm (spaces st)" "ns_tree (spaces st)" "alloc_pid H ADDING reaper kz B pm addr proc_ok ns st = (None, st')"
  shows "spaces_ok B pm (spaces st') \<and> all_used B (spaces st') = all_used B (spaces st)
    \<and> pid_hash st' = pid_hash st \<and> pid_table st' = pid_table st"
proof (cases addr)
  case None
  then show ?thesis using assms by (auto simp: alloc_pid_def)
next
  case (Some a)
  obtain ok ups sp where l: "alloc_levels kz B pm (Suc (n_level (spaces st ns))) ns [] (spaces st) = (ok, ups, sp)"
    by (metis prod_cases3)
  note t = alloc_levels_top[OF assms(1,2) l]
  note f = free_all_spec[OF t(2,1)]
  show ?thesis using f assms(3) Some l
    by (auto simp: alloc_pid_def Let_def split: if_splits simp del: alloc_levels.simps)
qed


text \<open>
  C29. Freeing undoes allocating. After \<^verbatim>\<open>alloc_pid\<close> and \<^verbatim>\<open>free_pid\<close> of its result the numbers in use,
  the counts of hashed numbers of all namespaces and every chain of the hash table are as before.
\<close>

theorem free_pid_undoes_alloc:
  assumes "spaces_ok B pm (spaces st)" "ns_tree (spaces st)"
    "alloc_pid H ADDING reaper kz B pm addr proc_ok ns st = (Some a, st')"
  shows "pid_hash (free_pid H B a st') = pid_hash st
    \<and> all_used B (spaces (free_pid H B a st')) = all_used B (spaces st)
    \<and> (\<forall>n. nr_hashed (spaces (free_pid H B a st') n) = nr_hashed (spaces st n))
    \<and> spaces_ok B pm (spaces (free_pid H B a st'))"
proof -
  obtain ups sp p where e: "alloc_levels kz B pm (Suc (n_level (spaces st ns))) ns [] (spaces st) = (True, ups, sp)"
    "numbers p = ups" "st' = fold (hash_add H a) (rev ups)
        (st\<lparr>spaces := sp, pid_table := (pid_table st)(a \<mapsto> p), pid_events := pid_events st @ [Get_Ns ns]\<rparr>)"
    using alloc_pid_success assms(3) by blast
  note t = alloc_levels_top[OF assms(1,2) e(1)]
  note f = free_all_spec[OF t(2,1)]
  have "pid_table st' a = Some p" by (simp add: e(3) hash_all_keeps)
  moreover have "pid_hash (fold (unhash H a) ups st') = pid_hash st" "spaces (fold (unhash H a) ups st') = sp"
    using unhash_all[of st' H a ups "st\<lparr>spaces := sp, pid_table := (pid_table st)(a \<mapsto> p), pid_events := pid_events st @ [Get_Ns ns]\<rparr>"]
    by (simp_all add: e(3))
  ultimately show ?thesis using f t(1) e(2) by (simp add: free_pid_def Let_def free_all_frame taken_def)
qed

definition sample_pid_kernel :: pid_kernel where
  "sample_pid_kernel = \<lparr>spaces = (\<lambda>_. \<lparr>n_maps = pidmap_init 512 (init_pid_ns 512 2), n_level = 0, n_parent = 0,
       nr_hashed = 2147483648\<rparr>), pid_table = Map.empty, pid_hash = (\<lambda>_. []), task_pids = (\<lambda>_ _. None), pid_events = []\<rparr>"

definition sample_alloc :: "nat option \<times> pid_kernel" where
  "sample_alloc = alloc_pid (\<lambda>nr n. nr + n) 2147483648 (\<lambda>p. up_nr (hd (numbers p)) = 1) (\<lambda>_. True) 512 600 (Some 7) True 0 sample_pid_kernel"

lemma sample_pid_ok: "spaces_ok 512 600 (spaces sample_pid_kernel)" "ns_tree (spaces sample_pid_kernel)"
  using pidmap_init_ok[of 512 600 2]
  by (simp_all add: sample_pid_kernel_def spaces_ok_def ns_tree_def RESERVED_PIDS_def pidmap_init_def init_pid_ns_def)

lemma sample_alloc_succeeds: "sample_alloc = (Some 7, snd sample_alloc)"
proof -
  let ?ns = "pidmap_init 512 (init_pid_ns 512 2)"
  have "alloc_pidmap (\<lambda>_. True) 512 600 ?ns = scan_maps (\<lambda>_. True) 512 600 0 (Suc 2) 0 1 1 ?ns"
    by (simp add: alloc_pidmap_def pidmap_init_def init_pid_ns_def del: scan_maps.simps)
  also have "fst \<dots> = Some 1" unfolding scan_maps.simps(2)
    by (simp add: pidmap_init_def init_pid_ns_def new_pidmap_def find_free.simps numeral_2_eq_2 del: scan_maps.simps)
  finally obtain mm where "alloc_pidmap (\<lambda>_. True) 512 600 ?ns = (Some 1, mm)" by (metis prod.collapse)
  then show ?thesis by (simp add: sample_alloc_def alloc_pid_def sample_pid_kernel_def Let_def set_maps_def)
qed


theorem free_pid_undoes_alloc_witness:
  "fst sample_alloc = Some 7 \<and> pid_hash (free_pid (\<lambda>nr n. nr + n) 512 7 (snd sample_alloc)) = (\<lambda>_. [])"
proof -
  have a: "alloc_pid (\<lambda>nr n. nr + n) 2147483648 (\<lambda>p. up_nr (hd (numbers p)) = 1) (\<lambda>_. True) 512 600 (Some 7) True 0 sample_pid_kernel = (Some 7, snd sample_alloc)"
    using sample_alloc_succeeds by (simp add: sample_alloc_def)
  show ?thesis using free_pid_undoes_alloc[OF sample_pid_ok a] sample_alloc_succeeds
    by (metis fst_conv pid_kernel.select_convs(3) sample_pid_kernel_def)
qed

end
