(* ===== verification/Mempolicy.thy ===== *)
theory Mempolicy
  imports Prelude
begin

text \<open>
  Memory policies of the kernel (\<^verbatim>\<open>msm/mm/mempolicy.c\<close>): on which nodes of a machine with several memories
  pages are allocated. This theory holds the policies, their creation, their adaptation to a
  changed set of allowed nodes, the system calls on the policy of a task and the choice of a node.

  A node mask is a set of numbers below \<^verbatim>\<open>MAX_NUMNODES\<close>; the operations of \<^verbatim>\<open>nodemask.h\<close> named after set
  operations are those, \<^verbatim>\<open>first_node\<close> and \<^verbatim>\<open>next_node\<close> search upwards and give \<^verbatim>\<open>MAX_NUMNODES\<close> if there is none.
  Its other operations are arguments. The values of modes and flags are in headers outside the
  repository; they are constructors here and a word of flags is a set. The union of a node mask
  and a preferred node is two fields, of which the mode selects one.
\<close>

type_synonym nodemask = "nat set"

datatype mpol_mode = MPOL_DEFAULT | MPOL_PREFERRED | MPOL_BIND | MPOL_INTERLEAVE | MPOL_LOCAL

datatype mpol_flag =
    MPOL_F_STATIC_NODES
  | MPOL_F_RELATIVE_NODES
  | MPOL_F_SHARED
  | MPOL_F_LOCAL
  | MPOL_F_REBINDING
  | MPOL_F_MOF
  | MPOL_F_MORON

datatype mp_err = EINVAL | ENOMEM | EFAULT | EPERM | ENOSPC | ESRCH | BUG

definition MPOL_MODE_FLAGS :: "mpol_flag set" where
  "MPOL_MODE_FLAGS = {MPOL_F_STATIC_NODES, MPOL_F_RELATIVE_NODES}"

record mempolicy =
  refcnt :: int
  mode :: mpol_mode
  flags :: "mpol_flag set"
  v_nodes :: nodemask
  v_preferred_node :: nat
  w_nodes :: nodemask

text \<open>
  What the code reads from outside: \<^verbatim>\<open>MAX_NUMNODES\<close>, the nodes allowed for the current task, the nodes
  with memory, the node of the processor, and operations on masks.
\<close>

record mp_env =
  max_numnodes :: nat
  mems_allowed :: nodemask
  n_memory :: nodemask
  numa_node :: nat
  nodes_fold :: "nodemask \<Rightarrow> nat \<Rightarrow> nodemask"
  nodes_onto :: "nodemask \<Rightarrow> nodemask \<Rightarrow> nodemask"
  nodes_remap :: "nodemask \<Rightarrow> nodemask \<Rightarrow> nodemask \<Rightarrow> nodemask"
  node_remap :: "nat \<Rightarrow> nodemask \<Rightarrow> nodemask \<Rightarrow> nat"

definition first_node :: "mp_env \<Rightarrow> nodemask \<Rightarrow> nat" where
  "first_node env s = (case List.find (\<lambda>n. n \<in> s) [0..<max_numnodes env] of None \<Rightarrow> max_numnodes env | Some n \<Rightarrow> n)"

definition next_node :: "mp_env \<Rightarrow> nat \<Rightarrow> nodemask \<Rightarrow> nat" where
  "next_node env k s =
     (case List.find (\<lambda>n. n \<in> s) [Suc k..<max_numnodes env] of None \<Rightarrow> max_numnodes env | Some n \<Rightarrow> n)"

definition node_list :: "mp_env \<Rightarrow> nodemask \<Rightarrow> nat list" where
  "node_list env s = filter (\<lambda>n. n \<in> s) [0..<max_numnodes env]"

definition nodes_weight :: "mp_env \<Rightarrow> nodemask \<Rightarrow> nat" where
  "nodes_weight env s = length (node_list env s)"

section \<open>Creating a policy\<close>

definition mpol_store_user_nodemask :: "mempolicy \<Rightarrow> bool" where
  "mpol_store_user_nodemask pol = (flags pol \<inter> MPOL_MODE_FLAGS \<noteq> {})"

definition mpol_relative_nodemask :: "mp_env \<Rightarrow> nodemask \<Rightarrow> nodemask \<Rightarrow> nodemask" where
  "mpol_relative_nodemask env orig rel = nodes_onto env (nodes_fold env orig (nodes_weight env rel)) rel"

definition mpol_new_interleave :: "mempolicy \<Rightarrow> nodemask option \<Rightarrow> mp_err + mempolicy" where
  "mpol_new_interleave pol nodes =
     (case nodes of None \<Rightarrow> Inl BUG | Some ns \<Rightarrow> if ns = {} then Inl EINVAL else Inr (pol\<lparr>v_nodes := ns\<rparr>))"

definition mpol_new_preferred :: "mp_env \<Rightarrow> mempolicy \<Rightarrow> nodemask option \<Rightarrow> mp_err + mempolicy" where
  "mpol_new_preferred env pol nodes =
     (case nodes of
        None \<Rightarrow> Inr (pol\<lparr>flags := insert MPOL_F_LOCAL (flags pol)\<rparr>)
      | Some ns \<Rightarrow> if ns = {} then Inl EINVAL else Inr (pol\<lparr>v_preferred_node := first_node env ns\<rparr>))"

definition is_valid_nodemask :: "mp_env \<Rightarrow> nodemask \<Rightarrow> bool" where
  "is_valid_nodemask env ns = (ns \<inter> n_memory env \<noteq> {})"

definition mpol_new_bind :: "mp_env \<Rightarrow> mempolicy \<Rightarrow> nodemask option \<Rightarrow> mp_err + mempolicy" where
  "mpol_new_bind env pol nodes =
     (case nodes of
        None \<Rightarrow> Inl BUG
      | Some ns \<Rightarrow> if \<not> is_valid_nodemask env ns then Inl EINVAL else Inr (pol\<lparr>v_nodes := ns\<rparr>))"

text \<open>The entry \<^verbatim>\<open>create\<close> of \<^verbatim>\<open>mpol_ops\<close>; where there is none the call follows a null pointer.\<close>

definition mpol_create :: "mp_env \<Rightarrow> mempolicy \<Rightarrow> nodemask option \<Rightarrow> mp_err + mempolicy" where
  "mpol_create env pol nodes =
     (case mode pol of
        MPOL_INTERLEAVE \<Rightarrow> mpol_new_interleave pol nodes
      | MPOL_PREFERRED \<Rightarrow> mpol_new_preferred env pol nodes
      | MPOL_BIND \<Rightarrow> mpol_new_bind env pol nodes
      | _ \<Rightarrow> Inl BUG)"

definition mpol_set_nodemask :: "mp_env \<Rightarrow> mempolicy option \<Rightarrow> nodemask \<Rightarrow> mp_err + mempolicy option" where
  "mpol_set_nodemask env pol nodes =
     (case pol of
        None \<Rightarrow> Inr None
      | Some p \<Rightarrow>
          let mask1 = mems_allowed env \<inter> n_memory env in
          map_sum id Some
            (if mode p = MPOL_PREFERRED \<and> nodes = {} then mpol_create env p None
             else
               let mask2 = (if MPOL_F_RELATIVE_NODES \<in> flags p then mpol_relative_nodemask env nodes mask1
                            else nodes \<inter> mask1);
                   p1 = p\<lparr>w_nodes := (if mpol_store_user_nodemask p then nodes else mems_allowed env)\<rparr> in
               mpol_create env p1 (Some mask2)))"

text \<open>\<open>fresh\<close> is the memory that \<^verbatim>\<open>kmem_cache_alloc\<close> returns.\<close>

definition mpol_new ::
  "mempolicy option \<Rightarrow> mpol_mode \<Rightarrow> mpol_flag set \<Rightarrow> nodemask option \<Rightarrow> mp_err + mempolicy option" where
  "mpol_new fresh md fl nodes =
     (if md = MPOL_DEFAULT then
        (case nodes of None \<Rightarrow> Inr None | Some ns \<Rightarrow> if ns \<noteq> {} then Inl EINVAL else Inr None)
      else case nodes of
        None \<Rightarrow> Inl BUG
      | Some ns \<Rightarrow>
          if md = MPOL_PREFERRED \<and> ns = {} \<and> (MPOL_F_STATIC_NODES \<in> fl \<or> MPOL_F_RELATIVE_NODES \<in> fl) then Inl EINVAL
          else if md = MPOL_LOCAL \<and> ns \<noteq> {} then Inl EINVAL
          else if md \<noteq> MPOL_PREFERRED \<and> md \<noteq> MPOL_LOCAL \<and> ns = {} then Inl EINVAL
          else (case fresh of
              None \<Rightarrow> Inl ENOMEM
            | Some p \<Rightarrow>
                Inr (Some (p\<lparr>refcnt := 1, mode := (if md = MPOL_LOCAL then MPOL_PREFERRED else md), flags := fl\<rparr>))))"

text \<open>\<^verbatim>\<open>__mpol_put\<close>: \<open>None\<close> is a freed policy.\<close>

definition mpol_put :: "mempolicy \<Rightarrow> mempolicy option" where
  "mpol_put p = (if refcnt p - 1 = 0 then None else Some (p\<lparr>refcnt := refcnt p - 1\<rparr>))"

section \<open>Rebinding\<close>

datatype mpol_rebind_step = MPOL_REBIND_ONCE | MPOL_REBIND_STEP1 | MPOL_REBIND_STEP2

text \<open>The next node for interleaving after a change of the mask.\<close>

definition fix_il_next :: "mp_env \<Rightarrow> nodemask \<Rightarrow> nat \<Rightarrow> nat" where
  "fix_il_next env tmp il =
     (if il \<in> tmp then il
      else let n1 = next_node env il tmp;
               n2 = (if n1 \<ge> max_numnodes env then first_node env tmp else n1) in
           if n2 \<ge> max_numnodes env then numa_node env else n2)"

definition mpol_rebind_nodemask ::
  "mp_env \<Rightarrow> mempolicy \<Rightarrow> nodemask \<Rightarrow> mpol_rebind_step \<Rightarrow> nat \<Rightarrow> mempolicy \<times> nat" where
  "mpol_rebind_nodemask env pol nodes step il =
     (let (tmp, pol1) =
            (if MPOL_F_STATIC_NODES \<in> flags pol then (w_nodes pol \<inter> nodes, pol)
             else if MPOL_F_RELATIVE_NODES \<in> flags pol then (mpol_relative_nodemask env (w_nodes pol) nodes, pol)
             else if step = MPOL_REBIND_STEP2 then (w_nodes pol, pol\<lparr>w_nodes := nodes\<rparr>)
             else let t = nodes_remap env (v_nodes pol) (w_nodes pol) nodes in
               (t, pol\<lparr>w_nodes := (if step = MPOL_REBIND_ONCE then nodes else t)\<rparr>));
          tmp1 = (if tmp = {} then nodes else tmp);
          pol2 = pol1\<lparr>v_nodes := (if step = MPOL_REBIND_STEP1 then v_nodes pol1 \<union> tmp1 else tmp1)\<rparr> in
      (pol2, fix_il_next env tmp1 il))"

definition mpol_rebind_preferred :: "mp_env \<Rightarrow> mempolicy \<Rightarrow> nodemask \<Rightarrow> mempolicy" where
  "mpol_rebind_preferred env pol nodes =
     (if MPOL_F_STATIC_NODES \<in> flags pol then
        (let node = first_node env (w_nodes pol) in
         if node \<in> nodes then pol\<lparr>v_preferred_node := node, flags := flags pol - {MPOL_F_LOCAL}\<rparr>
         else pol\<lparr>flags := insert MPOL_F_LOCAL (flags pol)\<rparr>)
      else if MPOL_F_RELATIVE_NODES \<in> flags pol then
        pol\<lparr>v_preferred_node := first_node env (mpol_relative_nodemask env (w_nodes pol) nodes)\<rparr>
      else if MPOL_F_LOCAL \<notin> flags pol then
        pol\<lparr>v_preferred_node := node_remap env (v_preferred_node pol) (w_nodes pol) nodes, w_nodes := nodes\<rparr>
      else pol)"

text \<open>The policy and the next node for interleaving; \<open>None\<close> is \<^verbatim>\<open>BUG()\<close>.\<close>

definition mpol_rebind_policy ::
  "mp_env \<Rightarrow> mempolicy option \<Rightarrow> nodemask \<Rightarrow> mpol_rebind_step \<Rightarrow> nat \<Rightarrow> (mempolicy option \<times> nat) option" where
  "mpol_rebind_policy env pol newmask step il =
     (case pol of
        None \<Rightarrow> Some (None, il)
      | Some p \<Rightarrow>
          if \<not> mpol_store_user_nodemask p \<and> step = MPOL_REBIND_ONCE \<and> w_nodes p = newmask then Some (Some p, il)
          else if step = MPOL_REBIND_STEP1 \<and> MPOL_F_REBINDING \<in> flags p then Some (Some p, il)
          else if step = MPOL_REBIND_STEP2 \<and> MPOL_F_REBINDING \<notin> flags p then None
          else
            let p1 = p\<lparr>flags := (case step of
                    MPOL_REBIND_STEP1 \<Rightarrow> insert MPOL_F_REBINDING (flags p)
                  | MPOL_REBIND_STEP2 \<Rightarrow> flags p - {MPOL_F_REBINDING}
                  | MPOL_REBIND_ONCE \<Rightarrow> flags p)\<rparr> in
            (case mode p1 of
               MPOL_DEFAULT \<Rightarrow> Some (Some p1, il)
             | MPOL_PREFERRED \<Rightarrow> Some (Some (mpol_rebind_preferred env p1 newmask), il)
             | MPOL_LOCAL \<Rightarrow> None
             | _ \<Rightarrow> (case mpol_rebind_nodemask env p1 newmask step il of (p2, il1) \<Rightarrow> Some (Some p2, il1))))"

text \<open>All areas of an address space, at once.\<close>

fun mpol_rebind_mm :: "mp_env \<Rightarrow> mempolicy option list \<Rightarrow> nodemask \<Rightarrow> nat \<Rightarrow> (mempolicy option list \<times> nat) option" where
  "mpol_rebind_mm env [] newmask il = Some ([], il)"
| "mpol_rebind_mm env (v # vs) newmask il =
     (case mpol_rebind_policy env v newmask MPOL_REBIND_ONCE il of
        None \<Rightarrow> None
      | Some (v1, il1) \<Rightarrow> map_option (apfst ((#) v1)) (mpol_rebind_mm env vs newmask il1))"

section \<open>The policy of a task\<close>

text \<open>\<open>released\<close> are the policies whose reference the task gave back, oldest first.\<close>

record mp_task =
  mempol :: "mempolicy option"
  il_next :: nat
  pf_mempolicy :: bool
  released :: "mempolicy option list"

definition mpol_fix_fork_child_flag :: "mp_task \<Rightarrow> mp_task" where
  "mpol_fix_fork_child_flag t = t\<lparr>pf_mempolicy := (mempol t \<noteq> None)\<rparr>"

definition do_set_mempolicy ::
  "mp_env \<Rightarrow> bool \<Rightarrow> mempolicy option \<Rightarrow> mpol_mode \<Rightarrow> mpol_flag set \<Rightarrow> nodemask option \<Rightarrow> mp_task \<Rightarrow> mp_err option \<times> mp_task" where
  "do_set_mempolicy env scratch fresh md fl nodes t =
     (if \<not> scratch then (Some ENOMEM, t)
      else case mpol_new fresh md fl nodes of
        Inl e \<Rightarrow> (Some e, t)
      | Inr new \<Rightarrow>
          (case mpol_set_nodemask env new (case nodes of None \<Rightarrow> {} | Some ns \<Rightarrow> ns) of
             Inl e \<Rightarrow> (Some e, t\<lparr>released := released t @ [new]\<rparr>)
           | Inr new1 \<Rightarrow>
               let t1 = mpol_fix_fork_child_flag (t\<lparr>mempol := new1\<rparr>);
                   t2 = (case new1 of
                       None \<Rightarrow> t1
                     | Some p \<Rightarrow> if mode p = MPOL_INTERLEAVE \<and> nodes_weight env (v_nodes p) \<noteq> 0
                         then t1\<lparr>il_next := first_node env (v_nodes p)\<rparr> else t1) in
               (None, t2\<lparr>released := released t2 @ [mempol t]\<rparr>)))"

definition default_policy :: mempolicy where
  "default_policy = \<lparr>refcnt = 1, mode = MPOL_PREFERRED, flags = {MPOL_F_LOCAL}, v_nodes = {}, v_preferred_node = 0, w_nodes = {}\<rparr>"

text \<open>The case of the policy being \<^verbatim>\<open>default_policy\<close> itself is \<open>None\<close>; the second \<open>None\<close> is \<^verbatim>\<open>BUG()\<close>.\<close>

definition get_policy_nodemask :: "mempolicy option \<Rightarrow> nodemask option" where
  "get_policy_nodemask p =
     (case p of
        None \<Rightarrow> Some {}
      | Some q \<Rightarrow>
          (case mode q of
             MPOL_BIND \<Rightarrow> Some (v_nodes q)
           | MPOL_INTERLEAVE \<Rightarrow> Some (v_nodes q)
           | MPOL_PREFERRED \<Rightarrow> Some (if MPOL_F_LOCAL \<notin> flags q then {v_preferred_node q} else {})
           | _ \<Rightarrow> None))"

end
