(* ===== verification/Mempolicy_Node.thy ===== *)
theory Mempolicy_Node
  imports Mempolicy
begin

text \<open>
  The choice of a node by a memory policy: interleaving, the effective policy of an address, the
  node and mask for an allocation, misplaced pages, copies and comparison of policies, and the
  policy for the start of the system.
\<close>

section \<open>Interleaving\<close>

definition interleave_nodes :: "mp_env \<Rightarrow> mempolicy \<Rightarrow> mp_task \<Rightarrow> nat \<times> mp_task" where
  "interleave_nodes env pol me =
     (let nid = il_next me;
          n1 = next_node env nid (v_nodes pol);
          n2 = (if n1 \<ge> max_numnodes env then first_node env (v_nodes pol) else n1) in
      (nid, if n2 < max_numnodes env then me\<lparr>il_next := n2\<rparr> else me))"

fun il_walk :: "mp_env \<Rightarrow> nodemask \<Rightarrow> nat \<Rightarrow> nat \<Rightarrow> nat" where
  "il_walk env s 0 nid = nid"
| "il_walk env s (Suc c) nid = il_walk env s c (next_node env nid s)"

text \<open>The offset is cut to an \<^verbatim>\<open>unsigned int\<close>. The search starts below node 0, so its first result is the first node.\<close>

definition offset_il_node :: "mp_env \<Rightarrow> mempolicy \<Rightarrow> 64 word \<Rightarrow> nat" where
  "offset_il_node env pol off =
     (let nnodes = nodes_weight env (v_nodes pol) in
      if nnodes = 0 then numa_node env
      else il_walk env (v_nodes pol) (unat (ucast off :: u32) mod nnodes) (first_node env (v_nodes pol)))"

record vm_area =
  vm_start :: "64 word"
  vm_end :: "64 word"
  vm_pgoff :: "64 word"
  vm_policy :: "mempolicy option"
  vm_get_policy :: "(64 word \<Rightarrow> mempolicy option) option"

text \<open>\<open>PS\<close> is \<^verbatim>\<open>PAGE_SHIFT\<close>; \<open>None\<close> is \<^verbatim>\<open>BUG_ON\<close>.\<close>

definition interleave_nid ::
  "nat \<Rightarrow> mp_env \<Rightarrow> mempolicy \<Rightarrow> vm_area option \<Rightarrow> 64 word \<Rightarrow> nat \<Rightarrow> mp_task \<Rightarrow> (nat \<times> mp_task) option" where
  "interleave_nid PS env pol vma addr shift me =
     (case vma of
        None \<Rightarrow> Some (interleave_nodes env pol me)
      | Some a \<Rightarrow>
          if shift < PS then None
          else
            let off = drop_bit (shift - PS) (vm_pgoff a) + drop_bit shift (addr - vm_start a) in
            Some (offset_il_node env pol off, me))"

section \<open>The effective policy\<close>

text \<open>
  \<open>tab\<close> is \<^verbatim>\<open>preferred_node_policy\<close>, with the mode \<^verbatim>\<open>MPOL_DEFAULT\<close> (zero) before it is set; \<open>node\<close> the result of
  \<^verbatim>\<open>numa_node_id\<close>, \<open>None\<close> for \<^verbatim>\<open>NUMA_NO_NODE\<close>. The outer \<open>None\<close> is a null pointer followed.
\<close>

definition get_task_policy ::
  "(nat \<Rightarrow> mempolicy) \<Rightarrow> nat option \<Rightarrow> mp_task \<Rightarrow> mempolicy option option" where
  "get_task_policy tab node p =
     (case mempol p of
        Some pol \<Rightarrow> Some (Some pol)
      | None \<Rightarrow>
          (case node of
             None \<Rightarrow> None
           | Some n \<Rightarrow> Some (if mode (tab n) = MPOL_DEFAULT then None else Some (tab n))))"

definition mpol_needs_cond_ref :: "mempolicy \<Rightarrow> bool" where
  "mpol_needs_cond_ref pol = (MPOL_F_SHARED \<in> flags pol)"

definition get_vma_policy ::
  "(nat \<Rightarrow> mempolicy) \<Rightarrow> nat option \<Rightarrow> mp_task \<Rightarrow> vm_area option \<Rightarrow> 64 word \<Rightarrow> mempolicy option" where
  "get_vma_policy tab node task vma addr =
     (case get_task_policy tab node task of
        None \<Rightarrow> None
      | Some tp \<Rightarrow>
          let pol = (case vma of
                None \<Rightarrow> tp
              | Some a \<Rightarrow>
                  (case vm_get_policy a of
                     Some f \<Rightarrow> (case f addr of Some vpol \<Rightarrow> Some vpol | None \<Rightarrow> tp)
                   | None \<Rightarrow>
                       (case vm_policy a of
                          None \<Rightarrow> tp
                        | Some q \<Rightarrow> Some (if mpol_needs_cond_ref q then q\<lparr>refcnt := refcnt q + 1\<rparr> else q)))) in
          Some (case pol of None \<Rightarrow> default_policy | Some q \<Rightarrow> q))"

section \<open>Allocation\<close>

text \<open>Zones are numbers: \<open>pz\<close> is \<^verbatim>\<open>policy_zone\<close>, \<open>mv\<close> is \<^verbatim>\<open>ZONE_MOVABLE\<close>; \<open>high\<close> are the nodes with \<^verbatim>\<open>N_HIGH_MEMORY\<close>.\<close>

definition apply_policy_zone :: "nat \<Rightarrow> nat \<Rightarrow> nodemask \<Rightarrow> mempolicy \<Rightarrow> nat \<Rightarrow> bool option" where
  "apply_policy_zone pz mv high pol zone =
     (if pz = mv then None
      else Some (zone \<ge> (if v_nodes pol \<inter> high = {} then mv else pz)))"

definition policy_nodemask ::
  "nat \<Rightarrow> nat \<Rightarrow> nodemask \<Rightarrow> (nodemask \<Rightarrow> bool) \<Rightarrow> nat \<Rightarrow> mempolicy \<Rightarrow> nodemask option option" where
  "policy_nodemask pz mv high valid_mems zone pol =
     (if mode pol \<noteq> MPOL_BIND then Some None
      else map_option (\<lambda>ok. if ok \<and> valid_mems (v_nodes pol) then Some (v_nodes pol) else None)
             (apply_policy_zone pz mv high pol zone))"

text \<open>The node whose zone list is used; \<open>None\<close> is \<^verbatim>\<open>BUG()\<close>.\<close>

definition policy_zonelist :: "mp_env \<Rightarrow> bool \<Rightarrow> mempolicy \<Rightarrow> nat \<Rightarrow> nat option" where
  "policy_zonelist env thisnode pol nd =
     (case mode pol of
        MPOL_PREFERRED \<Rightarrow> Some (if MPOL_F_LOCAL \<notin> flags pol then v_preferred_node pol else nd)
      | MPOL_BIND \<Rightarrow> Some (if thisnode \<and> nd \<notin> v_nodes pol then first_node env (v_nodes pol) else nd)
      | _ \<Rightarrow> None)"

text \<open>\<open>first_zone\<close> gives the node of the first zone in a mask, if any.\<close>

definition slab_node :: "mp_env \<Rightarrow> bool \<Rightarrow> (nodemask \<Rightarrow> nat option) \<Rightarrow> mp_task \<Rightarrow> (nat \<times> mp_task) option" where
  "slab_node env in_interrupt first_zone me =
     (if in_interrupt then Some (numa_node env, me)
      else case mempol me of
        None \<Rightarrow> Some (numa_node env, me)
      | Some pol \<Rightarrow>
          if MPOL_F_LOCAL \<in> flags pol then Some (numa_node env, me)
          else (case mode pol of
              MPOL_PREFERRED \<Rightarrow> Some (v_preferred_node pol, me)
            | MPOL_INTERLEAVE \<Rightarrow> Some (interleave_nodes env pol me)
            | MPOL_BIND \<Rightarrow> Some (case first_zone (v_nodes pol) of Some n \<Rightarrow> n | None \<Rightarrow> numa_node env, me)
            | _ \<Rightarrow> None))"

definition init_nodemask_of_mempolicy :: "mp_env \<Rightarrow> mp_task \<Rightarrow> (bool \<times> nodemask) option" where
  "init_nodemask_of_mempolicy env me =
     (case mempol me of
        None \<Rightarrow> Some (False, {})
      | Some pol \<Rightarrow>
          (case mode pol of
             MPOL_PREFERRED \<Rightarrow> Some (True, {if MPOL_F_LOCAL \<in> flags pol then numa_node env else v_preferred_node pol})
           | MPOL_BIND \<Rightarrow> Some (True, v_nodes pol)
           | MPOL_INTERLEAVE \<Rightarrow> Some (True, v_nodes pol)
           | _ \<Rightarrow> None))"

definition mempolicy_nodemask_intersects :: "mp_task \<Rightarrow> nodemask option \<Rightarrow> bool option" where
  "mempolicy_nodemask_intersects tsk nmask =
     (case nmask of
        None \<Rightarrow> Some True
      | Some m \<Rightarrow>
          (case mempol tsk of
             None \<Rightarrow> Some True
           | Some pol \<Rightarrow>
               (case mode pol of
                  MPOL_PREFERRED \<Rightarrow> Some True
                | MPOL_BIND \<Rightarrow> Some (v_nodes pol \<inter> m \<noteq> {})
                | MPOL_INTERLEAVE \<Rightarrow> Some (v_nodes pol \<inter> m \<noteq> {})
                | _ \<Rightarrow> None)))"

text \<open>
  \<^verbatim>\<open>mpol_misplaced\<close> for a page on node \<open>cur\<close>: the node where the page should be, \<open>None\<close> if it is right. \<open>near\<close>
  is the nearest node of a mask, \<open>last_nid\<close> the node that referenced the page before.
\<close>

definition mpol_misplaced ::
  "nat \<Rightarrow> mp_env \<Rightarrow> (nodemask \<Rightarrow> nat) \<Rightarrow> mempolicy \<Rightarrow> vm_area \<Rightarrow> 64 word \<Rightarrow> nat \<Rightarrow> nat \<Rightarrow> nat option option" where
  "mpol_misplaced PS env near pol a addr cur last_nid =
     (if MPOL_F_MOF \<notin> flags pol then Some None
      else
        let polnid = (case mode pol of
              MPOL_INTERLEAVE \<Rightarrow>
                if addr \<ge> vm_end a \<or> addr < vm_start a then None
                else Some (Some (offset_il_node env pol (vm_pgoff a + drop_bit PS (addr - vm_start a))))
            | MPOL_PREFERRED \<Rightarrow> Some (Some (if MPOL_F_LOCAL \<in> flags pol then numa_node env else v_preferred_node pol))
            | MPOL_BIND \<Rightarrow> Some (if cur \<in> v_nodes pol then None else Some (near (v_nodes pol)))
            | _ \<Rightarrow> None) in
        (case polnid of
           None \<Rightarrow> None
         | Some None \<Rightarrow> Some None
         | Some (Some n) \<Rightarrow>
             if MPOL_F_MORON \<in> flags pol then
               Some (if last_nid \<noteq> numa_node env then None
                     else if cur \<noteq> numa_node env then Some (numa_node env) else None)
             else Some (if cur \<noteq> n then Some n else None)))"

section \<open>Copies and comparison\<close>

text \<open>\<open>rebound\<close>: the cpuset of the task is being rebound.\<close>

definition mpol_dup ::
  "mp_env \<Rightarrow> bool \<Rightarrow> bool \<Rightarrow> mempolicy \<Rightarrow> nat \<Rightarrow> (mp_err + mempolicy \<times> nat) option" where
  "mpol_dup env alloc_ok rebound old il =
     (if \<not> alloc_ok then Some (Inl ENOMEM)
      else
        (case (if rebound then
                 mpol_rebind_policy env (Some old) (mems_allowed env)
                   (if MPOL_F_REBINDING \<in> flags old then MPOL_REBIND_STEP2 else MPOL_REBIND_ONCE) il
               else Some (Some old, il)) of
           Some (Some new, il1) \<Rightarrow> Some (Inr (new\<lparr>refcnt := 1\<rparr>, il1))
         | _ \<Rightarrow> None))"

definition mpol_equal :: "mempolicy option \<Rightarrow> mempolicy option \<Rightarrow> bool option" where
  "mpol_equal a b =
     (case (a, b) of
        (Some p, Some q) \<Rightarrow>
          if mode p \<noteq> mode q then Some False
          else if flags p \<noteq> flags q then Some False
          else if mpol_store_user_nodemask p \<and> w_nodes p \<noteq> w_nodes q then Some False
          else (case mode p of
              MPOL_BIND \<Rightarrow> Some (v_nodes p = v_nodes q)
            | MPOL_INTERLEAVE \<Rightarrow> Some (v_nodes p = v_nodes q)
            | MPOL_PREFERRED \<Rightarrow> Some (v_preferred_node p = v_preferred_node q)
            | _ \<Rightarrow> None)
      | _ \<Rightarrow> Some False)"

section \<open>Start of the system\<close>

text \<open>The loop over the nodes with memory: the largest node and the nodes of at least 16 megabytes.\<close>

definition init_node :: "nat \<Rightarrow> (nat \<Rightarrow> 64 word) \<Rightarrow> nat \<Rightarrow> 64 word \<times> nat \<times> nodemask \<Rightarrow> 64 word \<times> nat \<times> nodemask" where
  "init_node PS present nid acc =
     (case acc of (largest, prefer, il) \<Rightarrow>
        let total_pages = present nid;
            (l1, p1) = (if largest < total_pages then (total_pages, nid) else (largest, prefer)) in
        (l1, p1, if push_bit PS total_pages \<ge> 16777216 then insert nid il else il))"

definition init_interleave_mask :: "nat \<Rightarrow> mp_env \<Rightarrow> (nat \<Rightarrow> 64 word) \<Rightarrow> nodemask" where
  "init_interleave_mask PS env present =
     (case fold (init_node PS present) (node_list env (n_memory env)) (0, 0, {}) of
        (largest, prefer, il) \<Rightarrow> if il = {} then {prefer} else il)"

definition preferred_node_policy :: "nat \<Rightarrow> mempolicy" where
  "preferred_node_policy nid =
     \<lparr>refcnt = 1, mode = MPOL_PREFERRED, flags = {MPOL_F_MOF, MPOL_F_MORON}, v_nodes = {}, v_preferred_node = nid, w_nodes = {}\<rparr>"

definition numa_policy_init ::
  "nat \<Rightarrow> mp_env \<Rightarrow> bool \<Rightarrow> mempolicy option \<Rightarrow> (nat \<Rightarrow> 64 word) \<Rightarrow> mp_task \<Rightarrow> mp_err option \<times> mp_task" where
  "numa_policy_init PS env scratch fresh present t =
     do_set_mempolicy env scratch fresh MPOL_INTERLEAVE {} (Some (init_interleave_mask PS env present)) t"

definition numa_default_policy :: "mp_env \<Rightarrow> bool \<Rightarrow> mp_task \<Rightarrow> mp_err option \<times> mp_task" where
  "numa_default_policy env scratch t = do_set_mempolicy env scratch None MPOL_DEFAULT {} None t"

end
