(* ===== verification/Mempolicy_String.thy ===== *)
theory Mempolicy_String
  imports Mempolicy_Node
begin

text \<open>
  Memory policies as text, for the mount option of tmpfs and for \<^verbatim>\<open>/proc\<close>: \<^verbatim>\<open>mpol_parse_str\<close> reads
  \<^verbatim>\<open><mode>[=<flags>][:<nodelist>]\<close>, \<^verbatim>\<open>mpol_to_str\<close> writes it. Reading and writing a list of nodes is code of the
  bitmap library, and an argument here.
\<close>

section \<open>Reading\<close>

definition policy_modes :: "mpol_mode \<Rightarrow> string" where
  "policy_modes m =
     (case m of
        MPOL_DEFAULT \<Rightarrow> ''default''
      | MPOL_PREFERRED \<Rightarrow> ''prefer''
      | MPOL_BIND \<Rightarrow> ''bind''
      | MPOL_INTERLEAVE \<Rightarrow> ''interleave''
      | MPOL_LOCAL \<Rightarrow> ''local'')"

definition find_mode :: "string \<Rightarrow> mpol_mode option" where
  "find_mode str =
     List.find (\<lambda>m. str = policy_modes m) [MPOL_DEFAULT, MPOL_PREFERRED, MPOL_BIND, MPOL_INTERLEAVE, MPOL_LOCAL]"

text \<open>A string up to a character, as when the character is overwritten by a null, and what \<^verbatim>\<open>strchr\<close> finds behind it.\<close>

definition upto_chr :: "char \<Rightarrow> string \<Rightarrow> string" where
  "upto_chr c s = takeWhile (\<lambda>x. x \<noteq> c) s"

definition after_chr :: "char \<Rightarrow> string \<Rightarrow> string option" where
  "after_chr c s = (case dropWhile (\<lambda>x. x \<noteq> c) s of [] \<Rightarrow> None | x # r \<Rightarrow> Some r)"

definition isdigit :: "char \<Rightarrow> bool" where
  "isdigit c = (c \<in> set ''0123456789'')"

text \<open>
  The mode, the flags and the list of nodes. The first colon ends the mode or the flags. An equals
  sign behind the colon is found all the same: it ends the list of nodes, but only after the list
  was parsed, and what follows are the flags.
\<close>

definition mode_text :: "string \<Rightarrow> string" where
  "mode_text str = upto_chr CHR ''='' (upto_chr CHR '':'' str)"

definition flags_text :: "string \<Rightarrow> string option" where
  "flags_text str =
     (case after_chr CHR ''='' (upto_chr CHR '':'' str) of Some f \<Rightarrow> Some f | None \<Rightarrow> after_chr CHR ''='' str)"

definition nodelist_left :: "string \<Rightarrow> string \<Rightarrow> string" where
  "nodelist_left str nodelist =
     (if after_chr CHR ''='' (upto_chr CHR '':'' str) = None then upto_chr CHR ''='' nodelist else nodelist)"

definition parse_nodes :: "mp_env \<Rightarrow> (string \<Rightarrow> nodemask option) \<Rightarrow> string option \<Rightarrow> nodemask option" where
  "parse_nodes env nodelist_parse nodelist =
     (case nodelist of
        None \<Rightarrow> Some {}
      | Some l \<Rightarrow>
          (case nodelist_parse l of
             None \<Rightarrow> None
           | Some ns \<Rightarrow> if ns \<subseteq> n_memory env then Some ns else None))"

text \<open>The \<^verbatim>\<open>switch\<close> over the mode: the mode and the nodes to go on with; \<open>Some None\<close> is the end with the default policy.\<close>

definition parse_mode ::
  "mp_env \<Rightarrow> string \<Rightarrow> string option \<Rightarrow> nodemask \<Rightarrow> mpol_mode \<Rightarrow> (mpol_mode \<times> nodemask) option option" where
  "parse_mode env str nodelist nodes m =
     (case m of
        MPOL_PREFERRED \<Rightarrow>
          (case nodelist of
             None \<Rightarrow> Some (Some (m, nodes))
           | Some l \<Rightarrow> if dropWhile isdigit (nodelist_left str l) \<noteq> [] then None else Some (Some (m, nodes)))
      | MPOL_INTERLEAVE \<Rightarrow> Some (Some (m, if nodelist = None then n_memory env else nodes))
      | MPOL_LOCAL \<Rightarrow> if nodelist \<noteq> None then None else Some (Some (MPOL_PREFERRED, nodes))
      | MPOL_DEFAULT \<Rightarrow> if nodelist = None then Some None else None
      | MPOL_BIND \<Rightarrow> if nodelist = None then None else Some (Some (m, nodes)))"

definition parse_flags :: "string option \<Rightarrow> mpol_flag set option" where
  "parse_flags fl =
     (case fl of
        None \<Rightarrow> Some {}
      | Some f \<Rightarrow>
          if f = ''static'' then Some {MPOL_F_STATIC_NODES}
          else if f = ''relative'' then Some {MPOL_F_RELATIVE_NODES}
          else None)"

definition save_nodes :: "mp_env \<Rightarrow> string option \<Rightarrow> mpol_mode \<Rightarrow> nodemask \<Rightarrow> mempolicy \<Rightarrow> mempolicy" where
  "save_nodes env nodelist m nodes new =
     (let new1 = (if m \<noteq> MPOL_PREFERRED then new\<lparr>v_nodes := nodes\<rparr>
                  else if nodelist \<noteq> None then new\<lparr>v_preferred_node := first_node env nodes\<rparr>
                  else new\<lparr>flags := insert MPOL_F_LOCAL (flags new)\<rparr>) in
      new1\<lparr>w_nodes := nodes\<rparr>)"

text \<open>\<open>None\<close> is the result 1, \<open>Some\<close> the policy stored in \<^verbatim>\<open>*mpol\<close> with the result 0.\<close>

definition mpol_parse_str ::
  "mp_env \<Rightarrow> (string \<Rightarrow> nodemask option) \<Rightarrow> mempolicy option \<Rightarrow> string \<Rightarrow> mempolicy option option" where
  "mpol_parse_str env nodelist_parse fresh str =
     (let nodelist = after_chr CHR '':'' str in
      case parse_nodes env nodelist_parse nodelist of
        None \<Rightarrow> None
      | Some nodes \<Rightarrow>
          (case find_mode (mode_text str) of
             None \<Rightarrow> None
           | Some m \<Rightarrow>
               (case parse_mode env str nodelist nodes m of
                  None \<Rightarrow> None
                | Some None \<Rightarrow> Some None
                | Some (Some (m1, nodes1)) \<Rightarrow>
                    (case parse_flags (flags_text str) of
                       None \<Rightarrow> None
                     | Some fl \<Rightarrow>
                         (case mpol_new fresh m1 fl (Some nodes1) of
                            Inl e \<Rightarrow> None
                          | Inr new \<Rightarrow> Some (map_option (save_nodes env nodelist m1 nodes1) new))))))"

section \<open>Writing\<close>

text \<open>
  The mode and the nodes to show. The policy \<^verbatim>\<open>default_policy\<close> is \<open>None\<close>: both show the default mode, and neither
  has flags to show. A preferred node out of range is a write beyond the mask.
\<close>

definition shown :: "mp_env \<Rightarrow> mempolicy option \<Rightarrow> mp_err + mpol_mode \<times> nodemask" where
  "shown env pol =
     (case pol of
        None \<Rightarrow> Inr (MPOL_DEFAULT, {})
      | Some p \<Rightarrow>
          if MPOL_F_MORON \<in> flags p then Inr (MPOL_DEFAULT, {})
          else (case mode p of
              MPOL_DEFAULT \<Rightarrow> Inr (MPOL_DEFAULT, {})
            | MPOL_PREFERRED \<Rightarrow>
                if MPOL_F_LOCAL \<in> flags p then Inr (MPOL_LOCAL, {})
                else if v_preferred_node p < max_numnodes env then Inr (MPOL_PREFERRED, {v_preferred_node p})
                else Inl BUG
            | MPOL_BIND \<Rightarrow> Inr (MPOL_BIND, v_nodes p)
            | MPOL_INTERLEAVE \<Rightarrow> Inr (MPOL_INTERLEAVE, v_nodes p)
            | MPOL_LOCAL \<Rightarrow> Inl EINVAL))"

text \<open>
  The text and the position behind it. \<^verbatim>\<open>snprintf\<close> cuts what it writes, not what it counts;
  \<open>nodelist_scnprintf\<close> counts what it writes.
\<close>

definition put_flags :: "nat \<Rightarrow> mpol_flag set \<Rightarrow> string \<Rightarrow> mp_err + string \<times> nat" where
  "put_flags maxlen fl out =
     (if fl \<inter> MPOL_MODE_FLAGS = {} then Inr (out, length out)
      else if maxlen < length out + 2 then Inl ENOSPC
      else
        let name = (if MPOL_F_STATIC_NODES \<in> fl then ''static'' else ''relative'');
            room = maxlen - (length out + 1) in
        Inr (out @ ''='' @ take (room - 1) name, length out + 1 + length name))"

definition put_nodes ::
  "(nat \<Rightarrow> nodemask \<Rightarrow> string) \<Rightarrow> nat \<Rightarrow> nodemask \<Rightarrow> string \<times> nat \<Rightarrow> mp_err + string \<times> nat" where
  "put_nodes nodelist_scnprintf maxlen nodes op =
     (case op of (out, p) \<Rightarrow>
        if nodes = {} then Inr (out, p)
        else if maxlen < p + 2 then Inl ENOSPC
        else let l = nodelist_scnprintf (maxlen - (p + 1)) nodes in Inr (out @ '':'' @ l, p + 1 + length l))"

text \<open>\<open>debug\<close>: \<^verbatim>\<open>VM_BUG_ON\<close> is compiled in.\<close>

definition mpol_to_str ::
  "mp_env \<Rightarrow> (nat \<Rightarrow> nodemask \<Rightarrow> string) \<Rightarrow> bool \<Rightarrow> nat \<Rightarrow> mempolicy option \<Rightarrow> mp_err + string \<times> nat" where
  "mpol_to_str env nodelist_scnprintf debug maxlen pol =
     (if debug \<and> maxlen < length ''interleave'' + length ''relative'' + 16 then Inl BUG
      else case shown env pol of
        Inl e \<Rightarrow> Inl e
      | Inr (m, nodes) \<Rightarrow>
          if maxlen < length (policy_modes m) + 1 then Inl ENOSPC
          else (case put_flags maxlen (case pol of None \<Rightarrow> {} | Some p \<Rightarrow> flags p) (policy_modes m) of
              Inl e \<Rightarrow> Inl e
            | Inr op \<Rightarrow> put_nodes nodelist_scnprintf maxlen nodes op))"

section \<open>Reading what was written\<close>

lemma find_mode_policy_modes: "find_mode (policy_modes m) = Some m"
  by (cases m) (simp_all add: find_mode_def policy_modes_def)

lemma find_mode_Some: "find_mode s = Some m \<Longrightarrow> s = policy_modes m"
  by (auto simp: find_mode_def split: if_splits)

lemma chr_absent:
  assumes "c \<notin> set s"
  shows "upto_chr c s = s" "after_chr c s = None" "upto_chr c (s @ c # r) = s" "after_chr c (s @ c # r) = Some r"
proof -
  have a: "\<And>x. x \<in> set s \<Longrightarrow> x \<noteq> c" using assms by auto
  show "upto_chr c s = s" using a by (simp add: upto_chr_def)
  have "dropWhile (\<lambda>x. x \<noteq> c) s = []" using a by simp
  then show "after_chr c s = None" by (simp only: after_chr_def list.case)
  show "upto_chr c (s @ c # r) = s" using a by (simp add: upto_chr_def takeWhile_append2)
  show "after_chr c (s @ c # r) = Some r" using a by (simp add: after_chr_def dropWhile_append2)
qed

definition flag_name :: "mpol_flag set \<Rightarrow> string" where
  "flag_name fl = (if MPOL_F_STATIC_NODES \<in> fl then ''static'' else ''relative'')"

text \<open>The text of a policy: mode, flags if any, nodes if any.\<close>

definition policy_text :: "(nodemask \<Rightarrow> string) \<Rightarrow> mpol_mode \<Rightarrow> mpol_flag set \<Rightarrow> nodemask \<Rightarrow> string" where
  "policy_text pr m fl ns =
     policy_modes m @ (if fl \<inter> MPOL_MODE_FLAGS = {} then '''' else ''='' @ flag_name fl)
       @ (if ns = {} then '''' else '':'' @ pr ns)"

lemma mode_chars: "CHR ''='' \<notin> set (policy_modes m)" "CHR '':'' \<notin> set (policy_modes m)"
  by (cases m; simp add: policy_modes_def)+

lemma mode_length: "length (policy_modes m) \<le> 10"
  by (cases m) (simp_all add: policy_modes_def)

lemma policy_text_parts:
  assumes "CHR ''='' \<notin> set (pr ns)"
  shows "after_chr CHR '':'' (policy_text pr m fl ns) = (if ns = {} then None else Some (pr ns))"
    "mode_text (policy_text pr m fl ns) = policy_modes m"
    "flags_text (policy_text pr m fl ns) = (if fl \<inter> MPOL_MODE_FLAGS = {} then None else Some (flag_name fl))"
    "nodelist_left (policy_text pr m fl ns) (pr ns) = pr ns"
proof -
  define h where "h = policy_modes m @ (if fl \<inter> MPOL_MODE_FLAGS = {} then '''' else ''='' @ flag_name fl)"
  have h: "CHR '':'' \<notin> set h" using mode_chars[of m] by (simp add: h_def flag_name_def)
  have t: "policy_text pr m fl ns = (if ns = {} then h else h @ CHR '':'' # pr ns)"
    by (simp add: policy_text_def h_def)
  have u: "upto_chr CHR '':'' (policy_text pr m fl ns) = h" using chr_absent[OF h] by (simp add: t)
  show "after_chr CHR '':'' (policy_text pr m fl ns) = (if ns = {} then None else Some (pr ns))"
    using chr_absent[OF h] by (simp add: t)
  show "mode_text (policy_text pr m fl ns) = policy_modes m"
    using chr_absent[OF mode_chars(1)[of m]] by (simp add: mode_text_def u h_def)
  have e: "after_chr CHR ''='' h = (if fl \<inter> MPOL_MODE_FLAGS = {} then None else Some (flag_name fl))"
    using chr_absent[OF mode_chars(1)[of m]] by (simp add: h_def)
  have n: "after_chr CHR ''='' (policy_text pr m fl ns) = None" if "fl \<inter> MPOL_MODE_FLAGS = {}"
    using mode_chars[of m] assms that by (intro chr_absent) (auto simp: policy_text_def)
  show "flags_text (policy_text pr m fl ns) = (if fl \<inter> MPOL_MODE_FLAGS = {} then None else Some (flag_name fl))"
    using n by (simp add: flags_text_def u e)
  show "nodelist_left (policy_text pr m fl ns) (pr ns) = pr ns"
    using chr_absent(1)[OF assms] by (simp add: nodelist_left_def)
qed

lemma mpol_to_str_text:
  assumes "shown env pol = Inr (m, ns)" "34 + length (pr ns) \<le> maxlen"
    "\<And>r. length (pr ns) < r \<Longrightarrow> pl r ns = pr ns"
  shows "mpol_to_str env pl debug maxlen pol =
    Inr (let t = policy_text pr m (case pol of None \<Rightarrow> {} | Some p \<Rightarrow> flags p) ns in (t, length t))"
proof -
  have "length (policy_modes m) \<le> 10" by (rule mode_length)
  then show ?thesis using assms
    by (auto simp: mpol_to_str_def put_flags_def put_nodes_def policy_text_def flag_name_def Let_def)
qed

text \<open>
  What the code relies on in reading and writing lists of nodes: only nodes in range are read, a
  list of digits names at most one node, an equals sign is an error, what is written reads back
  and is a number for a single node.
\<close>

definition nodelist_ok :: "mp_env \<Rightarrow> (string \<Rightarrow> nodemask option) \<Rightarrow> (nodemask \<Rightarrow> string) \<Rightarrow> bool" where
  "nodelist_ok env np pr =
     ((\<forall>s ns. np s = Some ns \<longrightarrow> ns \<subseteq> {..<max_numnodes env} \<and> CHR ''='' \<notin> set s)
      \<and> (\<forall>s ns. np s = Some ns \<and> list_all isdigit s \<and> ns \<noteq> {} \<longrightarrow> (\<exists>n. ns = {n}))
      \<and> (\<forall>ns. ns \<noteq> {} \<and> ns \<subseteq> {..<max_numnodes env} \<longrightarrow> np (pr ns) = Some ns)
      \<and> (\<forall>n < max_numnodes env. list_all isdigit (pr {n})))"

lemma nodelist_okD:
  assumes "nodelist_ok env np pr"
  shows "np s = Some ns \<Longrightarrow> ns \<subseteq> {..<max_numnodes env}" "np s = Some ns \<Longrightarrow> CHR ''='' \<notin> set s"
    "np s = Some ns \<Longrightarrow> list_all isdigit s \<Longrightarrow> ns \<noteq> {} \<Longrightarrow> \<exists>n. ns = {n}"
    "ns \<noteq> {} \<Longrightarrow> ns \<subseteq> {..<max_numnodes env} \<Longrightarrow> np (pr ns) = Some ns"
    "n < max_numnodes env \<Longrightarrow> list_all isdigit (pr {n})"
  using assms by (simp_all add: nodelist_ok_def)

lemma first_node_single: "n < max_numnodes env \<Longrightarrow> first_node env {n} = n"
proof -
  assume n: "n < max_numnodes env"
  then have "List.find (\<lambda>k. k \<in> {n}) [0..<max_numnodes env] = Some n"
    unfolding find_Some_iff by (intro exI[of _ n]) auto
  then show ?thesis by (simp add: first_node_def)
qed

lemma dropWhile_digits: "dropWhile isdigit s = [] \<longleftrightarrow> list_all isdigit s"
  by (simp add: dropWhile_eq_Nil_conv list_all_iff)

definition flags_ok :: "mpol_flag set \<Rightarrow> bool" where
  "flags_ok fl = (fl = {} \<or> fl = {MPOL_F_STATIC_NODES} \<or> fl = {MPOL_F_RELATIVE_NODES})"

lemma parse_flags_ok: "parse_flags f = Some fl \<Longrightarrow> flags_ok fl"
  by (auto simp: parse_flags_def flags_ok_def split: option.splits if_splits)

lemma parse_flags_text:
  "flags_ok fl \<Longrightarrow> parse_flags (if fl \<inter> MPOL_MODE_FLAGS = {} then None else Some (flag_name fl)) = Some fl"
  by (auto simp: flags_ok_def parse_flags_def MPOL_MODE_FLAGS_def flag_name_def)

text \<open>The policies that can be read.\<close>

definition local_pol :: "mempolicy \<Rightarrow> mempolicy" where
  "local_pol q = q\<lparr>refcnt := 1, mode := MPOL_PREFERRED, flags := {MPOL_F_LOCAL}, w_nodes := {}\<rparr>"

definition preferred_pol :: "mp_env \<Rightarrow> mpol_flag set \<Rightarrow> nodemask \<Rightarrow> mempolicy \<Rightarrow> mempolicy" where
  "preferred_pol env fl ns q =
     q\<lparr>refcnt := 1, mode := MPOL_PREFERRED, flags := fl, v_preferred_node := first_node env ns, w_nodes := ns\<rparr>"

definition nodes_pol :: "mpol_mode \<Rightarrow> mpol_flag set \<Rightarrow> nodemask \<Rightarrow> mempolicy \<Rightarrow> mempolicy" where
  "nodes_pol m fl ns q = q\<lparr>refcnt := 1, mode := m, flags := fl, v_nodes := ns, w_nodes := ns\<rparr>"

lemma mpol_parse_cases:
  assumes ok: "nodelist_ok env np pr" and mem: "n_memory env \<subseteq> {..<max_numnodes env}"
    and p: "mpol_parse_str env np fresh str = Some (Some pol)"
  obtains q where "fresh = Some q" "pol = local_pol q"
  | q fl n where "fresh = Some q" "flags_ok fl" "pol = preferred_pol env fl {n} q" "{n} \<subseteq> n_memory env"
  | q fl where "fresh = Some q" "pol = preferred_pol env fl {} q" "flags_ok fl"
  | q fl m ns where "fresh = Some q" "flags_ok fl" "m = MPOL_BIND \<or> m = MPOL_INTERLEAVE" "ns \<noteq> {}"
      "ns \<subseteq> n_memory env" "pol = nodes_pol m fl ns q"
proof -
  let ?l = "after_chr CHR '':'' str"
  obtain nodes m m1 ns fl new where
    n: "parse_nodes env np ?l = Some nodes" and
    m: "find_mode (mode_text str) = Some m" and
    pm: "parse_mode env str ?l nodes m = Some (Some (m1, ns))" and
    f: "parse_flags (flags_text str) = Some fl" and
    nw: "mpol_new fresh m1 fl (Some ns) = Inr (Some new)" and
    pol: "pol = save_nodes env ?l m1 ns new"
    using p by (auto simp: mpol_parse_str_def Let_def split: option.splits sum.splits prod.splits)
  have fl: "flags_ok fl" using f by (rule parse_flags_ok)
  obtain q where q: "fresh = Some q" "m1 \<noteq> MPOL_DEFAULT"
      "new = q\<lparr>refcnt := 1, mode := (if m1 = MPOL_LOCAL then MPOL_PREFERRED else m1), flags := fl\<rparr>"
    and st: "m1 = MPOL_PREFERRED \<Longrightarrow> ns = {} \<Longrightarrow> fl = {}" "m1 \<noteq> MPOL_PREFERRED \<Longrightarrow> m1 \<noteq> MPOL_LOCAL \<Longrightarrow> ns \<noteq> {}"
    using nw fl by (auto simp: mpol_new_def flags_ok_def split: if_splits option.splits)
  have nm: "nodes \<subseteq> n_memory env" using n by (auto simp: parse_nodes_def split: option.splits if_splits)
  show thesis
  proof (cases "m1 = MPOL_PREFERRED")
    case False
    then have "m1 = MPOL_BIND \<or> m1 = MPOL_INTERLEAVE" "ns \<subseteq> n_memory env"
      using pm nm by (auto simp: parse_mode_def split: mpol_mode.splits if_splits option.splits)
    then show thesis using that(4)[OF q(1) fl, of m1 ns] st(2) False pol q(3) by (auto simp: save_nodes_def nodes_pol_def)
  next
    case True
    show thesis
    proof (cases ?l)
      case None
      then have "ns = {}" using pm n True by (auto simp: parse_mode_def parse_nodes_def split: mpol_mode.splits if_splits)
      then show thesis using that(1)[OF q(1)] st(1) True pol q(3) None by (simp add: save_nodes_def local_pol_def)
    next
      case (Some l)
      have e: "np l = Some nodes" using n Some by (auto simp: parse_nodes_def split: option.splits if_splits)
      have "nodelist_left str l = l" using chr_absent(1)[OF nodelist_okD(2)[OF ok e]] by (simp add: nodelist_left_def)
      then have d: "ns = nodes" "list_all isdigit l"
        using pm True Some by (auto simp: parse_mode_def list_all_iff split: mpol_mode.splits if_splits)
      have pl: "pol = preferred_pol env fl ns q" using pol q(3) True Some by (simp add: save_nodes_def preferred_pol_def)
      show thesis
      proof (cases "nodes = {}")
        case True
        then show thesis using that(3)[OF q(1) _ fl] pl d by blast
      next
        case False
        then obtain k where "nodes = {k}" using nodelist_okD(3)[OF ok e d(2)] by blast
        then show thesis using that(2)[OF q(1) fl] pl d(1) nm by blast
      qed
    qed
  qed
qed

text \<open>Reading the text of each of them.\<close>

lemma parse_text:
  assumes ok: "nodelist_ok env np pr" and mem: "n_memory env \<subseteq> {..<max_numnodes env}"
    and fl: "flags_ok fl" and ns: "ns \<noteq> {}" "ns \<subseteq> n_memory env"
  shows "ns = {n} \<Longrightarrow> mpol_parse_str env np (Some q) (policy_text pr MPOL_PREFERRED fl ns) = Some (Some (preferred_pol env fl ns q))"
    "m = MPOL_BIND \<or> m = MPOL_INTERLEAVE \<Longrightarrow>
     mpol_parse_str env np (Some q) (policy_text pr m fl ns) = Some (Some (nodes_pol m fl ns q))"
proof -
  have rd: "np (pr ns) = Some ns" using nodelist_okD(4)[OF ok ns(1)] ns(2) mem by blast
  note pt = policy_text_parts[where pr = pr and ns = ns, OF nodelist_okD(2)[OF ok rd]]
  note st = mpol_parse_str_def pt Let_def parse_nodes_def rd ns find_mode_policy_modes parse_mode_def parse_flags_text[OF fl]
    mpol_new_def save_nodes_def
  show "ns = {n} \<Longrightarrow> mpol_parse_str env np (Some q) (policy_text pr MPOL_PREFERRED fl ns) = Some (Some (preferred_pol env fl ns q))"
  proof -
    assume n: "ns = {n}"
    then have "list_all isdigit (pr ns)" using nodelist_okD(5)[OF ok] ns(2) mem by blast
    then have "dropWhile isdigit (pr ns) = []" unfolding dropWhile_digits .
    then show ?thesis using ns by (simp add: st preferred_pol_def del: dropWhile_eq_Nil_conv)
  qed
  show "m = MPOL_BIND \<or> m = MPOL_INTERLEAVE \<Longrightarrow>
     mpol_parse_str env np (Some q) (policy_text pr m fl ns) = Some (Some (nodes_pol m fl ns q))"
    using ns by (auto simp: st nodes_pol_def)
qed

lemma parse_plain_text:
  "mpol_parse_str env np (Some q) ''local'' = Some (Some (local_pol q))" "mpol_parse_str env np fresh ''default'' = Some None"
  by (simp_all add: mpol_parse_str_def after_chr_def parse_nodes_def find_mode_def mode_text_def upto_chr_def policy_modes_def
      parse_mode_def flags_text_def parse_flags_def mpol_new_def save_nodes_def local_pol_def)

text \<open>
  With a library that reads the empty list as the empty set, \<^verbatim>\<open>prefer:\<close> is accepted. The policy prefers
  the node \<^verbatim>\<open>MAX_NUMNODES\<close>, and writing it sets a bit beyond the mask.
\<close>

lemma prefer_empty_list:
  assumes "np '''' = Some {}"
  shows "mpol_parse_str env np (Some q) ''prefer:'' = Some (Some (preferred_pol env {} {} q))"
    "34 \<le> maxlen \<Longrightarrow> mpol_to_str env pl debug maxlen (Some (preferred_pol env {} {} q)) = Inl BUG"
proof -
  show "mpol_parse_str env np (Some q) ''prefer:'' = Some (Some (preferred_pol env {} {} q))"
    using assms by (simp add: mpol_parse_str_def after_chr_def parse_nodes_def find_mode_def mode_text_def upto_chr_def
        policy_modes_def parse_mode_def nodelist_left_def flags_text_def parse_flags_def mpol_new_def save_nodes_def
        preferred_pol_def)
  have "first_node env {} = max_numnodes env" by (auto simp: first_node_def find_Some_iff split: option.split)
  then show "34 \<le> maxlen \<Longrightarrow> mpol_to_str env pl debug maxlen (Some (preferred_pol env {} {} q)) = Inl BUG"
    by (simp add: mpol_to_str_def shown_def preferred_pol_def)
qed

section \<open>Correctness\<close>

text \<open>
  C32. A policy read from a mount option is written as a text that reads back as the same policy, whatever
  the option looked like (\<^verbatim>\<open>prefer\<close> without nodes and \<^verbatim>\<open>local\<close> are one policy, \<^verbatim>\<open>interleave\<close> without
  nodes stands for all nodes with memory). This excludes the policy preferring a node of an
  empty list, which \<^verbatim>\<open>mpol_parse_str\<close> lets pass.
\<close>

theorem mpol_str_roundtrip:
  assumes "nodelist_ok env np pr" "n_memory env \<subseteq> {..<max_numnodes env}"
    "\<And>ns. ns \<subseteq> n_memory env \<Longrightarrow> 34 + length (pr ns) \<le> maxlen"
    "\<And>ns r. length (pr ns) < r \<Longrightarrow> pl r ns = pr ns"
    "mpol_parse_str env np fresh str = Some pol"
    "\<And>p. pol = Some p \<Longrightarrow> mode p = MPOL_PREFERRED \<Longrightarrow> MPOL_F_LOCAL \<in> flags p \<or> w_nodes p \<noteq> {}"
  shows "\<exists>t. mpol_to_str env pl debug maxlen pol = Inr (t, length t) \<and> mpol_parse_str env np fresh t = Some pol"
proof (cases pol)
  case None
  have "shown env None = Inr (MPOL_DEFAULT, {})" by (simp add: shown_def)
  from mpol_to_str_text[where pr = pr and pl = pl, OF this assms(3)[OF empty_subsetI] assms(4)] None
  show ?thesis using parse_plain_text(2) by (simp add: policy_text_def policy_modes_def Let_def)
next
  case (Some p)
  have w: ?thesis if "shown env (Some p) = Inr (m, ns)" "ns \<subseteq> n_memory env"
      "mpol_parse_str env np fresh (policy_text pr m (flags p) ns) = Some (Some p)" for m ns
    using mpol_to_str_text[where pr = pr and pl = pl, OF that(1) assms(3)[OF that(2)] assms(4)] that(3) Some by (simp add: Let_def)
  from mpol_parse_cases[OF assms(1,2) assms(5)[unfolded Some]] show ?thesis
  proof cases
    case (1 q)
    then show ?thesis using parse_plain_text(1)
      by (intro w[of MPOL_LOCAL "{}"]) (simp_all add: shown_def local_pol_def policy_text_def policy_modes_def MPOL_MODE_FLAGS_def)
  next
    case (2 q fl n)
    have "n < max_numnodes env" using 2(4) assms(2) by auto
    then show ?thesis using parse_text(1)[OF assms(1,2) 2(2) _ 2(4)] 2
      by (intro w[of MPOL_PREFERRED "{n}"]) (auto simp: shown_def preferred_pol_def first_node_single flags_ok_def)
  next
    case (3 q fl)
    then show ?thesis using assms(6)[OF Some] by (auto simp: preferred_pol_def flags_ok_def)
  next
    case (4 q fl m ns)
    then show ?thesis using parse_text(2)[OF assms(1,2) 4(2,4,5,3)]
      by (intro w[of m ns]) (auto simp: shown_def nodes_pol_def flags_ok_def)
  qed
qed

definition one_node :: mp_env where
  "one_node = \<lparr>max_numnodes = 1, mems_allowed = {0}, n_memory = {0}, numa_node = 0, nodes_fold = \<lambda>ns k. ns, nodes_onto = \<lambda>ns r. r,
     nodes_remap = \<lambda>ns o1 n. n, node_remap = \<lambda>n o1 m. n\<rparr>"

definition one_parse :: "string \<Rightarrow> nodemask option" where
  "one_parse s = (if s = ''0'' then Some {0} else None)"

lemma one_node_ok: "nodelist_ok one_node one_parse (\<lambda>ns. ''0'')"
proof -
  have "ns = {0}" if "ns \<noteq> {}" "ns \<subseteq> {..<Suc 0}" for ns :: "nat set" using that by auto
  then show ?thesis by (auto simp: nodelist_ok_def one_node_def one_parse_def isdigit_def)
qed

theorem mpol_str_roundtrip_witness:
  "\<exists>p t. mpol_parse_str one_node one_parse (Some default_policy) ''bind=static:0'' = Some (Some p)
    \<and> mpol_to_str one_node (\<lambda>r ns. ''0'') True 64 (Some p) = Inr (t, length t)
    \<and> mpol_parse_str one_node one_parse (Some default_policy) t = Some (Some p)"
proof -
  let ?p = "nodes_pol MPOL_BIND {MPOL_F_STATIC_NODES} {0} default_policy"
  have p: "mpol_parse_str one_node one_parse (Some default_policy) ''bind=static:0'' = Some (Some ?p)"
    by (simp add: mpol_parse_str_def after_chr_def parse_nodes_def find_mode_def mode_text_def upto_chr_def policy_modes_def
        parse_mode_def flags_text_def parse_flags_def mpol_new_def save_nodes_def nodes_pol_def one_node_def one_parse_def)
  have "n_memory one_node \<subseteq> {..<max_numnodes one_node}" by (simp add: one_node_def)
  from mpol_str_roundtrip[OF one_node_ok this _ _ p, of 64 "\<lambda>r ns. ''0''" True] p
  show ?thesis by (auto simp: nodes_pol_def)
qed

end
