(* ===== verification/Mempolicy_Calls.thy ===== *)
theory Mempolicy_Calls
  imports Mempolicy_Node
begin

text \<open>
  The system calls on memory policies: node masks copied from and to user space, setting and
  reading the policy of the current task, and the migration of pages between two sets of nodes.
\<close>

section \<open>Node masks in user space\<close>

text \<open>User memory gives the words of a mask; \<open>None\<close> is a fault.\<close>

type_synonym user_mask = "nat \<Rightarrow> 64 word option"

definition BITS_TO_LONGS :: "nat \<Rightarrow> nat" where
  "BITS_TO_LONGS n = (n + 63) div 64"

text \<open>The words beyond those of the kernel; the last one counts up to \<open>endmask\<close>.\<close>

fun check_unsupported :: "user_mask \<Rightarrow> 64 word \<Rightarrow> nat \<Rightarrow> nat list \<Rightarrow> mp_err option" where
  "check_unsupported user endmask nlongs [] = None"
| "check_unsupported user endmask nlongs (k # ks) =
     (case user k of
        None \<Rightarrow> Some EFAULT
      | Some t \<Rightarrow>
          if k = nlongs - 1 then (if t AND endmask \<noteq> 0 then Some EINVAL else check_unsupported user endmask nlongs ks)
          else if t \<noteq> 0 then Some EINVAL
          else check_unsupported user endmask nlongs ks)"

definition nodes_of_words :: "64 word list \<Rightarrow> nodemask" where
  "nodes_of_words ws = {i. i < 64 * length ws \<and> bit (ws ! (i div 64)) (i mod 64)}"

definition copy_words :: "user_mask \<Rightarrow> nat \<Rightarrow> 64 word \<Rightarrow> mp_err + nodemask" where
  "copy_words user nlongs endmask =
     (if list_ex (\<lambda>k. user k = None) [0..<nlongs] then Inl EFAULT
      else
        let ws = map (\<lambda>k. the (user k)) [0..<nlongs] in
        Inr (nodes_of_words (ws[nlongs - 1 := ws ! (nlongs - 1) AND endmask])))"

text \<open>\<open>PSZ\<close> is \<^verbatim>\<open>PAGE_SIZE\<close>.\<close>

definition get_nodes :: "nat \<Rightarrow> mp_env \<Rightarrow> user_mask option \<Rightarrow> 64 word \<Rightarrow> mp_err + nodemask" where
  "get_nodes PSZ env nmask maxnode =
     (let m = unat (maxnode - 1) in
      case nmask of
        None \<Rightarrow> Inr {}
      | Some user \<Rightarrow>
          if m = 0 then Inr {}
          else if m > PSZ * 8 then Inl EINVAL
          else
            let nlongs = BITS_TO_LONGS m;
                endmask = (if m mod 64 = 0 then - 1 else push_bit (m mod 64) 1 - 1);
                supported = BITS_TO_LONGS (max_numnodes env) in
            if nlongs > supported then
              (if nlongs > PSZ div 8 then Inl EINVAL
               else case check_unsupported user endmask nlongs [supported..<nlongs] of
                   Some e \<Rightarrow> Inl e
                 | None \<Rightarrow> copy_words user supported (- 1))
            else copy_words user nlongs endmask)"

definition word_of_nodes :: "nodemask \<Rightarrow> nat \<Rightarrow> 64 word" where
  "word_of_nodes ns k = fold (\<lambda>j w. if 64 * k + j \<in> ns then set_bit j w else w) [0..<64] 0"

text \<open>\<open>ok\<close> tells whether the user memory can be written.\<close>

definition copy_nodes_to_user ::
  "nat \<Rightarrow> mp_env \<Rightarrow> bool \<Rightarrow> (nat \<Rightarrow> 64 word) \<Rightarrow> 64 word \<Rightarrow> nodemask \<Rightarrow> mp_err option \<times> (nat \<Rightarrow> 64 word)" where
  "copy_nodes_to_user PSZ env ok umem maxnode nodes =
     (let copy = (unat (maxnode - 1) + 63) div 64 * 8;
          nbytes = BITS_TO_LONGS (max_numnodes env) * 8 in
      if copy > nbytes \<and> copy > PSZ then (Some EINVAL, umem)
      else if \<not> ok then (Some EFAULT, umem)
      else
        let n = min copy nbytes div 8 in
        (None, \<lambda>k. if k < n then word_of_nodes nodes k else if k < copy div 8 then 0 else umem k))"

section \<open>Setting and reading a policy\<close>

text \<open>\<open>decode\<close> takes the flags out of a mode; no mode is a number out of range.\<close>

definition set_mempolicy ::
  "nat \<Rightarrow> mp_env \<Rightarrow> (int \<Rightarrow> mpol_flag set \<times> mpol_mode option) \<Rightarrow> bool \<Rightarrow> mempolicy option \<Rightarrow> int \<Rightarrow> user_mask option \<Rightarrow> 64 word
   \<Rightarrow> mp_task \<Rightarrow> mp_err option \<times> mp_task" where
  "set_mempolicy PSZ env decode scratch fresh md nmask maxnode t =
     (case decode md of
        (fl, None) \<Rightarrow> (Some EINVAL, t)
      | (fl, Some m) \<Rightarrow>
          if MPOL_F_STATIC_NODES \<in> fl \<and> MPOL_F_RELATIVE_NODES \<in> fl then (Some EINVAL, t)
          else (case get_nodes PSZ env nmask maxnode of
              Inl e \<Rightarrow> (Some e, t)
            | Inr nodes \<Rightarrow> do_set_mempolicy env scratch fresh m fl (Some nodes) t))"

datatype get_flag = MPOL_F_NODE | MPOL_F_ADDR | MPOL_F_MEMS_ALLOWED | MPOL_F_OTHER

text \<open>What a query returns as the policy: a mode with the flags shown to the user, or a node.\<close>

datatype policy_value = Pol_Zero | Pol_Node int | Pol_Mode mpol_mode "mpol_flag set"

text \<open>
  \<open>find_policy\<close> is the policy of the area at an address, \<open>None\<close> if there is no area; \<open>lookup\<close> is the node of
  the page there or a negative error.
\<close>

definition do_get_mempolicy ::
  "mp_env \<Rightarrow> (64 word \<Rightarrow> mempolicy option option) \<Rightarrow> (64 word \<Rightarrow> int) \<Rightarrow> 64 word \<Rightarrow> get_flag set \<Rightarrow> mp_task
   \<Rightarrow> (int + mp_err) + policy_value \<times> nodemask" where
  "do_get_mempolicy env find_policy lookup addr fl t =
     (if MPOL_F_OTHER \<in> fl then Inl (Inr EINVAL)
      else if MPOL_F_MEMS_ALLOWED \<in> fl then
        (if MPOL_F_NODE \<in> fl \<or> MPOL_F_ADDR \<in> fl then Inl (Inr EINVAL) else Inr (Pol_Zero, mems_allowed env))
      else if MPOL_F_ADDR \<notin> fl \<and> addr \<noteq> 0 then Inl (Inr EINVAL)
      else case (if MPOL_F_ADDR \<in> fl then find_policy addr else Some (mempol t)) of
          None \<Rightarrow> Inl (Inr EFAULT)
        | Some pol \<Rightarrow>
            let value =
                  (if MPOL_F_NODE \<in> fl then
                     (if MPOL_F_ADDR \<in> fl then
                        (if lookup addr < 0 then Inl (Inl (lookup addr)) else Inr (Pol_Node (lookup addr)))
                      else if (case pol of None \<Rightarrow> False | Some p \<Rightarrow> mode p = MPOL_INTERLEAVE)
                      then Inr (Pol_Node (int (il_next t)))
                      else Inl (Inr EINVAL))
                   else Inr (case pol of
                       None \<Rightarrow> Pol_Mode MPOL_DEFAULT (flags default_policy \<inter> MPOL_MODE_FLAGS)
                     | Some p \<Rightarrow> Pol_Mode (mode p) (flags p \<inter> MPOL_MODE_FLAGS))) in
            (case value of
               Inl e \<Rightarrow> Inl e
             | Inr v \<Rightarrow>
                 (case pol of
                    None \<Rightarrow> Inr (v, {})
                  | Some p \<Rightarrow>
                      if mpol_store_user_nodemask p then Inr (v, w_nodes p)
                      else (case get_policy_nodemask pol of None \<Rightarrow> Inl (Inr BUG) | Some ns \<Rightarrow> Inr (v, ns)))))"

section \<open>Migration\<close>

text \<open>The scan for a pair: the first whose destination is not among the remaining sources, or the last one that moves.\<close>

fun pick_pair :: "mp_env \<Rightarrow> nodemask \<Rightarrow> nodemask \<Rightarrow> nodemask \<Rightarrow> nat list \<Rightarrow> (nat \<times> nat) option \<Rightarrow> (nat \<times> nat) option" where
  "pick_pair env src to tmp [] acc = acc"
| "pick_pair env src to tmp (s # ss) acc =
     (if nodes_weight env src \<noteq> nodes_weight env to \<and> s \<in> to then pick_pair env src to tmp ss acc
      else let d = node_remap env s src to in
        if d = s then pick_pair env src to tmp ss acc
        else if d \<notin> tmp then Some (s, d)
        else pick_pair env src to tmp ss (Some (s, d)))"

lemma pick_pair_spec:
  "pick_pair env src to tmp ss acc = Some (s, d) \<Longrightarrow>
   acc = Some (s, d) \<or> s \<in> set ss \<and> d = node_remap env s src to \<and> d \<noteq> s
     \<and> (nodes_weight env src = nodes_weight env to \<or> s \<notin> to)"
  by (induction env src to tmp ss acc rule: pick_pair.induct) (auto simp: Let_def split: if_splits)

text \<open>
  The loop of \<^verbatim>\<open>do_migrate_pages\<close>: the pages that stayed, or an error, and the moves in order. \<open>migrate\<close> is
  \<^verbatim>\<open>migrate_to_node\<close>.
\<close>

function migrate_loop ::
  "mp_env \<Rightarrow> (nat \<Rightarrow> nat \<Rightarrow> int) \<Rightarrow> nodemask \<Rightarrow> nodemask \<Rightarrow> nodemask \<Rightarrow> int \<Rightarrow> int \<times> (nat \<times> nat) list" where
  "migrate_loop env migrate src to tmp busy =
     (case pick_pair env src to tmp (node_list env tmp) None of
        None \<Rightarrow> (busy, [])
      | Some (s, d) \<Rightarrow>
          let err = migrate s d in
          if err < 0 then (err, [(s, d)])
          else apsnd ((#) (s, d)) (migrate_loop env migrate src to (tmp - {s}) (busy + err)))"
  by auto
termination
proof (relation "measure (\<lambda>(env, migrate, src, to, tmp, busy). length (node_list env tmp))")
  fix env migrate src to tmp busy x2 s d err
  assume "pick_pair env src to tmp (node_list env tmp) None = Some x2" "(s, d) = x2"
  then have s: "s \<in> set (node_list env tmp)" using pick_pair_spec by fastforce
  have "node_list env (tmp - {s}) = filter (\<lambda>n. n \<noteq> s) (node_list env tmp)"
    by (simp add: node_list_def conj_commute)
  moreover have "length (filter (\<lambda>n. n \<noteq> s) (node_list env tmp)) < length (node_list env tmp)"
    by (rule length_filter_less[OF s]) simp
  ultimately show "((env, migrate, src, to, tmp - {s}, busy + err), env, migrate, src, to, tmp, busy)
    \<in> measure (\<lambda>(env, migrate, src, to, tmp, busy). length (node_list env tmp))" by simp
qed simp

declare migrate_loop.simps [simp del]

definition do_migrate_pages ::
  "mp_env \<Rightarrow> int \<Rightarrow> int \<Rightarrow> (nat \<Rightarrow> nat \<Rightarrow> int) \<Rightarrow> nodemask \<Rightarrow> nodemask \<Rightarrow> int \<times> (nat \<times> nat) list" where
  "do_migrate_pages env prep vmas migrate src to =
     (if prep \<noteq> 0 then (prep, [])
      else if vmas \<noteq> 0 then (if vmas < 0 then (vmas, []) else (0, []))
      else migrate_loop env migrate src to src 0)"

end
