(* ===== verification/Mempolicy_Correct.thy ===== *)
theory Mempolicy_Correct
  imports Mempolicy_Calls
begin

text \<open>
  Properties of memory policies: interleaving visits the nodes of a mask in turn, a node mask is
  read from user space exactly, a policy stays within the nodes allowed, and a migration moves
  every node once.
\<close>

section \<open>Searching a mask\<close>

lemma find_hd: "List.find P xs = (case filter P xs of [] \<Rightarrow> None | x # r \<Rightarrow> Some x)"
  by (induction xs) auto

lemma node_list_split:
  assumes "k < length (node_list env s)" "node_list env s ! k = n"
  shows "drop (Suc k) (node_list env s) = filter (\<lambda>n. n \<in> s) [Suc n..<max_numnodes env]"
proof -
  let ?P = "\<lambda>n. n \<in> s"
  have "n \<in> set (node_list env s)" using assms nth_mem by blast
  then have n: "n \<in> s" "n < max_numnodes env" by (auto simp: node_list_def)
  have "[0..<max_numnodes env] = [0..<n] @ n # [Suc n..<max_numnodes env]"
    using n(2) upt_add_eq_append[of 0 n "max_numnodes env - n"] by (simp add: upt_conv_Cons)
  then have e: "node_list env s = filter ?P [0..<n] @ n # filter ?P [Suc n..<max_numnodes env]"
    unfolding node_list_def using n(1) by simp
  have "distinct (node_list env s)" by (simp add: node_list_def)
  moreover have "node_list env s ! length (filter ?P [0..<n]) = n" "length (filter ?P [0..<n]) < length (node_list env s)"
    unfolding e by simp_all
  ultimately have "length (filter ?P [0..<n]) = k" using assms nth_eq_iff_index_eq by blast
  then show ?thesis unfolding e by auto
qed

lemma first_node_hd: "node_list env s \<noteq> [] \<Longrightarrow> first_node env s = node_list env s ! 0"
  by (cases "node_list env s") (simp_all add: first_node_def find_hd flip: node_list_def)

lemma next_node_nth:
  assumes "k < length (node_list env s)"
  shows "next_node env (node_list env s ! k) s =
    (if Suc k < length (node_list env s) then node_list env s ! Suc k else max_numnodes env)"
proof -
  have "drop (Suc k) (node_list env s) = (if Suc k < length (node_list env s)
      then node_list env s ! Suc k # drop (Suc (Suc k)) (node_list env s) else [])"
    by (simp add: Cons_nth_drop_Suc)
  then show ?thesis
    using node_list_split[OF assms refl] by (auto simp: next_node_def find_hd split: if_splits list.splits)
qed

lemma node_list_bound: "k < length (node_list env s) \<Longrightarrow> node_list env s ! k < max_numnodes env"
  using nth_mem[of k "node_list env s"] by (auto simp: node_list_def)

lemma first_node_bound: "s \<inter> {..<max_numnodes env} \<noteq> {} \<Longrightarrow> first_node env s < max_numnodes env \<and> first_node env s \<in> s"
proof -
  assume "s \<inter> {..<max_numnodes env} \<noteq> {}"
  then have "node_list env s \<noteq> []" by (auto simp: node_list_def filter_empty_conv)
  then show ?thesis using first_node_hd nth_mem[of 0 "node_list env s"] by (auto simp: node_list_def)
qed

section \<open>Interleaving\<close>

lemma il_walk_nth:
  "k + c < length (node_list env s) \<Longrightarrow> il_walk env s c (node_list env s ! k) = node_list env s ! (k + c)"
proof (induction c arbitrary: k)
  case (Suc c)
  then show ?case using next_node_nth[of k env s] Suc.IH[of "Suc k"] by simp
qed simp

text \<open>\<open>il_seq\<close> are the nodes that a number of calls of \<^verbatim>\<open>interleave_nodes\<close> returns.\<close>

fun il_seq :: "mp_env \<Rightarrow> mempolicy \<Rightarrow> nat \<Rightarrow> mp_task \<Rightarrow> nat list" where
  "il_seq env pol 0 me = []"
| "il_seq env pol (Suc c) me = (case interleave_nodes env pol me of (n, me1) \<Rightarrow> n # il_seq env pol c me1)"

lemma interleave_step:
  assumes "k < length (node_list env (v_nodes pol))" "il_next me = node_list env (v_nodes pol) ! k"
  shows "interleave_nodes env pol me = (node_list env (v_nodes pol) ! k,
    me\<lparr>il_next := node_list env (v_nodes pol) ! (Suc k mod length (node_list env (v_nodes pol)))\<rparr>)"
proof -
  let ?l = "node_list env (v_nodes pol)"
  have ne: "?l \<noteq> []" using assms(1) by auto
  show ?thesis
  proof (cases "Suc k < length ?l")
    case True
    then show ?thesis using assms next_node_nth[OF assms(1)] node_list_bound[OF True] by (simp add: interleave_nodes_def Let_def)
  next
    case False
    then have "Suc k = length ?l" using assms(1) by simp
    moreover have "?l ! 0 < max_numnodes env" using ne by (intro node_list_bound) simp
    ultimately show ?thesis using assms next_node_nth[OF assms(1)] first_node_hd[OF ne]
      by (simp add: interleave_nodes_def Let_def)
  qed
qed

lemma il_seq_rotation:
  assumes "k < length (node_list env (v_nodes pol))" "il_next me = node_list env (v_nodes pol) ! k"
  shows "il_seq env pol c me =
    map (\<lambda>j. node_list env (v_nodes pol) ! ((k + j) mod length (node_list env (v_nodes pol)))) [0..<c]"
  using assms
proof (induction c arbitrary: k me)
  case (Suc c)
  let ?l = "node_list env (v_nodes pol)"
  let ?k = "Suc k mod length ?l"
  have k: "?k < length ?l" using Suc.prems(1) by (intro mod_less_divisor) linarith
  have "il_seq env pol (Suc c) me = ?l ! k # map (\<lambda>j. ?l ! ((?k + j) mod length ?l)) [0..<c]"
    using interleave_step[OF Suc.prems] Suc.IH[OF k, of "me\<lparr>il_next := ?l ! ?k\<rparr>"] by simp
  also have "\<dots> = map (\<lambda>j. ?l ! ((k + j) mod length ?l)) (0 # map Suc [0..<c])"
    using Suc.prems(1) by (simp add: mod_add_left_eq)
  also have "0 # map Suc [0..<c] = [0..<Suc c]" by (metis map_Suc_upt upt_rec zero_less_Suc)
  finally show ?case .
qed simp

text \<open>
  C33. Interleaving spreads pages evenly. For a page at an offset, the node is the one at the offset modulo
  the number of nodes in the list of the mask's nodes, the offset cut to 32 bits. For a task,
  after \<^verbatim>\<open>do_set_mempolicy\<close> set such a policy, successive allocations visit these nodes in order and
  start again at the first.
\<close>

theorem interleave_even:
  assumes "mode pol = MPOL_INTERLEAVE" "nodes_weight env (v_nodes pol) > 0"
  shows "offset_il_node env pol off = node_list env (v_nodes pol) ! (unat (ucast off :: u32) mod nodes_weight env (v_nodes pol))
    \<and> (do_set_mempolicy env scratch fresh md fl nodes t = (None, t1) \<and> mempol t1 = Some pol \<longrightarrow>
      il_seq env pol c t1 = map (\<lambda>j. node_list env (v_nodes pol) ! (j mod nodes_weight env (v_nodes pol))) [0..<c])"
proof (intro conjI impI; (elim conjE)?)
  let ?l = "node_list env (v_nodes pol)"
  have ne: "?l \<noteq> []" using assms(2) by (auto simp: nodes_weight_def)
  have "unat (ucast off :: u32) mod length ?l < length ?l" using ne by simp
  then show "offset_il_node env pol off = ?l ! (unat (ucast off :: u32) mod nodes_weight env (v_nodes pol))"
    using il_walk_nth[of 0 _ env "v_nodes pol"] first_node_hd[OF ne] ne by (simp add: offset_il_node_def nodes_weight_def)
  assume s: "do_set_mempolicy env scratch fresh md fl nodes t = (None, t1)" "mempol t1 = Some pol"
  then have "il_next t1 = ?l ! 0"
    using assms first_node_hd[OF ne]
    by (auto simp: do_set_mempolicy_def mpol_fix_fork_child_flag_def Let_def split: if_splits sum.splits option.splits)
  then show "il_seq env pol c t1 = map (\<lambda>j. ?l ! (j mod nodes_weight env (v_nodes pol))) [0..<c]"
    using il_seq_rotation[of 0 env pol t1 c] ne by (simp add: nodes_weight_def)
qed

text \<open>Two nodes, both with memory.\<close>

definition two_nodes :: mp_env where
  "two_nodes = \<lparr>max_numnodes = 2, mems_allowed = {0, 1}, n_memory = {0, 1}, numa_node = 0, nodes_fold = \<lambda>s k. s,
     nodes_onto = \<lambda>s r. r, nodes_remap = \<lambda>s o1 n. n,
     node_remap = \<lambda>n o1 m. if o1 = m \<or> n \<in> m then n else if 0 \<in> m then 0 else 1\<rparr>"

definition two_task :: mp_task where
  "two_task = \<lparr>mempol = None, il_next = 0, pf_mempolicy = False, released = []\<rparr>"

definition two_pol :: mempolicy where
  "two_pol = default_policy\<lparr>mode := MPOL_INTERLEAVE, flags := {}, v_nodes := {0, 1}, w_nodes := {0, 1}\<rparr>"

lemma two_set:
  "do_set_mempolicy two_nodes True (Some default_policy) MPOL_INTERLEAVE {} (Some {0, 1}) two_task
    = (None, \<lparr>mempol = Some two_pol, il_next = 0, pf_mempolicy = True, released = [None]\<rparr>)"
  by (simp add: do_set_mempolicy_def mpol_new_def mpol_set_nodemask_def mpol_create_def mpol_new_interleave_def two_nodes_def
      two_task_def two_pol_def default_policy_def mpol_store_user_nodemask_def MPOL_MODE_FLAGS_def nodes_weight_def node_list_def
      mpol_fix_fork_child_flag_def first_node_def upt_rec Let_def)

theorem interleave_even_witness:
  "offset_il_node two_nodes two_pol 5 = node_list two_nodes {0, 1} ! 1
    \<and> il_seq two_nodes two_pol 3 \<lparr>mempol = Some two_pol, il_next = 0, pf_mempolicy = True, released = [None]\<rparr>
      = map (\<lambda>j. node_list two_nodes {0, 1} ! (j mod 2)) [0..<3]"
proof -
  have v: "mode two_pol = MPOL_INTERLEAVE" "v_nodes two_pol = {0, 1}" by (simp_all add: two_pol_def)
  have w: "nodes_weight two_nodes {0, 1} = 2" by (simp add: nodes_weight_def node_list_def two_nodes_def upt_rec)
  have "nodes_weight two_nodes (v_nodes two_pol) > 0" using v w by simp
  from interleave_even[OF v(1) this, where off = 5 and c = 3 and t = two_task and scratch = True and fl = "{}"] two_set
  show ?thesis unfolding v(2) w by fastforce
qed

section \<open>Node masks from user space\<close>

definition user_bit :: "user_mask \<Rightarrow> nat \<Rightarrow> bool" where
  "user_bit user i = (case user (i div 64) of None \<Rightarrow> False | Some w \<Rightarrow> bit w (i mod 64))"

lemma longs_bound: "m > 0 \<Longrightarrow> m \<le> 64 * BITS_TO_LONGS m \<and> 64 * (BITS_TO_LONGS m - 1) < m \<and> BITS_TO_LONGS m > 0"
  unfolding BITS_TO_LONGS_def by (auto simp: algebra_simps)

lemma endmask_bit:
  assumes "j < 64"
  shows "bit ((if m mod 64 = 0 then - 1 else push_bit (m mod 64) 1 - 1) :: 64 word) j \<longleftrightarrow> m mod 64 = 0 \<or> j < m mod 64"
proof (cases "m mod 64 = 0")
  case False
  have "(push_bit (m mod 64) 1 - 1 :: 64 word) = Bit_Operations.mask (m mod 64)" by (simp add: mask_eq_exp_minus_1 push_bit_of_1)
  then show ?thesis using False assms by (simp add: bit_mask_iff)
qed (use assms in simp)

lemma last_word:
  assumes "m > 0" "i div 64 = BITS_TO_LONGS m - 1"
  shows "i < m \<longleftrightarrow> m mod 64 = 0 \<or> i mod 64 < m mod 64"
proof -
  obtain n where n: "m = Suc n" using assms(1) gr0_implies_Suc by blast
  have "BITS_TO_LONGS m - 1 = n div 64"
    using div_add_self2[of 64 n] unfolding BITS_TO_LONGS_def n by simp
  then have d: "i div 64 = n div 64" using assms(2) by simp
  have "i = 64 * (n div 64) + i mod 64" "n = 64 * (n div 64) + n mod 64"
    using mult_div_mod_eq[of 64 i] mult_div_mod_eq[of 64 n] d by simp_all
  then have "i < m \<longleftrightarrow> i mod 64 \<le> n mod 64" unfolding n by linarith
  moreover have "m mod 64 = (if Suc (n mod 64) = 64 then 0 else Suc (n mod 64))" unfolding n by (rule mod_Suc)
  moreover have "i mod 64 < 64" by simp
  ultimately show ?thesis by auto
qed

lemma copy_words_nodes:
  assumes "copy_words user n em = Inr ns" "n > 0"
  shows "ns = {i. i < 64 * n \<and> user_bit user i \<and> (i div 64 = n - 1 \<longrightarrow> bit em (i mod 64))}"
proof -
  let ?ws = "map (\<lambda>k. the (user k)) [0..<n]"
  have d: "user k \<noteq> None" if "k < n" for k using assms(1) that by (auto simp: copy_words_def list_ex_iff split: if_splits)
  have ns: "ns = nodes_of_words (?ws[n - 1 := ?ws ! (n - 1) AND em])"
    using assms(1) by (simp add: copy_words_def Let_def split: if_splits)
  have "bit ((?ws[n - 1 := ?ws ! (n - 1) AND em]) ! (i div 64)) (i mod 64)
      \<longleftrightarrow> user_bit user i \<and> (i div 64 = n - 1 \<longrightarrow> bit em (i mod 64))" if "i < 64 * n" for i
  proof -
    have k: "i div 64 < n" using that by (simp add: div_less_iff_less_mult mult.commute)
    then obtain w where "user (i div 64) = Some w" using d by blast
    then show ?thesis using k assms(2) by (auto simp: user_bit_def nth_list_update bit_and_iff)
  qed
  then show ?thesis unfolding ns nodes_of_words_def length_list_update length_map length_upt diff_zero by blast
qed

lemma check_unsupported_None:
  assumes "check_unsupported user em n ks = None" "k \<in> set ks"
  shows "\<exists>w. user k = Some w \<and> (if k = n - 1 then w AND em = 0 else w = 0)"
  using assms by (induction ks) (auto split: option.splits if_splits)

text \<open>
  C31. \<^verbatim>\<open>get_nodes\<close> reads exactly the nodes the caller asked for: if it succeeds, the mask holds the
  nodes below \<^verbatim>\<open>maxnode - 1\<close> whose bit is set in the words of the user, no node is dropped because the
  kernel has fewer words, and no bit behind the end counts.
\<close>

theorem get_nodes_exact:
  assumes "get_nodes PSZ env (Some user) maxnode = Inr ns" "max_numnodes env > 0"
  shows "ns = {i. i < unat (maxnode - 1) \<and> user_bit user i}"
proof (cases "unat (maxnode - 1) = 0")
  case True
  then show ?thesis using assms(1) by (simp add: get_nodes_def Let_def)
next
  case False
  define m where "m = unat (maxnode - 1)"
  define em :: "64 word" where "em = (if m mod 64 = 0 then - 1 else push_bit (m mod 64) 1 - 1)"
  let ?n = "BITS_TO_LONGS m" and ?s = "BITS_TO_LONGS (max_numnodes env)"
  have m: "m > 0" using False by (simp add: m_def)
  have eb: "bit em (i mod 64) \<longleftrightarrow> m mod 64 = 0 \<or> i mod 64 < m mod 64" for i
    unfolding em_def by (rule endmask_bit) simp
  have lw: "i < m \<longleftrightarrow> bit em (i mod 64)" if "i div 64 = ?n - 1" for i using last_word[OF m that] eb by simp
  have below: "i < m" if "i div 64 < ?n - 1" for i using that longs_bound[OF m] by linarith
  show ?thesis
  proof (cases "?n > ?s")
    case False
    then have "copy_words user ?n em = Inr ns"
      using assms(1) m unfolding get_nodes_def m_def[symmetric] em_def by (simp add: Let_def split: if_splits)
    from copy_words_nodes[OF this] have ns: "ns = {i. i < 64 * ?n \<and> user_bit user i \<and> (i div 64 = ?n - 1 \<longrightarrow> bit em (i mod 64))}"
      using longs_bound[OF m] by simp
    have "i < 64 * ?n \<and> (i div 64 = ?n - 1 \<longrightarrow> bit em (i mod 64)) \<longleftrightarrow> i < m" for i
    proof -
      have "i < 64 * ?n \<longleftrightarrow> i div 64 = ?n - 1 \<or> i div 64 < ?n - 1" using longs_bound[OF m] by linarith
      then show ?thesis using lw below longs_bound[OF m] by (meson less_le_trans)
    qed
    then show ?thesis unfolding ns m_def by blast
  next
    case True
    then have c: "check_unsupported user em ?n [?s..<?n] = None" "copy_words user ?s (- 1) = Inr ns"
      using assms(1) m unfolding get_nodes_def m_def[symmetric] em_def by (simp_all add: Let_def split: if_splits option.splits)
    have ns: "ns = {i. i < 64 * ?s \<and> user_bit user i}"
      using copy_words_nodes[OF c(2)] longs_bound[OF assms(2)] by simp
    have "\<not> user_bit user i" if i: "i < m" "\<not> i < 64 * ?s" for i
    proof -
      have k: "i div 64 \<in> set [?s..<?n]" using i longs_bound[OF m] by auto
      from check_unsupported_None[OF c(1) k] obtain w
        where w: "user (i div 64) = Some w" "if i div 64 = ?n - 1 then w AND em = 0 else w = 0" by blast
      have "\<not> (bit w (i mod 64))" if "i div 64 = ?n - 1"
        using w(2) that lw[OF that] i(1) by (metis bit_0_eq bit_and_iff bot_apply bot_bool_def)
      then show ?thesis using w by (auto simp: user_bit_def split: if_splits)
    qed
    moreover have "i < m" if "i < 64 * ?s" for i using that True longs_bound[OF m] by linarith
    ultimately show ?thesis unfolding ns m_def by blast
  qed
qed

theorem get_nodes_exact_witness:
  "\<exists>ns. get_nodes 4096 two_nodes (Some (\<lambda>k. Some 5)) 3 = Inr ns \<and> ns = {i. i < 2 \<and> user_bit (\<lambda>k. Some 5) i}"
proof -
  have "\<exists>ns. get_nodes 4096 two_nodes (Some (\<lambda>k. Some 5)) 3 = Inr ns"
    by (simp add: get_nodes_def Let_def two_nodes_def BITS_TO_LONGS_def copy_words_def list_ex_iff)
  then obtain ns where n: "get_nodes 4096 two_nodes (Some (\<lambda>k. Some 5)) 3 = Inr ns" by blast
  have "max_numnodes two_nodes > 0" by (simp add: two_nodes_def)
  from get_nodes_exact[OF n this] n show ?thesis by simp
qed

section \<open>Confinement\<close>

text \<open>What the code relies on in the operations on masks that are arguments.\<close>

definition mask_ops_ok :: "mp_env \<Rightarrow> bool" where
  "mask_ops_ok env =
     ((\<forall>s r. nodes_onto env s r \<subseteq> r)
      \<and> (\<forall>s r. s \<noteq> {} \<and> s \<subseteq> {..<max_numnodes env} \<and> r \<noteq> {} \<and> r \<subseteq> {..<max_numnodes env}
           \<longrightarrow> nodes_onto env (nodes_fold env s (nodes_weight env r)) r \<noteq> {})
      \<and> (\<forall>s old new. s \<subseteq> old \<and> new \<noteq> {} \<longrightarrow> nodes_remap env s old new \<subseteq> new)
      \<and> (\<forall>n old new. n \<in> old \<and> new \<noteq> {} \<and> new \<subseteq> {..<max_numnodes env} \<longrightarrow> node_remap env n old new \<in> new))"

lemma mask_ops_okD:
  assumes "mask_ops_ok env"
  shows "mpol_relative_nodemask env s r \<subseteq> r"
    "s \<noteq> {} \<Longrightarrow> s \<subseteq> {..<max_numnodes env} \<Longrightarrow> r \<noteq> {} \<Longrightarrow> r \<subseteq> {..<max_numnodes env} \<Longrightarrow> mpol_relative_nodemask env s r \<noteq> {}"
    "s \<subseteq> old \<Longrightarrow> new \<noteq> {} \<Longrightarrow> nodes_remap env s old new \<subseteq> new"
    "n \<in> old \<Longrightarrow> new \<noteq> {} \<Longrightarrow> new \<subseteq> {..<max_numnodes env} \<Longrightarrow> node_remap env n old new \<in> new"
  using assms by (simp_all add: mask_ops_ok_def mpol_relative_nodemask_def)

text \<open>A policy within the nodes \<open>a\<close>, with what the next rebinding needs of the node mask it saved.\<close>

definition confined :: "mp_env \<Rightarrow> nodemask \<Rightarrow> mempolicy \<Rightarrow> bool" where
  "confined env a p =
     ((mode p = MPOL_PREFERRED
         \<and> (MPOL_F_LOCAL \<in> flags p \<or> v_preferred_node p \<in> a \<and> (\<not> mpol_store_user_nodemask p \<longrightarrow> v_preferred_node p \<in> w_nodes p))
       \<or> (mode p = MPOL_BIND \<or> mode p = MPOL_INTERLEAVE) \<and> v_nodes p \<noteq> {} \<and> v_nodes p \<subseteq> a
         \<and> (\<not> mpol_store_user_nodemask p \<longrightarrow> v_nodes p \<subseteq> w_nodes p))
      \<and> (mpol_store_user_nodemask p \<longrightarrow> w_nodes p \<noteq> {} \<and> w_nodes p \<subseteq> {..<max_numnodes env}))"

lemma set_confined:
  assumes ok: "mask_ops_ok env" and mem: "mems_allowed env \<subseteq> {..<max_numnodes env}"
    and ns: "ns \<subseteq> {..<max_numnodes env}" and fl: "fl \<subseteq> MPOL_MODE_FLAGS" "md = MPOL_LOCAL \<Longrightarrow> fl = {}"
    and new: "mpol_new fresh md fl (Some ns) = Inr new" and set: "mpol_set_nodemask env new ns = Inr (Some p)"
  shows "confined env (mems_allowed env) p"
proof -
  let ?m = "mems_allowed env \<inter> n_memory env"
  obtain q where q: "new = Some q" using set by (cases new) (simp_all add: mpol_set_nodemask_def)
  have qf: "flags q = fl" "mode q = (if md = MPOL_LOCAL then MPOL_PREFERRED else md)" "md \<noteq> MPOL_DEFAULT"
      "md = MPOL_LOCAL \<Longrightarrow> ns = {}" "md \<noteq> MPOL_LOCAL \<Longrightarrow> ns = {} \<Longrightarrow> md = MPOL_PREFERRED \<and> fl \<inter> MPOL_MODE_FLAGS = {}"
    using new q by (auto simp: mpol_new_def MPOL_MODE_FLAGS_def split: if_splits option.splits)
  show ?thesis
  proof (cases "ns = {}")
    case True
    then have "mode q = MPOL_PREFERRED" "flags q = {}" using qf fl by (auto simp: MPOL_MODE_FLAGS_def)
    then show ?thesis using set q True
      by (auto simp: mpol_set_nodemask_def mpol_create_def mpol_new_preferred_def confined_def mpol_store_user_nodemask_def
          MPOL_MODE_FLAGS_def)
  next
    case False
    define k where "k = (if MPOL_F_RELATIVE_NODES \<in> flags q then mpol_relative_nodemask env ns ?m else ns \<inter> ?m)"
    have k: "k \<subseteq> ?m" using mask_ops_okD(1)[OF ok, of ns ?m] by (auto simp: k_def)
    define q1 where "q1 = q\<lparr>w_nodes := (if mpol_store_user_nodemask q then ns else mems_allowed env)\<rparr>"
    have c: "mpol_create env q1 (Some k) = Inr p"
      using set q False by (cases "mpol_create env q1 (Some k)") (simp_all add: mpol_set_nodemask_def Let_def k_def q1_def)
    have st: "mpol_store_user_nodemask q1 = mpol_store_user_nodemask q" by (simp add: q1_def mpol_store_user_nodemask_def)
    have ne: "k \<noteq> {}" using c
      by (auto simp: mpol_create_def mpol_new_preferred_def mpol_new_interleave_def mpol_new_bind_def is_valid_nodemask_def
          split: mpol_mode.splits if_splits)
    have "first_node env k \<in> k" using ne k mem by (intro first_node_bound[THEN conjunct2]) blast
    then show ?thesis using c k ne False ns st
      by (auto simp: mpol_create_def mpol_new_preferred_def mpol_new_interleave_def mpol_new_bind_def confined_def q1_def
          mpol_store_user_nodemask_def split: mpol_mode.splits if_splits)
  qed
qed

lemma rebind_confined:
  assumes ok: "mask_ops_ok env" and p: "confined env a p" and m: "newmask \<noteq> {}" "newmask \<subseteq> {..<max_numnodes env}"
  shows "\<exists>p1 il1. mpol_rebind_policy env (Some p) newmask MPOL_REBIND_ONCE il = Some (Some p1, il1) \<and> confined env newmask p1"
proof (cases "\<not> mpol_store_user_nodemask p \<and> w_nodes p = newmask")
  case True
  then show ?thesis using p by (auto simp: mpol_rebind_policy_def confined_def)
next
  case False
  note rel = mask_ops_okD(1)[OF ok, of "w_nodes p" newmask]
  show ?thesis
  proof (cases "mode p = MPOL_PREFERRED")
    case True
    have "first_node env (mpol_relative_nodemask env (w_nodes p) newmask) \<in> newmask" if "mpol_store_user_nodemask p"
    proof -
      have "mpol_relative_nodemask env (w_nodes p) newmask \<noteq> {}"
        using mask_ops_okD(2)[OF ok _ _ m] p that by (auto simp: confined_def)
      then show ?thesis using first_node_bound[of "mpol_relative_nodemask env (w_nodes p) newmask" env] rel m(2) by blast
    qed
    moreover have "node_remap env (v_preferred_node p) (w_nodes p) newmask \<in> newmask"
      if "\<not> mpol_store_user_nodemask p" "MPOL_F_LOCAL \<notin> flags p"
      using p that True by (intro mask_ops_okD(4)[OF ok _ m]) (auto simp: confined_def)
    ultimately have "confined env newmask (mpol_rebind_preferred env p newmask)" using p True
      by (auto simp: confined_def mpol_rebind_preferred_def mpol_store_user_nodemask_def MPOL_MODE_FLAGS_def Let_def)
    then show ?thesis using False True by (auto simp: mpol_rebind_policy_def)
  next
    case np: False
    then have md: "mode p = MPOL_BIND \<or> mode p = MPOL_INTERLEAVE" using p by (auto simp: confined_def)
    have "nodes_remap env (v_nodes p) (w_nodes p) newmask \<subseteq> newmask" if "\<not> mpol_store_user_nodemask p"
      using p that np by (intro mask_ops_okD(3)[OF ok _ m(1)]) (auto simp: confined_def)
    then have "confined env newmask (fst (mpol_rebind_nodemask env p newmask MPOL_REBIND_ONCE il))"
      using p md m rel
      by (auto simp: confined_def mpol_rebind_nodemask_def mpol_store_user_nodemask_def MPOL_MODE_FLAGS_def Let_def)
    then show ?thesis using False md
      by (cases "mpol_rebind_nodemask env p newmask MPOL_REBIND_ONCE il") (auto simp: mpol_rebind_policy_def)
  qed
qed

end
