(* ===== verification/Mempolicy_Rebind.thy ===== *)
theory Mempolicy_Rebind
  imports Mempolicy_Correct
begin

text \<open>
  Rebinding memory policies and migrating pages: policies stay within the nodes allowed, rebinding
  in two steps is rebinding at once, and a migration moves every node that has to move once.
\<close>

section \<open>Confinement over time\<close>

fun rebinds :: "mp_env \<Rightarrow> nodemask list \<Rightarrow> mempolicy option \<times> nat \<Rightarrow> (mempolicy option \<times> nat) option" where
  "rebinds env [] pi = Some pi"
| "rebinds env (m # ms) pi =
     (case mpol_rebind_policy env (fst pi) m MPOL_REBIND_ONCE (snd pi) of None \<Rightarrow> None | Some pi1 \<Rightarrow> rebinds env ms pi1)"

lemma rebinds_confined:
  assumes "mask_ops_ok env" "confined env a p" "\<And>m. m \<in> set ms \<Longrightarrow> m \<noteq> {} \<and> m \<subseteq> {..<max_numnodes env}"
  shows "\<exists>p1 il1. rebinds env ms (Some p, il) = Some (Some p1, il1) \<and> confined env (last (a # ms)) p1"
  using assms(2,3)
proof (induction ms arbitrary: a p il)
  case (Cons m ms)
  from rebind_confined[OF assms(1) Cons.prems(1), of m il] Cons.prems(2)
  obtain p1 il1 where r: "mpol_rebind_policy env (Some p) m MPOL_REBIND_ONCE il = Some (Some p1, il1)" "confined env m p1"
    by auto
  from Cons.IH[OF r(2), of il1] Cons.prems(2) r(1) show ?case by auto
qed simp

text \<open>
  C8. A policy never leaves the nodes that its task may use. After \<^verbatim>\<open>do_set_mempolicy\<close> succeeded with a policy,
  and after any sequence of changes of the allowed nodes, each passed on by \<^verbatim>\<open>mpol_rebind_policy\<close>, the
  rebinding did not fail, and a bind or interleave policy has a non-empty mask within the last allowed
  nodes, and a preferred node is one of them unless the policy is local.
\<close>

theorem mempolicy_confined:
  assumes "mask_ops_ok env" "mems_allowed env \<subseteq> {..<max_numnodes env}" "ns \<subseteq> {..<max_numnodes env}"
    "fl \<subseteq> MPOL_MODE_FLAGS" "md = MPOL_LOCAL \<Longrightarrow> fl = {}"
    "do_set_mempolicy env scratch fresh md fl (Some ns) t = (None, t1)" "mempol t1 = Some p"
    "\<And>m. m \<in> set ms \<Longrightarrow> m \<noteq> {} \<and> m \<subseteq> {..<max_numnodes env}"
  shows "\<exists>p1 il1. rebinds env ms (Some p, il_next t1) = Some (Some p1, il1) \<and> confined env (last (mems_allowed env # ms)) p1"
proof -
  obtain new where new: "mpol_new fresh md fl (Some ns) = Inr new" "mpol_set_nodemask env new ns = Inr (Some p)"
    using assms(6,7)
    by (auto simp: do_set_mempolicy_def mpol_fix_fork_child_flag_def Let_def split: if_splits sum.splits option.splits)
  show ?thesis by (rule rebinds_confined[OF assms(1) set_confined[OF assms(1-5) new] assms(8)])
qed

lemma two_nodes_ok: "mask_ops_ok two_nodes"
proof -
  have "1 \<in> m" if m: "m \<noteq> {}" "m \<subseteq> {..<2}" "0 \<notin> m" for m :: "nat set"
  proof -
    obtain k where "k \<in> m" using m(1) by blast
    moreover from this have "k = 1" using m(2,3) by (cases k) auto
    ultimately show ?thesis by simp
  qed
  then show ?thesis by (simp add: mask_ops_ok_def two_nodes_def)
qed

theorem mempolicy_confined_witness:
  "\<exists>p1 il1. rebinds two_nodes [{1}] (Some two_pol, 0) = Some (Some p1, il1) \<and> confined two_nodes {1} p1"
proof -
  have "mems_allowed two_nodes \<subseteq> {..<max_numnodes two_nodes}" "{0, 1} \<subseteq> {..<max_numnodes two_nodes}" by (auto simp: two_nodes_def)
  from mempolicy_confined[OF two_nodes_ok this _ _ two_set, of two_pol "[{1}]"] show ?thesis by (simp add: two_nodes_def)
qed

text \<open>
  The check of flags against an empty list of nodes is missing for \<^verbatim>\<open>MPOL_LOCAL\<close>: a local policy with static
  nodes is created, its saved mask is whatever memory it got, and a rebinding can turn it into a
  policy preferring a node of that mask.
\<close>

lemma local_static_accepted:
  assumes "p = q\<lparr>refcnt := 1, mode := MPOL_PREFERRED, flags := {MPOL_F_LOCAL, MPOL_F_STATIC_NODES}\<rparr>"
    and "first_node env (w_nodes q) \<in> newmask"
  shows "do_set_mempolicy env True (Some q) MPOL_LOCAL {MPOL_F_STATIC_NODES} (Some {}) t
      = (None, t\<lparr>mempol := Some p, pf_mempolicy := True, released := released t @ [mempol t]\<rparr>)"
    and "mpol_rebind_policy env (Some p) newmask MPOL_REBIND_ONCE il
      = Some (Some (p\<lparr>flags := {MPOL_F_STATIC_NODES}, v_preferred_node := first_node env (w_nodes q)\<rparr>), il)"
  using assms
  by (auto simp: do_set_mempolicy_def mpol_new_def mpol_set_nodemask_def mpol_create_def mpol_new_preferred_def
      mpol_fix_fork_child_flag_def mpol_rebind_policy_def mpol_store_user_nodemask_def MPOL_MODE_FLAGS_def
      mpol_rebind_preferred_def Let_def)

section \<open>Rebinding in two steps\<close>

lemma find_member: "List.find P xs = Some x \<Longrightarrow> P x"
  by (induction xs) (auto split: if_splits)

lemma next_node_member: "next_node env k s < max_numnodes env \<Longrightarrow> next_node env k s \<in> s"
  by (auto simp: next_node_def dest: find_member split: option.splits)

lemma first_node_member: "first_node env s < max_numnodes env \<Longrightarrow> first_node env s \<in> s"
  by (auto simp: first_node_def dest: find_member split: option.splits)

lemma no_next_node: "max_numnodes env \<le> first_node env s \<Longrightarrow> max_numnodes env \<le> next_node env k s"
  using next_node_member[of env k s] first_node_bound[of s env] by (cases "next_node env k s < max_numnodes env") auto

lemma fix_il_next_idem: "fix_il_next env s (fix_il_next env s il) = fix_il_next env s il"
  using next_node_member[of env il s] first_node_member[of env s] no_next_node[of env s "numa_node env"]
  unfolding fix_il_next_def Let_def
  by (auto simp: not_less split: if_splits)

lemma rebind_nodemask_steps:
  assumes "mode p = MPOL_BIND \<or> mode p = MPOL_INTERLEAVE" "MPOL_F_REBINDING \<notin> flags p"
    and "p1 = fst (mpol_rebind_nodemask env (p\<lparr>flags := insert MPOL_F_REBINDING (flags p)\<rparr>) m MPOL_REBIND_STEP1 il)"
  shows "mpol_rebind_nodemask env (p1\<lparr>flags := flags p1 - {MPOL_F_REBINDING}\<rparr>) m MPOL_REBIND_STEP2
      (snd (mpol_rebind_nodemask env (p\<lparr>flags := insert MPOL_F_REBINDING (flags p)\<rparr>) m MPOL_REBIND_STEP1 il))
    = mpol_rebind_nodemask env p m MPOL_REBIND_ONCE il"
    and "v_nodes p \<subseteq> v_nodes p1" "mode p1 = mode p" "MPOL_F_REBINDING \<in> flags p1"
  using assms by (auto simp: mpol_rebind_nodemask_def Let_def fix_il_next_idem)

lemma rebind_preferred_steps:
  assumes "MPOL_F_REBINDING \<notin> flags p" "\<And>n. node_remap env n m m = n"
    and "p1 = mpol_rebind_preferred env (p\<lparr>flags := insert MPOL_F_REBINDING (flags p)\<rparr>) m"
  shows "mpol_rebind_preferred env (p1\<lparr>flags := flags p1 - {MPOL_F_REBINDING}\<rparr>) m = mpol_rebind_preferred env p m"
    and "mode p1 = mode p" "MPOL_F_REBINDING \<in> flags p1"
  using assms by (auto simp: mpol_rebind_preferred_def Let_def insert_Diff_if)



section \<open>Migration\<close>

definition mover :: "mp_env \<Rightarrow> nodemask \<Rightarrow> nodemask \<Rightarrow> nat \<Rightarrow> bool" where
  "mover env src to s = (node_remap env s src to \<noteq> s \<and> (nodes_weight env src = nodes_weight env to \<or> s \<notin> to))"

lemma pick_pair_None:
  "pick_pair env src to tmp ss acc = None \<Longrightarrow> acc = None \<and> (\<forall>s \<in> set ss. \<not> mover env src to s)"
  by (induction env src to tmp ss acc rule: pick_pair.induct) (auto simp: Let_def mover_def split: if_splits)

lemma pick_pair_last:
  assumes "pick_pair env src to tmp ss acc = Some (s, d)" "d \<in> tmp" "x \<in> set ss" "mover env src to x"
  shows "node_remap env x src to \<in> tmp"
  using assms(1,3)
proof (induction ss arbitrary: acc)
  case (Cons y ys)
  show ?case
  proof (cases "x = y")
    case True
    then have "nodes_weight env src = nodes_weight env to \<or> y \<notin> to" "node_remap env y src to \<noteq> y"
      using assms(4) by (simp_all add: mover_def)
    then show ?thesis using Cons.prems(1) assms(2) True by (auto simp: Let_def split: if_splits)
  next
    case False
    then have x: "x \<in> set ys" using Cons.prems(2) by simp
    have "\<exists>acc1. pick_pair env src to tmp ys acc1 = Some (s, d)" using Cons.prems(1) assms(2) by (auto simp: Let_def split: if_splits)
    then show ?thesis using Cons.IH[OF _ x] by blast
  qed
qed simp

text \<open>A node is filled while it still has pages to give only if every move left fills such a node.\<close>

fun drained_first :: "nodemask \<Rightarrow> (nat \<times> nat) list \<Rightarrow> bool" where
  "drained_first tmp [] = True"
| "drained_first tmp ((s, d) # ms) = ((d \<in> tmp \<longrightarrow> snd ` set ms \<subseteq> tmp) \<and> drained_first (tmp - {s}) ms)"

lemma node_list_set: "set (node_list env s) = {n \<in> s. n < max_numnodes env}"
  by (auto simp: node_list_def)

lemma migrate_loop_spec:
  assumes "\<And>s d. 0 \<le> migrate s d" "migrate_loop env migrate src to tmp busy = (r, moves)"
  shows "distinct (map fst moves)
    \<and> set moves = (\<lambda>s. (s, node_remap env s src to)) ` {s \<in> tmp. s < max_numnodes env \<and> mover env src to s}
    \<and> drained_first tmp moves \<and> r = busy + (\<Sum>(s, d) \<leftarrow> moves. migrate s d)"
  using assms
proof (induction env migrate src to tmp busy arbitrary: r moves rule: migrate_loop.induct)
  case (1 env mg src to tmp busy)
  let ?f = "\<lambda>s. (s, node_remap env s src to)"
  let ?M = "\<lambda>t. {s \<in> t. s < max_numnodes env \<and> mover env src to s}"
  show ?case
  proof (cases "pick_pair env src to tmp (node_list env tmp) None")
    case None
    then show ?thesis using "1.prems"(2) pick_pair_None[OF None] by (auto simp: migrate_loop.simps[of env mg] node_list_set)
  next
    case (Some sd)
    obtain s d where sd: "sd = (s, d)" by (meson surj_pair)
    have p: "pick_pair env src to tmp (node_list env tmp) None = Some (s, d)" using Some sd by simp
    have s: "s \<in> tmp" "s < max_numnodes env" "d = node_remap env s src to" "mover env src to s"
      using pick_pair_spec[OF p] by (auto simp: node_list_set mover_def)
    have ok: "\<not> mg s d < 0" using "1.prems"(1) by (simp add: not_less)
    obtain r1 m1 where rec: "migrate_loop env mg src to (tmp - {s}) (busy + mg s d) = (r1, m1)" by (meson surj_pair)
    have m: "moves = (s, d) # m1" "r = r1"
      using "1.prems"(2) p ok rec by (simp_all add: migrate_loop.simps[of env mg src to tmp] Let_def)
    have ih: "distinct (map fst m1)" "set m1 = ?f ` ?M (tmp - {s})" "drained_first (tmp - {s}) m1"
        "r1 = busy + mg s d + (\<Sum>(s, d) \<leftarrow> m1. mg s d)"
      using "1.IH"[OF Some sd[symmetric] refl ok "1.prems"(1) rec] by simp_all
    have "set moves = ?f ` insert s (?M (tmp - {s}))" unfolding m(1) by (simp add: ih(2) s(3))
    moreover have "insert s (?M (tmp - {s})) = ?M tmp" using s by blast
    ultimately have "set moves = ?f ` ?M tmp" by (simp only:)
    moreover have "s \<notin> fst ` set m1" unfolding ih(2) by auto
    moreover have "snd ` set m1 \<subseteq> tmp" if "d \<in> tmp"
      using pick_pair_last[OF p that] unfolding ih(2) by (fastforce simp: node_list_set)
    ultimately show ?thesis using ih m by simp
  qed
qed

text \<open>
  C34. A migration without errors moves each source node once, to the node it is mapped to, and leaves
  out exactly the nodes that stay where they are and, if the two sets differ in size, those that
  are destinations themselves. A node that still has pages to give is filled only if every move
  left fills such a node, so pages are not moved twice where that can be avoided. The result is the number of
  pages that could not be moved.
\<close>

theorem migrate_once:
  assumes "\<And>s d. 0 \<le> migrate s d" "do_migrate_pages env 0 0 migrate src to = (r, moves)"
  shows "distinct (map fst moves)
    \<and> set moves = (\<lambda>s. (s, node_remap env s src to)) ` {s \<in> src. s < max_numnodes env \<and> mover env src to s}
    \<and> drained_first src moves \<and> r = (\<Sum>(s, d) \<leftarrow> moves. migrate s d)"
  using migrate_loop_spec[where env = env and src = src and to = to and tmp = src and busy = 0, OF assms(1)] assms(2) by (simp add: do_migrate_pages_def)

theorem migrate_once_witness:
  "\<exists>moves. do_migrate_pages two_nodes 0 0 (\<lambda>s d. 0) {0} {1} = (0, moves) \<and> distinct (map fst moves) \<and> set moves = {(0, 1)}"
proof -
  obtain r moves where d: "do_migrate_pages two_nodes 0 0 (\<lambda>s d. 0) {0} {1} = (r, moves)" by (meson surj_pair)
  have "{s \<in> {0}. s < max_numnodes two_nodes \<and> mover two_nodes {0} {1} s} = {0}"
    by (auto simp: mover_def two_nodes_def)
  moreover have "node_remap two_nodes 0 {0} {1} = 1" by (simp add: two_nodes_def)
  moreover have "(\<Sum>(s, d) \<leftarrow> ms. 0 :: int) = 0" for ms :: "(nat \<times> nat) list" by (induction ms) auto
  ultimately show ?thesis using migrate_once[OF _ d] d by simp
qed

end
