(* ===== verification/Mempolicy_Shared.thy ===== *)
theory Mempolicy_Shared
  imports Mempolicy_Node "HOL-Library.Tree"
begin

text \<open>
  The memory policies of shared memory (\<^verbatim>\<open>mempolicy.c\<close>): a red-black tree of page ranges with a policy
  each. The tree is a binary tree here; of \<^verbatim>\<open>rbtree\<close>, which is not in the repository, \<^verbatim>\<open>rb_insert_color\<close> and
  \<^verbatim>\<open>rb_erase\<close> are the arguments \<open>color\<close> and \<open>erase\<close>, and \<^verbatim>\<open>rb_prev\<close>, \<^verbatim>\<open>rb_next\<close> go through the nodes in order.
\<close>

record sp_node =
  sp_start :: "64 word"
  sp_end :: "64 word"
  sp_policy :: mempolicy

type_synonym sp_tree = "sp_node tree"

section \<open>Lookup and insertion\<close>

text \<open>The descent to a node that meets the range, with the nodes before it, nearest first.\<close>

fun sp_find :: "sp_tree \<Rightarrow> 64 word \<Rightarrow> 64 word \<Rightarrow> sp_node list \<Rightarrow> (sp_node list \<times> sp_node) option" where
  "sp_find Leaf s e bef = None"
| "sp_find (Node l p r) s e bef =
     (if s \<ge> sp_end p then sp_find r s e (p # rev (inorder l) @ bef)
      else if e \<le> sp_start p then sp_find l s e bef
      else Some (rev (inorder l) @ bef, p))"

fun sp_back :: "64 word \<Rightarrow> sp_node list \<Rightarrow> sp_node \<Rightarrow> sp_node" where
  "sp_back s [] n = n"
| "sp_back s (w # ws) n = (if sp_end w \<le> s then n else sp_back s ws w)"

definition sp_lookup :: "sp_tree \<Rightarrow> 64 word \<Rightarrow> 64 word \<Rightarrow> sp_node option" where
  "sp_lookup t s e = (case sp_find t s e [] of None \<Rightarrow> None | Some (bef, n) \<Rightarrow> Some (sp_back s bef n))"

text \<open>\<open>None\<close> is \<^verbatim>\<open>BUG()\<close>.\<close>

fun sp_link :: "sp_node \<Rightarrow> sp_tree \<Rightarrow> sp_tree option" where
  "sp_link new Leaf = Some (Node Leaf new Leaf)"
| "sp_link new (Node l nd r) =
     (if sp_start new < sp_start nd then map_option (\<lambda>l1. Node l1 nd r) (sp_link new l)
      else if sp_end new > sp_end nd then map_option (\<lambda>r1. Node l nd r1) (sp_link new r)
      else None)"

definition sp_insert :: "(sp_tree \<Rightarrow> sp_tree) \<Rightarrow> sp_node \<Rightarrow> sp_tree \<Rightarrow> sp_tree option" where
  "sp_insert color new t = map_option color (sp_link new t)"

definition mpol_shared_policy_lookup :: "sp_tree \<Rightarrow> 64 word \<Rightarrow> mempolicy option" where
  "mpol_shared_policy_lookup t idx = map_option sp_policy (sp_lookup t idx (idx + 1))"

section \<open>Replacement of a range\<close>

definition sp_node_init :: "64 word \<Rightarrow> 64 word \<Rightarrow> mempolicy \<Rightarrow> sp_node" where
  "sp_node_init s e pol = \<lparr>sp_start = s, sp_end = e, sp_policy = pol\<rparr>"

text \<open>A change of a node in place.\<close>

definition sp_update :: "sp_node \<Rightarrow> sp_node \<Rightarrow> sp_tree \<Rightarrow> sp_tree" where
  "sp_update n n1 t = map_tree (\<lambda>p. if p = n then n1 else p) t"

datatype replace_result = Alloc_New sp_tree | Sp_Bug | Replaced sp_tree

text \<open>The loop over the old policies from the first that meets the range; \<open>have\<close>: a second node is allocated.\<close>

fun replace_loop ::
  "(sp_tree \<Rightarrow> sp_tree) \<Rightarrow> (sp_node \<Rightarrow> sp_tree \<Rightarrow> sp_tree) \<Rightarrow> 64 word \<Rightarrow> 64 word \<Rightarrow> bool \<Rightarrow> sp_node list \<Rightarrow> sp_tree \<Rightarrow> replace_result" where
  "replace_loop color erase s e have_new [] t = Replaced t"
| "replace_loop color erase s e have_new (n # ns) t =
     (if \<not> sp_start n < e then Replaced t
      else if sp_start n \<ge> s then
        (if sp_end n \<le> e then replace_loop color erase s e have_new ns (erase n t)
         else replace_loop color erase s e have_new ns (sp_update n (n\<lparr>sp_start := e\<rparr>) t))
      else if sp_end n > e then
        (if \<not> have_new then Alloc_New t
         else
           (case sp_insert color (sp_node_init e (sp_end n) ((sp_policy n)\<lparr>refcnt := 1\<rparr>)) (sp_update n (n\<lparr>sp_end := s\<rparr>) t) of
              None \<Rightarrow> Sp_Bug
            | Some t1 \<Rightarrow> Replaced t1))
      else replace_loop color erase s e have_new ns (sp_update n (n\<lparr>sp_end := s\<rparr>) t))"

definition nodes_from :: "sp_node option \<Rightarrow> sp_tree \<Rightarrow> sp_node list" where
  "nodes_from n t = (case n of None \<Rightarrow> [] | Some p \<Rightarrow> dropWhile (\<lambda>q. q \<noteq> p) (inorder t))"

text \<open>One pass under the lock.\<close>

definition replace_pass ::
  "(sp_tree \<Rightarrow> sp_tree) \<Rightarrow> (sp_node \<Rightarrow> sp_tree \<Rightarrow> sp_tree) \<Rightarrow> 64 word \<Rightarrow> 64 word \<Rightarrow> sp_node option \<Rightarrow> bool \<Rightarrow> sp_tree \<Rightarrow> replace_result" where
  "replace_pass color erase s e new have_new t =
     (case replace_loop color erase s e have_new (nodes_from (sp_lookup t s e) t) t of
        Replaced t1 \<Rightarrow>
          (case new of
             None \<Rightarrow> Replaced t1
           | Some nd \<Rightarrow> (case sp_insert color nd t1 of None \<Rightarrow> Sp_Bug | Some t2 \<Rightarrow> Replaced t2))
      | r \<Rightarrow> r)"

text \<open>
  The lock is released for the allocation; \<open>meanwhile\<close> is what other tasks do to the tree then.
\<close>

definition shared_policy_replace ::
  "(sp_tree \<Rightarrow> sp_tree) \<Rightarrow> (sp_node \<Rightarrow> sp_tree \<Rightarrow> sp_tree) \<Rightarrow> bool \<Rightarrow> (sp_tree \<Rightarrow> sp_tree) \<Rightarrow> 64 word \<Rightarrow> 64 word
   \<Rightarrow> sp_node option \<Rightarrow> sp_tree \<Rightarrow> mp_err option \<times> sp_tree" where
  "shared_policy_replace color erase alloc_ok meanwhile s e new t =
     (case replace_pass color erase s e new False t of
        Replaced t1 \<Rightarrow> (None, t1)
      | Sp_Bug \<Rightarrow> (Some BUG, t)
      | Alloc_New t0 \<Rightarrow>
          if \<not> alloc_ok then (Some ENOMEM, t0)
          else (case replace_pass color erase s e new True (meanwhile t0) of
              Replaced t1 \<Rightarrow> (None, t1)
            | _ \<Rightarrow> (Some BUG, meanwhile t0)))"

definition sp_alloc :: "bool \<Rightarrow> mempolicy option \<Rightarrow> 64 word \<Rightarrow> 64 word \<Rightarrow> sp_node option" where
  "sp_alloc alloc_ok dup s e =
     (if \<not> alloc_ok then None
      else map_option (\<lambda>p. sp_node_init s e (p\<lparr>flags := insert MPOL_F_SHARED (flags p)\<rparr>)) dup)"

text \<open>\<open>dup\<close> is the copy of the policy that \<^verbatim>\<open>mpol_dup\<close> makes, if it can; \<open>sz\<close> the pages of the area.\<close>

definition mpol_set_shared_policy ::
  "(sp_tree \<Rightarrow> sp_tree) \<Rightarrow> (sp_node \<Rightarrow> sp_tree \<Rightarrow> sp_tree) \<Rightarrow> bool \<Rightarrow> bool \<Rightarrow> (sp_tree \<Rightarrow> sp_tree) \<Rightarrow> 64 word \<Rightarrow> 64 word
   \<Rightarrow> mempolicy option option \<Rightarrow> sp_tree \<Rightarrow> mp_err option \<times> sp_tree" where
  "mpol_set_shared_policy color erase node_ok alloc_ok meanwhile pgoff sz npol t =
     (case npol of
        None \<Rightarrow> shared_policy_replace color erase alloc_ok meanwhile pgoff (pgoff + sz) None t
      | Some dup \<Rightarrow>
          (case sp_alloc node_ok dup pgoff (pgoff + sz) of
             None \<Rightarrow> (Some ENOMEM, t)
           | Some new \<Rightarrow> shared_policy_replace color erase alloc_ok meanwhile pgoff (pgoff + sz) (Some new) t))"

text \<open>All nodes in order; the policies released.\<close>

definition mpol_free_shared_policy :: "(sp_node \<Rightarrow> sp_tree \<Rightarrow> sp_tree) \<Rightarrow> sp_tree \<Rightarrow> sp_tree \<times> mempolicy list" where
  "mpol_free_shared_policy erase t = (fold erase (inorder t) t, map sp_policy (inorder t))"

section \<open>Invariant\<close>

definition ranges_ok :: "sp_node list \<Rightarrow> bool" where
  "ranges_ok xs = (sorted_wrt (\<lambda>a b. sp_end a \<le> sp_start b) xs \<and> (\<forall>p \<in> set xs. sp_start p < sp_end p))"

definition meets :: "64 word \<Rightarrow> 64 word \<Rightarrow> sp_node \<Rightarrow> bool" where
  "meets s e p = (s < sp_end p \<and> sp_start p < e)"

text \<open>What the tree operations have to do to the sequence of nodes.\<close>

definition rb_ok :: "(sp_tree \<Rightarrow> sp_tree) \<Rightarrow> (sp_node \<Rightarrow> sp_tree \<Rightarrow> sp_tree) \<Rightarrow> bool" where
  "rb_ok color erase = ((\<forall>t. inorder (color t) = inorder t)
     \<and> (\<forall>n t. n \<in> set (inorder t) \<longrightarrow> distinct (inorder t) \<longrightarrow> inorder (erase n t) = remove1 n (inorder t)))"

lemma ranges_ok_append:
  "ranges_ok (xs @ ys) = (ranges_ok xs \<and> ranges_ok ys \<and> (\<forall>a \<in> set xs. \<forall>b \<in> set ys. sp_end a \<le> sp_start b))"
  by (auto simp: ranges_ok_def sorted_wrt_append)

lemma ranges_ok_Cons:
  "ranges_ok (x # xs) = (sp_start x < sp_end x \<and> ranges_ok xs \<and> (\<forall>b \<in> set xs. sp_end x \<le> sp_start b))"
  by (auto simp: ranges_ok_def)

lemma ranges_ok_distinct: "ranges_ok xs \<Longrightarrow> distinct xs"
  by (induction xs) (auto simp: ranges_ok_Cons)

section \<open>Lookup finds the first range\<close>

lemma find_none: "\<forall>p \<in> set xs. \<not> P p \<Longrightarrow> List.find P xs = None"
  by (simp add: find_None_iff)

lemma find_append: "List.find P (xs @ ys) = (case List.find P xs of None \<Rightarrow> List.find P ys | Some x \<Rightarrow> Some x)"
  by (induction xs) auto

text \<open>Going back from a node that meets the range ends at the first one.\<close>

lemma sp_back_first:
  "ranges_ok (rev bef @ [n]) \<Longrightarrow> meets s e n \<Longrightarrow> List.find (meets s e) (rev bef @ [n]) = Some (sp_back s bef n)"
proof (induction bef arbitrary: n)
  case (Cons w bef)
  have w: "sp_end w \<le> sp_start n" "sp_start w < sp_end w" using Cons.prems(1) by (auto simp: ranges_ok_append ranges_ok_Cons)
  show ?case
  proof (cases "sp_end w \<le> s")
    case True
    have "\<forall>p \<in> set (rev bef @ [w]). \<not> meets s e p"
      using Cons.prems(1) True by (auto simp: ranges_ok_append ranges_ok_Cons meets_def)
    then have "List.find (meets s e) (rev bef @ [w]) = None" by (rule find_none)
    then show ?thesis using True Cons.prems(2) find_append[of "meets s e" "rev bef @ [w]" "[n]"] by simp
  next
    case False
    have m: "meets s e w" using False w Cons.prems(2) by (auto simp: meets_def)
    have "ranges_ok (rev bef @ [w])" using Cons.prems(1) by (auto simp: ranges_ok_append ranges_ok_Cons)
    from Cons.IH[OF this m] show ?thesis
      using False find_append[of "meets s e" "rev bef @ [w]" "[n]"] by simp
  qed
qed simp

lemma sp_find_spec:
  "ranges_ok (rev bef @ inorder t) \<Longrightarrow>
   (case sp_find t s e bef of
      None \<Rightarrow> \<forall>p \<in> set (inorder t). \<not> meets s e p
    | Some (bef', n) \<Rightarrow> meets s e n \<and> (\<exists>rest. rev bef @ inorder t = rev bef' @ n # rest))"
proof (induction t s e bef rule: sp_find.induct)
  case (2 l p r s e bef)
  note ok = "2.prems"[simplified]
  show ?case
  proof (cases "s \<ge> sp_end p")
    case True
    have o2: "ranges_ok (rev (p # rev (inorder l) @ bef) @ inorder r)" using ok by simp
    have n: "\<forall>q \<in> set (inorder l @ [p]). \<not> meets s e q"
      using ok True by (auto simp: ranges_ok_append ranges_ok_Cons meets_def)
    show ?thesis using "2.IH"(1)[OF True o2] True n by (auto split: option.splits)
  next
    case f: False
    show ?thesis
    proof (cases "e \<le> sp_start p")
      case True
      have o2: "ranges_ok (rev bef @ inorder l)" using ok by (auto simp: ranges_ok_append)
      have n: "\<forall>q \<in> set (p # inorder r). \<not> meets s e q"
        using ok True by (auto simp: ranges_ok_append ranges_ok_Cons meets_def)
      note ih = "2.IH"(2)[OF f True o2]
      show ?thesis
      proof (cases "sp_find l s e bef")
        case None
        then show ?thesis using ih f True n by auto
      next
        case (Some x)
        obtain bef' q where x: "x = (bef', q)" by (cases x)
        obtain rest where "rev bef @ inorder l = rev bef' @ q # rest" "meets s e q" using ih Some x by auto
        then have "(rev bef @ inorder l) @ p # inorder r = (rev bef' @ q # rest) @ p # inorder r" by simp
        then have "rev bef @ inorder (Node l p r) = rev bef' @ q # (rest @ p # inorder r)" by simp
        then have ex: "meets s e q \<and> (\<exists>rest. rev bef @ inorder (Node l p r) = rev bef' @ q # rest)"
          using \<open>meets s e q\<close> by blast
        have "sp_find (Node l p r) s e bef = Some (bef', q)" using Some x f True by simp
        then show ?thesis using ex by (simp only: option.case prod.case)
      qed
    next
      case False
      then show ?thesis using f by (auto simp: meets_def)
    qed
  qed
qed simp

lemma sp_lookup_first:
  assumes "ranges_ok (inorder t)"
  shows "sp_lookup t s e = List.find (meets s e) (inorder t)"
proof (cases "sp_find t s e []")
  case None
  then show ?thesis using sp_find_spec[of "[]" t s e] assms find_none[of "inorder t"] by (simp add: sp_lookup_def)
next
  case (Some x)
  obtain bef n where x: "x = (bef, n)" by (cases x)
  obtain rest where r: "inorder t = (rev bef @ [n]) @ rest" and m: "meets s e n"
    using sp_find_spec[of "[]" t s e] assms Some x by auto
  have "ranges_ok (rev bef @ [n])" using assms unfolding r ranges_ok_append by simp
  from sp_back_first[OF this m] show ?thesis using Some x unfolding r find_append by (simp add: sp_lookup_def)
qed

section \<open>Insertion keeps the order\<close>

definition apart :: "sp_node \<Rightarrow> sp_node \<Rightarrow> bool" where
  "apart a b = (sp_end a \<le> sp_start b \<or> sp_end b \<le> sp_start a)"

definition insert_range :: "sp_node \<Rightarrow> sp_node list \<Rightarrow> sp_node list" where
  "insert_range n xs = filter (\<lambda>p. sp_start p < sp_start n) xs @ n # filter (\<lambda>p. \<not> sp_start p < sp_start n) xs"

lemma sp_link_inorder:
  "ranges_ok (inorder t) \<Longrightarrow> sp_start n < sp_end n \<Longrightarrow> \<forall>p \<in> set (inorder t). apart p n \<Longrightarrow>
   \<exists>t'. sp_link n t = Some t' \<and> inorder t' = insert_range n (inorder t)"
proof (induction n t rule: sp_link.induct)
  case (2 n l nd r)
  have ok: "ranges_ok (inorder l)" "ranges_ok (inorder r)" "sp_start nd < sp_end nd" "apart nd n"
    "\<forall>a \<in> set (inorder l). sp_end a \<le> sp_start nd \<and> sp_start a < sp_end a"
    "\<forall>b \<in> set (inorder r). sp_end nd \<le> sp_start b"
    using "2.prems" by (auto simp: ranges_ok_def sorted_wrt_append)
  show ?case
  proof (cases "sp_start n < sp_start nd")
    case True
    obtain l' where l: "sp_link n l = Some l'" "inorder l' = insert_range n (inorder l)"
      using "2.IH"(1)[OF True ok(1)] "2.prems" by auto
    have "filter (\<lambda>p. sp_start p < sp_start n) (nd # inorder r) = []" "filter (\<lambda>p. \<not> sp_start p < sp_start n) (nd # inorder r) = nd # inorder r"
      using True ok(3,6) by (auto simp: filter_empty_conv filter_id_conv)
    then show ?thesis using l True by (simp add: insert_range_def)
  next
    case False
    have e: "sp_end nd \<le> sp_start n" using ok(3,4) False "2.prems"(2) by (auto simp: apart_def)
    then have g: "sp_end n > sp_end nd" using "2.prems"(2) by simp
    obtain r' where r: "sp_link n r = Some r'" "inorder r' = insert_range n (inorder r)"
      using "2.IH"(2)[OF False g ok(2)] "2.prems" by auto
    have "sp_start nd < sp_start n" using e ok(3) by simp
    moreover have "filter (\<lambda>p. sp_start p < sp_start n) (inorder l) = inorder l"
      "filter (\<lambda>p. \<not> sp_start p < sp_start n) (inorder l) = []"
      using e ok(3,5) by (auto simp: filter_empty_conv filter_id_conv)
    ultimately show ?thesis using r False g by (simp add: insert_range_def)
  qed
qed (simp add: insert_range_def)

lemma ranges_ok_filter: "ranges_ok xs \<Longrightarrow> ranges_ok (filter P xs)"
  by (simp add: ranges_ok_def sorted_wrt_filter)

lemma insert_range_ok:
  assumes "ranges_ok xs" "sp_start n < sp_end n" "\<forall>p \<in> set xs. apart p n"
  shows "ranges_ok (insert_range n xs)"
proof -
  have a: "sp_end p \<le> sp_start n" if "p \<in> set xs" "sp_start p < sp_start n" for p
    using assms(2,3) that by (auto simp: apart_def)
  have b: "sp_end n \<le> sp_start p" if p: "p \<in> set xs" "\<not> sp_start p < sp_start n" for p
  proof -
    have "sp_start p < sp_end p" using assms(1) p(1) by (simp add: ranges_ok_def)
    then have "\<not> sp_end p \<le> sp_start n" using p(2) by simp
    then show ?thesis using assms(3) p(1) by (auto simp: apart_def)
  qed
  have c: "sp_end p \<le> sp_start q" if "p \<in> set xs" "sp_start p < sp_start n" "q \<in> set xs" "\<not> sp_start q < sp_start n" for p q
    using a[OF that(1,2)] b[OF that(3,4)] assms(2) by simp
  have "\<forall>q \<in> set (filter (\<lambda>p. \<not> sp_start p < sp_start n) xs). sp_end n \<le> sp_start q" using b by simp
  moreover have "\<forall>p \<in> set (filter (\<lambda>p. sp_start p < sp_start n) xs). \<forall>q \<in> set (n # filter (\<lambda>p. \<not> sp_start p < sp_start n) xs).
      sp_end p \<le> sp_start q" using a c by simp
  ultimately show ?thesis unfolding insert_range_def ranges_ok_append ranges_ok_Cons
    using assms(2) ranges_ok_filter[OF assms(1)] by blast
qed

section \<open>The loop cuts the range out\<close>

definition cut_out :: "64 word \<Rightarrow> 64 word \<Rightarrow> sp_node \<Rightarrow> sp_node list" where
  "cut_out s e p =
     (if \<not> meets s e p then [p]
      else (if sp_start p < s then [p\<lparr>sp_end := s\<rparr>] else [])
        @ (if e < sp_end p then
             [if sp_start p < s then sp_node_init e (sp_end p) ((sp_policy p)\<lparr>refcnt := 1\<rparr>) else p\<lparr>sp_start := e\<rparr>] else []))"

lemma inorder_update:
  assumes "inorder t = pre @ n # ns" "distinct (pre @ n # ns)"
  shows "inorder (sp_update n n1 t) = pre @ n1 # ns"
proof -
  have "inorder (map_tree f u) = map f (inorder u)" for f :: "sp_node \<Rightarrow> sp_node" and u by (induction u) auto
  moreover have "map (\<lambda>p. if p = n then n1 else p) pre = pre" "map (\<lambda>p. if p = n then n1 else p) ns = ns"
    using assms(2) by (auto intro: map_idI)
  ultimately show ?thesis using assms(1) by (simp add: sp_update_def)
qed

lemma replace_loop_end:
  "\<forall>p \<in> set ns. e \<le> sp_start p \<Longrightarrow> replace_loop color erase s e h ns t = Replaced t"
  by (cases ns) auto

lemma cut_id: "\<forall>p \<in> set ns. \<not> meets s e p \<Longrightarrow> concat (map (cut_out s e) ns) = ns"
  by (induction ns) (auto simp: cut_out_def)

lemma cut_beyond: "\<forall>p \<in> set ns. e \<le> sp_start p \<Longrightarrow> concat (map (cut_out s e) ns) = ns"
  by (rule cut_id) (auto simp: meets_def)

lemma insert_split:
  assumes "rb_ok color erase" "ranges_ok (pre @ m # ns)" "inorder t = pre @ m # ns" "sp_end m \<le> e" "e < x"
    "\<forall>p \<in> set ns. x \<le> sp_start p"
  shows "\<exists>t1. sp_insert color (sp_node_init e x pol) t = Some t1 \<and> inorder t1 = pre @ m # sp_node_init e x pol # ns"
proof -
  let ?n = "sp_node_init e x pol"
  have pre: "\<forall>p \<in> set (pre @ [m]). sp_end p \<le> e \<and> sp_start p < e"
  proof
    fix p assume p: "p \<in> set (pre @ [m])"
    have "sp_start p < sp_end p" "sp_start m < sp_end m" using assms(2) p by (auto simp: ranges_ok_def)
    moreover have "p = m \<or> sp_end p \<le> sp_start m" using assms(2) p by (auto simp: ranges_ok_append)
    ultimately show "sp_end p \<le> e \<and> sp_start p < e" using assms(4) by auto
  qed
  have ns: "\<forall>p \<in> set ns. \<not> sp_start p < e" using assms(5,6) by fastforce
  have ap: "\<forall>p \<in> set (inorder t). apart p ?n" using pre assms(3,6) by (auto simp: apart_def sp_node_init_def)
  have ok: "ranges_ok (inorder t)" "sp_start ?n < sp_end ?n" using assms(2,3,5) by (simp_all add: sp_node_init_def)
  obtain t' where t: "sp_link ?n t = Some t'" "inorder t' = insert_range ?n (inorder t)" using sp_link_inorder[OF ok ap] by blast
  have "sp_start m < e" "filter (\<lambda>p. sp_start p < e) pre = pre" using pre by (auto simp: filter_id_conv)
  moreover have "filter (\<lambda>p. \<not> sp_start p < e) pre = []" using pre by (auto simp: filter_empty_conv)
  moreover have "filter (\<lambda>p. sp_start p < e) ns = []" "filter (\<lambda>p. \<not> sp_start p < e) ns = ns"
    using ns by (auto simp: filter_empty_conv filter_id_conv)
  moreover have "inorder t = (pre @ [m]) @ ns" using assms(3) by simp
  ultimately have "insert_range ?n (inorder t) = pre @ m # ?n # ns"
    unfolding insert_range_def sp_node_init_def sp_node.select_convs filter_append by simp
  then show ?thesis using t assms(1) by (simp add: sp_insert_def rb_ok_def)
qed

lemma replace_loop_spec:
  assumes rb: "rb_ok color erase" and se: "s < e"
  shows "ranges_ok (pre @ ns) \<Longrightarrow> inorder t = pre @ ns \<Longrightarrow> \<forall>p \<in> set ns. s < sp_end p \<Longrightarrow>
    (case replace_loop color erase s e h ns t of
       Replaced t1 \<Rightarrow> inorder t1 = pre @ concat (map (cut_out s e) ns)
     | Alloc_New u \<Rightarrow> \<not> h
     | Sp_Bug \<Rightarrow> False)"
proof (induction ns arbitrary: pre t)
  case (Cons n ns)
  have d: "distinct (pre @ n # ns)" using Cons.prems(1) by (rule ranges_ok_distinct)
  have nx: "\<forall>p \<in> set ns. sp_end n \<le> sp_start p" using Cons.prems(1) by (simp add: ranges_ok_append ranges_ok_Cons)
  have sn: "s < sp_end n" using Cons.prems(3) by simp
  consider (beyond) "e \<le> sp_start n" | (inside) "s \<le> sp_start n" "sp_start n < e" "sp_end n \<le> e"
    | (right) "s \<le> sp_start n" "sp_start n < e" "e < sp_end n"
    | (span) "sp_start n < s" "e < sp_end n" | (left) "sp_start n < s" "sp_end n \<le> e" by (meson leI)
  then show ?case
  proof cases
    case beyond
    have "sp_start n < sp_end n" using Cons.prems(1) by (simp add: ranges_ok_append ranges_ok_Cons)
    then have b: "\<forall>p \<in> set (n # ns). e \<le> sp_start p" using beyond nx by fastforce
    show ?thesis unfolding replace_loop_end[OF b] cut_beyond[OF b] using Cons.prems(2) by simp
  next
    case inside
    have "n \<in> set (inorder t)" "distinct (inorder t)" unfolding Cons.prems(2) using d by simp_all
    then have "inorder (erase n t) = remove1 n (inorder t)" using rb unfolding rb_ok_def by blast
    then have i: "inorder (erase n t) = pre @ ns" using d unfolding Cons.prems(2) by (simp add: remove1_append)
    have r: "ranges_ok (pre @ ns)" using Cons.prems(1) by (simp add: ranges_ok_append ranges_ok_Cons)
    have "cut_out s e n = []" using inside sn by (auto simp: cut_out_def meets_def)
    then have "concat (map (cut_out s e) (n # ns)) = concat (map (cut_out s e) ns)" by simp
    then show ?thesis using Cons.IH[OF r i] Cons.prems(3) inside by (simp cong: replace_result.case_cong)
  next
    case right
    have b: "\<forall>p \<in> set ns. e \<le> sp_start p" using nx right by fastforce
    have "cut_out s e n = [n\<lparr>sp_start := e\<rparr>]" using right sn by (auto simp: cut_out_def meets_def)
    then show ?thesis using right replace_loop_end[OF b] inorder_update[OF Cons.prems(2) d] cut_beyond[OF b] by auto
  next
    case span
    have b: "\<forall>p \<in> set ns. e \<le> sp_start p" using nx span by fastforce
    let ?m = "n\<lparr>sp_end := s\<rparr>"
    have u: "inorder (sp_update n ?m t) = pre @ ?m # ns" by (rule inorder_update[OF Cons.prems(2) d])
    have sx: "\<forall>p \<in> set ns. s \<le> sp_start p" using nx sn by fastforce
    have r: "ranges_ok (pre @ ?m # ns)" using Cons.prems(1) span(1) sx by (auto simp: ranges_ok_append ranges_ok_Cons)
    have "\<exists>t1. sp_insert color (sp_node_init e (sp_end n) ((sp_policy n)\<lparr>refcnt := 1\<rparr>)) (sp_update n ?m t) = Some t1
        \<and> inorder t1 = pre @ ?m # sp_node_init e (sp_end n) ((sp_policy n)\<lparr>refcnt := 1\<rparr>) # ns"
      by (rule insert_split[OF rb r u]) (use se span nx in auto)
    moreover have "cut_out s e n = [?m, sp_node_init e (sp_end n) ((sp_policy n)\<lparr>refcnt := 1\<rparr>)]"
      using span sn se by (auto simp: cut_out_def meets_def)
    moreover have "sp_start n < e" using span(1) se by simp
    ultimately show ?thesis using span cut_beyond[OF b] by auto
  next
    case left
    let ?m = "n\<lparr>sp_end := s\<rparr>"
    have u: "inorder (sp_update n ?m t) = (pre @ [?m]) @ ns" using inorder_update[OF Cons.prems(2) d] by simp
    have sx: "\<forall>p \<in> set ns. s \<le> sp_start p" using nx sn by fastforce
    have r: "ranges_ok ((pre @ [?m]) @ ns)" using Cons.prems(1) left(1) sx by (auto simp: ranges_ok_append ranges_ok_Cons)
    have "cut_out s e n = [?m]" using left sn se by (auto simp: cut_out_def meets_def)
    moreover have "sp_start n < e" "\<not> s \<le> sp_start n" "\<not> e < sp_end n" using left se by auto
    ultimately show ?thesis using Cons.IH[OF r u] Cons.prems(3) by (simp cong: replace_result.case_cong)
  qed
qed simp

section \<open>A pass\<close>

lemma find_split:
  "List.find P xs = Some x \<Longrightarrow> \<exists>pre post. xs = pre @ x # post \<and> (\<forall>p \<in> set pre. \<not> P p) \<and> P x"
proof (induction xs)
  case (Cons a xs)
  show ?case
  proof (cases "P a")
    case True
    then show ?thesis using Cons.prems by (intro exI[of _ "[]"] exI[of _ xs]) simp
  next
    case False
    then obtain pre post where "xs = pre @ x # post" "\<forall>p \<in> set pre. \<not> P p" "P x" using Cons by auto
    then show ?thesis using False by (intro exI[of _ "a # pre"] exI[of _ post]) simp
  qed
qed simp

text \<open>A second node is wanted for the first old range only, before anything is changed.\<close>

lemma no_alloc: "\<forall>p \<in> set ns. s \<le> sp_start p \<Longrightarrow> replace_loop color erase s e h ns t \<noteq> Alloc_New u"
  by (induction ns arbitrary: t) (auto split: if_splits option.splits)

lemma alloc_unchanged:
  assumes "\<forall>p \<in> set ns. s \<le> sp_start p" "replace_loop color erase s e h (n # ns) t = Alloc_New u"
  shows "u = t"
  using assms(2) no_alloc[OF assms(1)] by (auto split: if_splits option.splits)

lemma loop_from_lookup:
  assumes rb: "rb_ok color erase" and se: "s < e" and ok: "ranges_ok (inorder t)"
  shows "case replace_loop color erase s e h (nodes_from (sp_lookup t s e) t) t of
       Replaced t1 \<Rightarrow> inorder t1 = concat (map (cut_out s e) (inorder t))
     | Alloc_New u \<Rightarrow> \<not> h \<and> u = t
     | Sp_Bug \<Rightarrow> False"
proof (cases "List.find (meets s e) (inorder t)")
  case None
  then have "\<forall>p \<in> set (inorder t). \<not> meets s e p" unfolding find_None_iff by blast
  then show ?thesis using None sp_lookup_first[OF ok, of s e] cut_id[of "inorder t" s e] by (simp add: nodes_from_def)
next
  case (Some n)
  obtain pre post where x: "inorder t = pre @ n # post" and pre: "\<forall>p \<in> set pre. \<not> meets s e p" and m: "meets s e n"
    using find_split[OF Some] by blast
  have ok2: "ranges_ok (pre @ n # post)" using ok unfolding x .
  then have "n \<notin> set pre" using ranges_ok_distinct by fastforce
  then have dw: "dropWhile (\<lambda>q. q \<noteq> n) (pre @ n # post) = n # post" by (subst dropWhile_append2) auto
  have "sp_lookup t s e = Some n" using sp_lookup_first[OF ok] Some by simp
  then have nf: "nodes_from (sp_lookup t s e) t = n # post" unfolding nodes_from_def x by (simp add: dw)
  have "\<forall>p \<in> set (n # post). s < sp_end p"
  proof
    fix p assume p: "p \<in> set (n # post)"
    have "sp_start p < sp_end p" using ok2 p by (auto simp: ranges_ok_def)
    moreover have "p = n \<or> sp_end n \<le> sp_start p" using ok2 p by (auto simp: ranges_ok_append ranges_ok_Cons)
    ultimately have "sp_end n \<le> sp_end p" by auto
    then show "s < sp_end p" using m unfolding meets_def by (meson less_le_trans)
  qed
  note spec = replace_loop_spec[OF rb se ok2 x this, of h]
  have "\<forall>p \<in> set post. s \<le> sp_start p"
  proof
    fix p assume "p \<in> set post"
    then have "sp_end n \<le> sp_start p" using ok2 by (auto simp: ranges_ok_append ranges_ok_Cons)
    then show "s \<le> sp_start p" using m unfolding meets_def by (meson less_imp_le less_le_trans)
  qed
  note un = alloc_unchanged[OF this]
  have c: "concat (map (cut_out s e) (inorder t)) = pre @ concat (map (cut_out s e) (n # post))"
    unfolding x map_append concat_append cut_id[OF pre] ..
  show ?thesis
  proof (cases "replace_loop color erase s e h (n # post) t")
    case (Alloc_New u)
    show ?thesis using spec un[OF Alloc_New] unfolding nf Alloc_New replace_result.case by blast
  qed (use spec in \<open>simp_all only: nf c replace_result.case\<close>)
qed

definition holds :: "sp_node \<Rightarrow> 64 word \<Rightarrow> bool" where
  "holds p i = (sp_start p \<le> i \<and> i < sp_end p)"

definition plain :: "mempolicy \<Rightarrow> mempolicy" where
  "plain pol = pol\<lparr>refcnt := 0\<rparr>"

definition fits :: "64 word \<Rightarrow> 64 word \<Rightarrow> sp_node option \<Rightarrow> bool" where
  "fits s e new = (case new of None \<Rightarrow> True | Some nd \<Rightarrow> sp_start nd = s \<and> sp_end nd = e)"

lemma cut_piece:
  assumes "sp_start p < sp_end p" "s < e" "q \<in> set (cut_out s e p)"
  shows "sp_start q < sp_end q" "sp_start p \<le> sp_start q" "sp_end q \<le> sp_end p" "\<not> meets s e q"
    "plain (sp_policy q) = plain (sp_policy p)"
  using assms by (auto simp: cut_out_def meets_def sp_node_init_def plain_def split: if_splits)

lemma cut_holds:
  assumes "sp_start p < sp_end p" "s < e"
  shows "(\<exists>q \<in> set (cut_out s e p). holds q i) \<longleftrightarrow> holds p i \<and> \<not> (s \<le> i \<and> i < e)"
  using assms by (auto simp: cut_out_def meets_def holds_def sp_node_init_def)

lemma cut_ranges:
  assumes "ranges_ok xs" "s < e"
  shows "ranges_ok (concat (map (cut_out s e) xs))"
  using assms
proof (induction xs)
  case (Cons p xs)
  have p: "sp_start p < sp_end p" "\<forall>b \<in> set xs. sp_end p \<le> sp_start b" "ranges_ok xs" "\<forall>b \<in> set xs. sp_start b < sp_end b"
    using Cons.prems by (auto simp: ranges_ok_Cons ranges_ok_def)
  have "ranges_ok (cut_out s e p)"
    using p(1) Cons.prems(2) by (auto simp: cut_out_def ranges_ok_def meets_def sp_node_init_def)
  moreover have "\<forall>a \<in> set (cut_out s e p). \<forall>b \<in> set (concat (map (cut_out s e) xs)). sp_end a \<le> sp_start b"
  proof (intro ballI)
    fix a b assume a: "a \<in> set (cut_out s e p)" and "b \<in> set (concat (map (cut_out s e) xs))"
    then obtain c where c: "c \<in> set xs" "b \<in> set (cut_out s e c)" by auto
    have "sp_start c \<le> sp_start b" using cut_piece(2)[OF _ Cons.prems(2) c(2)] p(4) c(1) by blast
    moreover have "sp_end a \<le> sp_end p" by (rule cut_piece(3)[OF p(1) Cons.prems(2) a])
    ultimately show "sp_end a \<le> sp_start b" using p(2) c(1) by fastforce
  qed
  ultimately show ?case using Cons.IH[OF p(3) Cons.prems(2)] by (simp add: ranges_ok_append)
qed (simp add: ranges_ok_def)

lemma replace_pass_spec:
  assumes rb: "rb_ok color erase" and se: "s < e" and ok: "ranges_ok (inorder t)"
    and fits: "fits s e new"
  shows "case replace_pass color erase s e new h t of
      Replaced t1 \<Rightarrow> ranges_ok (inorder t1)
        \<and> set (inorder t1) = set_option new \<union> set (concat (map (cut_out s e) (inorder t)))
    | Alloc_New u \<Rightarrow> \<not> h \<and> u = t
    | Sp_Bug \<Rightarrow> False"
proof (cases "replace_loop color erase s e h (nodes_from (sp_lookup t s e) t) t")
  case (Replaced t1)
  then have i: "inorder t1 = concat (map (cut_out s e) (inorder t))" using loop_from_lookup[OF rb se ok, of h] by simp
  have ok1: "ranges_ok (inorder t1)" unfolding i by (rule cut_ranges[OF ok se])
  show ?thesis
  proof (cases new)
    case None
    then show ?thesis using Replaced ok1 i unfolding replace_pass_def by simp
  next
    case (Some nd)
    have nd: "sp_start nd = s" "sp_end nd = e" "sp_start nd < sp_end nd" using fits Some se by (auto simp: fits_def)
    have ap: "\<forall>p \<in> set (inorder t1). apart p nd"
    proof
      fix q assume "q \<in> set (inorder t1)"
      then obtain c where c: "c \<in> set (inorder t)" "q \<in> set (cut_out s e c)" unfolding i by auto
      have "sp_start c < sp_end c" using ok c(1) unfolding ranges_ok_def by blast
      from cut_piece(4)[OF this se c(2)] show "apart q nd" using nd by (auto simp: apart_def meets_def)
    qed
    obtain t2 where l: "sp_link nd t1 = Some t2" "inorder t2 = insert_range nd (inorder t1)"
      using sp_link_inorder[OF ok1 nd(3) ap] by blast
    have "inorder (color t2) = insert_range nd (inorder t1)" using rb l(2) by (simp add: rb_ok_def)
    moreover have "ranges_ok (insert_range nd (inorder t1))" by (rule insert_range_ok[OF ok1 nd(3) ap])
    moreover have "set (insert_range nd (inorder t1)) = insert nd (set (inorder t1))" by (auto simp: insert_range_def)
    moreover have "replace_pass color erase s e new h t = Replaced (color t2)"
      using Replaced Some l(1) by (simp add: replace_pass_def sp_insert_def)
    ultimately show ?thesis using Some i by simp
  qed
qed (use loop_from_lookup[OF rb se ok, of h] in \<open>simp_all add: replace_pass_def\<close>)

section \<open>Policies of the pages\<close>

text \<open>The policy of a page, without its reference count.\<close>

definition pol_at :: "sp_tree \<Rightarrow> 64 word \<Rightarrow> mempolicy option" where
  "pol_at t i = map_option plain (mpol_shared_policy_lookup t i)"

lemma ranges_ok_apart: "ranges_ok xs \<Longrightarrow> p \<in> set xs \<Longrightarrow> q \<in> set xs \<Longrightarrow> p = q \<or> apart p q"
  by (induction xs) (auto simp: ranges_ok_Cons apart_def)

lemma holds_unique: "ranges_ok xs \<Longrightarrow> p \<in> set xs \<Longrightarrow> q \<in> set xs \<Longrightarrow> holds p i \<Longrightarrow> holds q i \<Longrightarrow> p = q"
  using ranges_ok_apart[of xs p q] by (auto simp: apart_def holds_def)

lemma less_next: "i + 1 \<noteq> (0 :: 64 word) \<Longrightarrow> x < i + 1 \<longleftrightarrow> x \<le> i"
  by unat_arith

lemma meets_holds: "i + 1 \<noteq> 0 \<Longrightarrow> meets i (i + 1) p = holds p i"
  by (auto simp: meets_def holds_def less_next)

lemma pol_at_Some:
  assumes "ranges_ok (inorder t)" "i + 1 \<noteq> 0" "p \<in> set (inorder t)" "holds p i"
  shows "pol_at t i = Some (plain (sp_policy p))"
proof -
  have "\<exists>q. List.find (meets i (i + 1)) (inorder t) = Some q"
    using assms(2,3,4) find_None_iff[of "meets i (i + 1)" "inorder t"] meets_holds by fastforce
  then obtain q where q: "List.find (meets i (i + 1)) (inorder t) = Some q" by blast
  then obtain pre post where x: "inorder t = pre @ q # post" and "meets i (i + 1) q" using find_split[OF q] by blast
  then have "q \<in> set (inorder t)" "holds q i" unfolding x using meets_holds[OF assms(2)] by auto
  then have "q = p" using holds_unique[OF assms(1) _ assms(3)] assms(4) by blast
  then show ?thesis using q sp_lookup_first[OF assms(1)] by (simp add: pol_at_def mpol_shared_policy_lookup_def)
qed

lemma pol_at_None:
  assumes "ranges_ok (inorder t)" "i + 1 \<noteq> 0" "\<And>p. p \<in> set (inorder t) \<Longrightarrow> \<not> holds p i"
  shows "pol_at t i = None"
proof -
  have "List.find (meets i (i + 1)) (inorder t) = None"
    by (rule find_none) (use assms(2,3) meets_holds in blast)
  then show ?thesis using sp_lookup_first[OF assms(1)] by (simp add: pol_at_def mpol_shared_policy_lookup_def)
qed

lemma pol_at_replaced:
  assumes ok: "ranges_ok (inorder t)" "ranges_ok (inorder t1)" and se: "s < e" and i: "i + 1 \<noteq> 0"
    and set1: "set (inorder t1) = set_option new \<union> set (concat (map (cut_out s e) (inorder t)))"
    and fits: "fits s e new"
  shows "pol_at t1 i = (if s \<le> i \<and> i < e then map_option (\<lambda>nd. plain (sp_policy nd)) new else pol_at t i)"
proof -
  have start: "\<And>p. p \<in> set (inorder t) \<Longrightarrow> sp_start p < sp_end p" using ok(1) unfolding ranges_ok_def by blast
  have piece: "holds p i \<and> \<not> (s \<le> i \<and> i < e)" if "p \<in> set (inorder t)" "q \<in> set (cut_out s e p)" "holds q i" for p q
    using cut_holds[OF start[OF that(1)] se, of i] that by blast
  show ?thesis
  proof (cases "s \<le> i \<and> i < e")
    case True
    show ?thesis
    proof (cases new)
      case None
      have "pol_at t1 i = None"
      proof (rule pol_at_None[OF ok(2) i])
        fix q assume "q \<in> set (inorder t1)"
        then obtain p where "p \<in> set (inorder t)" "q \<in> set (cut_out s e p)" using None unfolding set1 by auto
        then show "\<not> holds q i" using piece True by blast
      qed
      then show ?thesis using True None by simp
    next
      case (Some nd)
      have "nd \<in> set (inorder t1)" using Some unfolding set1 by simp
      from pol_at_Some[OF ok(2) i this] show ?thesis using fits True Some by (simp add: holds_def fits_def)
    qed
  next
    case False
    show ?thesis
    proof (cases "\<exists>p \<in> set (inorder t). holds p i")
      case True
      then obtain p where p: "p \<in> set (inorder t)" "holds p i" by blast
      then obtain q where q: "q \<in> set (cut_out s e p)" "holds q i" using cut_holds[OF start[OF p(1)] se, of i] False by blast
      have "q \<in> set (inorder t1)" unfolding set1 using p(1) q(1) by auto
      then show ?thesis unfolding if_not_P[OF False]
        using pol_at_Some[OF ok(2) i _ q(2)] pol_at_Some[OF ok(1) i p] cut_piece(5)[OF start[OF p(1)] se q(1)] by simp
    next
      case none: False
      have "pol_at t1 i = None"
      proof (rule pol_at_None[OF ok(2) i])
        fix q assume "q \<in> set (inorder t1)"
        then consider "new = Some q" | p where "p \<in> set (inorder t)" "q \<in> set (cut_out s e p)" unfolding set1 by auto
        then show "\<not> holds q i"
        proof cases
          case 1
          then show ?thesis using fits 1 False by (auto simp: holds_def fits_def)
        next
          case 2
          then show ?thesis using piece none by blast
        qed
      qed
      moreover have "pol_at t i = None" by (rule pol_at_None[OF ok(1) i]) (use none in blast)
      ultimately show ?thesis unfolding if_not_P[OF False] by simp
    qed
  qed
qed

section \<open>Correctness\<close>

text \<open>
  C7. Replacing the policy of a range of shared memory changes that range only. On a tree of ordered,
  disjoint ranges, \<^verbatim>\<open>shared_policy_replace\<close> fails only for lack of memory, and then leaves the tree as
  it is. Otherwise every page in the range has the new policy, or none if there is none, and
  every other page has the policy it had in the tree the last pass saw; the ranges stay ordered
  and disjoint.
\<close>

theorem shared_policy_replace_correct:
  assumes "rb_ok color erase" "s < e" "ranges_ok (inorder t)" "ranges_ok (inorder (meanwhile t))"
    "fits s e new"
    "shared_policy_replace color erase alloc_ok meanwhile s e new t = (r, t')"
  shows "(r = Some ENOMEM \<and> \<not> alloc_ok \<and> t' = t) \<or>
    (r = None \<and> ranges_ok (inorder t') \<and> (\<exists>t0 \<in> {t, meanwhile t}. \<forall>i. i + 1 \<noteq> 0 \<longrightarrow>
       pol_at t' i = (if s \<le> i \<and> i < e then map_option (\<lambda>nd. plain (sp_policy nd)) new else pol_at t0 i)))"
proof -
  have dn: "ranges_ok (inorder t1) \<and> (\<forall>i. i + 1 \<noteq> 0 \<longrightarrow>
      pol_at t1 i = (if s \<le> i \<and> i < e then map_option (\<lambda>nd. plain (sp_policy nd)) new else pol_at t0 i))"
    if "ranges_ok (inorder t0)" "replace_pass color erase s e new h t0 = Replaced t1" for t0 t1 h
  proof -
    have r: "ranges_ok (inorder t1)" "set (inorder t1) = set_option new \<union> set (concat (map (cut_out s e) (inorder t0)))"
      using replace_pass_spec[OF assms(1,2) that(1) assms(5), where h = h] that(2) by simp_all
    show ?thesis using r(1) pol_at_replaced[OF that(1) r(1) assms(2) _ r(2) assms(5)] by blast
  qed
  show ?thesis
  proof (cases "replace_pass color erase s e new False t")
    case (Replaced t1)
    then show ?thesis using dn[OF assms(3) Replaced] assms(6) by (auto simp: shared_policy_replace_def)
  next
    case Sp_Bug
    then show ?thesis using replace_pass_spec[OF assms(1,2,3,5), where h = False] by simp
  next
    case (Alloc_New u)
    then have u: "u = t" using replace_pass_spec[where new = new and h = False, OF assms(1,2,3,5)] by simp
    show ?thesis
    proof (cases alloc_ok)
      case False
      then show ?thesis using Alloc_New u assms(6) by (simp add: shared_policy_replace_def)
    next
      case True
      obtain t1 where r: "replace_pass color erase s e new True (meanwhile t) = Replaced t1"
        using replace_pass_spec[OF assms(1,2,4,5), where h = True] by (cases "replace_pass color erase s e new True (meanwhile t)") simp_all
      then show ?thesis using dn[OF assms(4) r] Alloc_New u True assms(6) by (auto simp: shared_policy_replace_def)
    qed
  qed
qed

text \<open>Trees as search trees without balancing satisfy the laws.\<close>

fun erase_root :: "sp_node list \<Rightarrow> sp_tree" where
  "erase_root [] = Leaf"
| "erase_root (x # xs) = Node Leaf x (erase_root xs)"

definition plain_erase :: "sp_node \<Rightarrow> sp_tree \<Rightarrow> sp_tree" where
  "plain_erase n t = erase_root (remove1 n (inorder t))"

lemma plain_rb_ok: "rb_ok id plain_erase"
proof -
  have "inorder (erase_root xs) = xs" for xs by (induction xs) auto
  then show ?thesis by (simp add: rb_ok_def plain_erase_def)
qed

definition sample_sp_tree :: sp_tree where
  "sample_sp_tree = Node Leaf (sp_node_init 0 10 default_policy) Leaf"

theorem shared_policy_replace_correct_witness:
  "\<exists>r t'. shared_policy_replace id plain_erase True id 3 5 None sample_sp_tree = (r, t') \<and> r = None
    \<and> pol_at t' 4 = None \<and> pol_at t' 7 = pol_at sample_sp_tree 7"
proof -
  obtain r t' where r: "shared_policy_replace id plain_erase True id 3 5 None sample_sp_tree = (r, t')" by (meson surj_pair)
  have ok: "ranges_ok (inorder sample_sp_tree)" by (simp add: sample_sp_tree_def ranges_ok_def sp_node_init_def)
  have "fits 3 5 None" by (simp add: fits_def)
  from shared_policy_replace_correct[OF plain_rb_ok _ ok _ this r] ok
  have "r = None" "\<forall>i. i + 1 \<noteq> 0 \<longrightarrow> pol_at t' i = (if 3 \<le> i \<and> i < 5 then None else pol_at sample_sp_tree i)" by auto
  then show ?thesis using r by simp
qed

end
