(* ===== verification/Mempolicy_Alloc.thy ===== *)
theory Mempolicy_Alloc
  imports Mempolicy_Rebind Mempolicy_Shared
begin

text \<open>
  The callers of memory policies: the allocation of pages, the system calls \<^verbatim>\<open>migrate_pages\<close> and
  \<^verbatim>\<open>get_mempolicy\<close>, and the policy of a new file of tmpfs. The allocator of pages is an argument.
\<close>

section \<open>Allocating pages\<close>

text \<open>What is asked of the page allocator: any zone list of a node, or one filtered by a mask.\<close>

datatype alloc_req = From_Node nat | From_Zonelist nat "nodemask option"

record zone_env =
  policy_zone :: nat
  zone_movable :: nat
  high_nodes :: nodemask
  valid_mems :: "nodemask \<Rightarrow> bool"

definition zonelist_request :: "mp_env \<Rightarrow> zone_env \<Rightarrow> nat \<Rightarrow> bool \<Rightarrow> mempolicy \<Rightarrow> nat \<Rightarrow> alloc_req option" where
  "zonelist_request env z zone thisnode pol nd =
     (case policy_zonelist env thisnode pol nd of
        None \<Rightarrow> None
      | Some n \<Rightarrow>
          map_option (From_Zonelist n) (policy_nodemask (policy_zone z) (zone_movable z) (high_nodes z) (valid_mems z) zone pol))"

text \<open>
  The loop around \<^verbatim>\<open>retry_cpuset\<close>: \<open>page\<close> is the answer of the allocator in a turn, \<open>steady\<close> tells that the allowed nodes did
  not change in it. The inner \<open>None\<close> is \<^verbatim>\<open>BUG()\<close>, the outer one a loop that does not end.
\<close>

partial_function (option) alloc_retry ::
  "(nat \<Rightarrow> alloc_req \<Rightarrow> 'p option) \<Rightarrow> (nat \<Rightarrow> bool) \<Rightarrow> (mp_task \<Rightarrow> (alloc_req \<times> mp_task) option) \<Rightarrow> nat \<Rightarrow> mp_task
   \<Rightarrow> ('p option \<times> mp_task) option option" where
  "alloc_retry page steady req k me =
     (case req me of
        None \<Rightarrow> Some None
      | Some rm \<Rightarrow>
          if \<not> steady k \<and> page k (fst rm) = None then alloc_retry page steady req (Suc k) (snd rm)
          else Some (Some (page k (fst rm), snd rm)))"

definition current_request :: "mp_env \<Rightarrow> zone_env \<Rightarrow> nat \<Rightarrow> bool \<Rightarrow> mempolicy \<Rightarrow> mp_task \<Rightarrow> (alloc_req \<times> mp_task) option" where
  "current_request env z zone thisnode pol me =
     (if mode pol = MPOL_INTERLEAVE then Some (apfst From_Node (interleave_nodes env pol me))
      else map_option (\<lambda>r. (r, me)) (zonelist_request env z zone thisnode pol (numa_node env)))"

definition alloc_pages_current ::
  "mp_env \<Rightarrow> zone_env \<Rightarrow> (nat \<Rightarrow> mempolicy) \<Rightarrow> nat option \<Rightarrow> bool \<Rightarrow> nat \<Rightarrow> bool \<Rightarrow> (nat \<Rightarrow> alloc_req \<Rightarrow> 'p option) \<Rightarrow> (nat \<Rightarrow> bool)
   \<Rightarrow> mp_task \<Rightarrow> ('p option \<times> mp_task) option option" where
  "alloc_pages_current env z tab node in_interrupt zone thisnode page steady me =
     (case get_task_policy tab node me of
        None \<Rightarrow> Some None
      | Some tp \<Rightarrow>
          let pol = (case tp of None \<Rightarrow> default_policy | Some p \<Rightarrow> if in_interrupt \<or> thisnode then default_policy else p) in
          alloc_retry page steady (current_request env z zone thisnode pol) 0 me)"

definition vma_request ::
  "nat \<Rightarrow> mp_env \<Rightarrow> zone_env \<Rightarrow> (nat \<Rightarrow> mempolicy) \<Rightarrow> nat option \<Rightarrow> nat \<Rightarrow> bool \<Rightarrow> nat \<Rightarrow> vm_area option \<Rightarrow> 64 word \<Rightarrow> nat \<Rightarrow> mp_task
   \<Rightarrow> (alloc_req \<times> mp_task) option" where
  "vma_request PS env z tab node zone thisnode order vma addr nd me =
     (case get_vma_policy tab node me vma addr of
        None \<Rightarrow> None
      | Some pol \<Rightarrow>
          if mode pol = MPOL_INTERLEAVE then map_option (apfst From_Node) (interleave_nid PS env pol vma addr (PS + order) me)
          else map_option (\<lambda>r. (r, me)) (zonelist_request env z zone thisnode pol nd))"

definition alloc_pages_vma ::
  "nat \<Rightarrow> mp_env \<Rightarrow> zone_env \<Rightarrow> (nat \<Rightarrow> mempolicy) \<Rightarrow> nat option \<Rightarrow> nat \<Rightarrow> bool \<Rightarrow> nat \<Rightarrow> vm_area option \<Rightarrow> 64 word \<Rightarrow> nat
   \<Rightarrow> (nat \<Rightarrow> alloc_req \<Rightarrow> 'p option) \<Rightarrow> (nat \<Rightarrow> bool) \<Rightarrow> mp_task \<Rightarrow> ('p option \<times> mp_task) option option" where
  "alloc_pages_vma PS env z tab node zone thisnode order vma addr nd page steady me =
     alloc_retry page steady (vma_request PS env z tab node zone thisnode order vma addr nd) 0 me"

text \<open>\<open>shift\<close> is the shift of the huge pages of the area; the result has the node of the zone list, the policy and the mask.\<close>

definition huge_zonelist ::
  "nat \<Rightarrow> mp_env \<Rightarrow> (nat \<Rightarrow> mempolicy) \<Rightarrow> nat option \<Rightarrow> bool \<Rightarrow> vm_area \<Rightarrow> 64 word \<Rightarrow> nat \<Rightarrow> mp_task
   \<Rightarrow> (nat \<times> mempolicy \<times> nodemask option) option" where
  "huge_zonelist PS env tab node thisnode vma addr shift me =
     (case get_vma_policy tab node me (Some vma) addr of
        None \<Rightarrow> None
      | Some pol \<Rightarrow>
          if mode pol = MPOL_INTERLEAVE then
            map_option (\<lambda>n. (fst n, pol, None)) (interleave_nid PS env pol (Some vma) addr shift me)
          else
            map_option (\<lambda>n. (n, pol, if mode pol = MPOL_BIND then Some (v_nodes pol) else None))
              (policy_zonelist env thisnode pol (numa_node env)))"

section \<open>System calls\<close>

record mig_cred =
  c_uid :: nat
  c_euid :: nat

text \<open>The task whose pages move: its ids, its allowed nodes and whether it has an address space.\<close>

record mig_target =
  t_uid :: nat
  t_suid :: nat
  t_nodes :: nodemask
  t_mm :: bool

definition may_move :: "bool \<Rightarrow> mig_cred \<Rightarrow> mig_target \<Rightarrow> bool" where
  "may_move capable c t =
     (\<not> (c_euid c \<noteq> t_suid t \<and> c_euid c \<noteq> t_uid t \<and> c_uid c \<noteq> t_suid t \<and> c_uid c \<noteq> t_uid t \<and> \<not> capable))"

text \<open>
  \<open>task\<close> is the task found for the process number, \<open>security\<close> the result of the security module, \<open>migrate\<close> the move of one node,
  of all pages if its first argument is true.
\<close>

definition sys_migrate_pages ::
  "nat \<Rightarrow> mp_env \<Rightarrow> bool \<Rightarrow> bool \<Rightarrow> mig_cred \<Rightarrow> mig_target option \<Rightarrow> int \<Rightarrow> int \<Rightarrow> int \<Rightarrow> (bool \<Rightarrow> nat \<Rightarrow> nat \<Rightarrow> int)
   \<Rightarrow> user_mask option \<Rightarrow> user_mask option \<Rightarrow> 64 word \<Rightarrow> (mp_err + int) \<times> (nat \<times> nat) list" where
  "sys_migrate_pages PSZ env scratch capable cred task security prep vmas migrate old_nodes new_nodes maxnode =
     (if \<not> scratch then (Inl ENOMEM, [])
      else case get_nodes PSZ env old_nodes maxnode of
        Inl e \<Rightarrow> (Inl e, [])
      | Inr old \<Rightarrow>
          (case get_nodes PSZ env new_nodes maxnode of
             Inl e \<Rightarrow> (Inl e, [])
           | Inr new \<Rightarrow>
               (case task of
                  None \<Rightarrow> (Inl ESRCH, [])
                | Some t \<Rightarrow>
                    if \<not> may_move capable cred t then (Inl EPERM, [])
                    else if \<not> new \<subseteq> t_nodes t \<and> \<not> capable then (Inl EPERM, [])
                    else if \<not> new \<subseteq> n_memory env then (Inl EINVAL, [])
                    else if security \<noteq> 0 then (Inr security, [])
                    else if \<not> t_mm t then (Inl EINVAL, [])
                    else apfst Inr (do_migrate_pages env prep vmas (migrate capable) old new))))"

text \<open>\<open>pol\<close>: the caller wants the policy, and whether it can be written; \<open>nmask\<close>: the same for the mask, with the memory there.\<close>

definition sys_get_mempolicy ::
  "nat \<Rightarrow> mp_env \<Rightarrow> (64 word \<Rightarrow> mempolicy option option) \<Rightarrow> (64 word \<Rightarrow> int) \<Rightarrow> bool option \<Rightarrow> (bool \<times> (nat \<Rightarrow> 64 word)) option
   \<Rightarrow> 64 word \<Rightarrow> 64 word \<Rightarrow> get_flag set \<Rightarrow> mp_task \<Rightarrow> (int + mp_err) + policy_value \<times> (nat \<Rightarrow> 64 word) option" where
  "sys_get_mempolicy PSZ env find_policy lookup pol nmask maxnode addr fl t =
     (if nmask \<noteq> None \<and> unat maxnode < max_numnodes env then Inl (Inr EINVAL)
      else case do_get_mempolicy env find_policy lookup addr fl t of
        Inl e \<Rightarrow> Inl e
      | Inr (v, ns) \<Rightarrow>
          if pol = Some False then Inl (Inr EFAULT)
          else (case nmask of
              None \<Rightarrow> Inr (v, None)
            | Some (ok, umem) \<Rightarrow>
                (case copy_nodes_to_user PSZ env ok umem maxnode ns of
                   (Some e, _) \<Rightarrow> Inl (Inr e)
                 | (None, umem1) \<Rightarrow> Inr (v, Some umem1))))"

section \<open>The policy of a new file\<close>

text \<open>\<open>dup\<close> is \<^verbatim>\<open>mpol_dup\<close>; \<open>pages\<close> are the pages below \<^verbatim>\<open>TASK_SIZE\<close>.\<close>

definition mpol_shared_policy_init ::
  "(sp_tree \<Rightarrow> sp_tree) \<Rightarrow> (sp_node \<Rightarrow> sp_tree \<Rightarrow> sp_tree) \<Rightarrow> mp_env \<Rightarrow> bool \<Rightarrow> mempolicy option \<Rightarrow> bool \<Rightarrow> (mempolicy \<Rightarrow> mempolicy option)
   \<Rightarrow> 64 word \<Rightarrow> mempolicy option \<Rightarrow> sp_tree" where
  "mpol_shared_policy_init color erase env scratch fresh node_ok dup pages mpol =
     (case mpol of
        None \<Rightarrow> Leaf
      | Some m \<Rightarrow>
          if \<not> scratch then Leaf
          else (case mpol_new fresh (mode m) (flags m) (Some (w_nodes m)) of
              Inl e \<Rightarrow> Leaf
            | Inr new \<Rightarrow>
                (case mpol_set_nodemask env new (w_nodes m) of
                   Inl e \<Rightarrow> Leaf
                 | Inr new1 \<Rightarrow> snd (mpol_set_shared_policy color erase node_ok True id 0 pages (map_option dup new1) Leaf))))"

section \<open>Correctness\<close>

lemma alloc_retry_returns: "steady n \<Longrightarrow> k \<le> n \<Longrightarrow> \<exists>y. alloc_retry page steady req k me = Some y"
proof (induction "n - k" arbitrary: k me)
  case 0
  then have "steady k" by simp
  then show ?case by (subst alloc_retry.simps) (auto split: option.split)
next
  case (Suc d)
  then have "\<exists>y. alloc_retry page steady req (Suc k) m = Some y" for m by simp
  then show ?case by (subst alloc_retry.simps) (auto split: option.split)
qed

text \<open>
  An allocation ends once the allowed nodes stay the same for one turn, and what it asks of the
  allocator respects a confined policy: interleaving asks for a node of the mask, a bind policy that
  applies to the zone for its mask, a preferred node is an allowed one.
\<close>

lemma current_request_confined:
  assumes "confined env a pol" "a \<subseteq> {..<max_numnodes env}" "current_request env z zone thisnode pol me = Some (r, me1)"
    and "mode pol = MPOL_INTERLEAVE \<Longrightarrow> il_next me \<in> v_nodes pol"
  shows "case r of
      From_Node n \<Rightarrow> n \<in> a \<and> il_next me1 \<in> v_nodes pol
    | From_Zonelist n m \<Rightarrow> (MPOL_F_LOCAL \<notin> flags pol \<and> mode pol = MPOL_PREFERRED \<longrightarrow> n \<in> a) \<and> (\<forall>s. m = Some s \<longrightarrow> s \<noteq> {} \<and> s \<subseteq> a)"
proof (cases "mode pol = MPOL_INTERLEAVE")
  case True
  let ?l = "node_list env (v_nodes pol)"
  have v: "v_nodes pol \<subseteq> a" using assms(1) True by (auto simp: confined_def)
  then have "il_next me \<in> set ?l" using assms(2,4) True by (auto simp: node_list_set)
  then obtain k where k: "k < length ?l" "il_next me = ?l ! k" by (metis in_set_conv_nth)
  have "Suc k mod length ?l < length ?l" using k(1) by (intro mod_less_divisor) linarith
  then have "?l ! (Suc k mod length ?l) \<in> set ?l" by (rule nth_mem)
  then show ?thesis using interleave_step[OF k] assms(3,4) True v by (auto simp: current_request_def node_list_set k(2))
next
  case False
  then show ?thesis using assms(1,3)
    by (auto simp: current_request_def zonelist_request_def policy_zonelist_def policy_nodemask_def confined_def
        split: option.splits mpol_mode.splits if_splits)
qed

text \<open>
  \<^verbatim>\<open>migrate_pages\<close> moves pages only of a task that the caller may control and only to nodes that this task may use, or
  with the capability, and only to nodes with memory.
\<close>

lemma migrate_pages_permitted:
  assumes "sys_migrate_pages PSZ env scratch capable cred task security prep vmas migrate (Some old_nodes) (Some new_nodes) maxnode = (r, moves)"
    "moves \<noteq> []"
  obtains t old new where "task = Some t" "get_nodes PSZ env (Some old_nodes) maxnode = Inr old"
    "get_nodes PSZ env (Some new_nodes) maxnode = Inr new"
    "capable \<or> new \<subseteq> t_nodes t \<and> {c_uid cred, c_euid cred} \<inter> {t_uid t, t_suid t} \<noteq> {}" "new \<subseteq> n_memory env"
    "do_migrate_pages env prep vmas (migrate capable) old new = (projr r, moves)"
proof -
  obtain t old new where t: "task = Some t" "get_nodes PSZ env (Some old_nodes) maxnode = Inr old"
    "get_nodes PSZ env (Some new_nodes) maxnode = Inr new"
    "may_move capable cred t" "new \<subseteq> t_nodes t \<or> capable" "new \<subseteq> n_memory env"
    "apfst Inr (do_migrate_pages env prep vmas (migrate capable) old new) = (r, moves)"
    using assms unfolding sys_migrate_pages_def by (auto split: if_splits sum.splits option.splits)
  have "do_migrate_pages env prep vmas (migrate capable) old new = (projr r, moves)"
    using t(7) by (cases "do_migrate_pages env prep vmas (migrate capable) old new") auto
  moreover have "capable \<or> new \<subseteq> t_nodes t \<and> {c_uid cred, c_euid cred} \<inter> {t_uid t, t_suid t} \<noteq> {}"
    using t(4,5) by (auto simp: may_move_def)
  ultimately show thesis using that[OF t(1-3) _ t(6)] by blast
qed

end
