(* ===== verification/Spec2Isabelle.thy ===== *)
theory Spec2Isabelle
  imports Prelude Property_Socket Prop_Seqlock Builtins_Correct Init_Boot First_Stage Zygote_Init Pid_Struct Mempolicy_String Mempolicy_Alloc
begin

text \<open>
  \<^bold>\<open>A verification library for the property system, the init process, zygote, and the process numbers and memory policies of the kernel.\<close>

  The repository holds the sources that take an Android device from the kernel to the first
  application. This library covers the parts whose logic is complete in the
  repository: the shared memory store of system properties in the C library
  (\<^verbatim>\<open>bionic/libc/bionic/system_properties.cpp\<close>), the init process that owns it
  (\<^verbatim>\<open>system/core/init\<close>): its property service, the parser of its scripts, its actions, its
  services, its builtin commands and its main loop; the start of zygote (\<^verbatim>\<open>cmds/app_process\<close>,
  \<^verbatim>\<open>AndroidRuntime.cpp\<close>, \<^verbatim>\<open>ZygoteInit.java\<close>); and from the kernel the allocator of process numbers
  (\<^verbatim>\<open>msm/kernel/pid.c\<close>) and the memory policies (\<^verbatim>\<open>msm/mm/mempolicy.c\<close>).

  \<^bold>\<open>How the parts interact.\<close> A client asks for a property by name. The C library finds the
  context of the name by longest prefix, and in the area of that context walks a trie of
  binary trees to a record, which it reads without a lock while init may be writing. Only
  init writes: a client sends its request over a socket to the property service, which checks
  it, stores it, and tells the action manager, which may queue actions that start and stop
  services; services report their state as properties again.

  \<^bold>\<open>The store.\<close>
  \<^item> \<open>Prop_Area\<close> models a mapped area as a map from offsets to trie nodes and records with the
    source's allocator, and \<^verbatim>\<open>prop_area\<close>'s operations \<^verbatim>\<open>find_prop_bt\<close>, \<^verbatim>\<open>find_property\<close>,
    \<^verbatim>\<open>find\<close>, \<^verbatim>\<open>add\<close>, \<^verbatim>\<open>foreach\<close>. Loops that follow offsets are \<open>partial_function\<close>s, so a cycle
    in the area would be \<open>None\<close>.
  \<^item> \<open>Prop_Trie\<close>, \<open>Prop_Area_Correct\<close>, \<open>Prop_Area_Spec\<close> and \<open>Prop_Area_Map\<close> define the abstract
    trie, the relation between area and trie, and prove that lookups end, that adding keeps
    the structure and changes one name only, and that traversal visits each record once. The
    order of names is the locale \<open>name_order\<close>, interpreted on \<^verbatim>\<open>cmp_prop_name\<close>.
  \<^item> \<open>Prop_Contexts\<close> has the context and prefix lists and the parser of context files;
    \<open>Prop_Value\<close> the record and its update; \<open>Prop_Seqlock\<close> the interleaving of one writer with
    readers as a step relation, with the theorem that no torn value is accepted.
  \<^item> \<open>System_Properties\<close> composes these into the public functions; \<open>Sysprops_Correct\<close> and
    \<open>Sysprops_Init\<close> show that they implement a map from names to values, as the interpretation
    of the locale \<open>property_store\<close>, and that initialisation establishes its invariant.

  \<^bold>\<open>The init process.\<close>
  \<^item> \<open>Property_Service\<close> and \<open>Property_Service_Correct\<close>: \<^verbatim>\<open>property_set\<close> and its callers; which
    requests succeed, that read-only properties are written once, that denied requests change
    nothing. The proofs use the store through \<open>property_store\<close> only.
  \<^item> \<open>Property_Load\<close>: the loaders of property files and persistent properties at boot; loading
    ends when no file imports itself.
  \<^item> \<open>Property_Socket\<close>: both ends of the socket protocol and their round trip for any
    fragmentation of the bytes.
  \<^item> \<open>Tokenizer\<close>: \<^verbatim>\<open>next_token\<close>, which rewrites its buffer in place, its equivalence with a
    tokenizer on lists, and that quoted words are read back.
  \<^item> \<open>Util\<close>: the string, user id and file helpers of \<^verbatim>\<open>util.cpp\<close>.
  \<^item> \<open>Keyword_Map\<close>, \<open>Action\<close>, \<open>Action_Correct\<close>: commands, triggers and the action manager.
    Actions live at addresses; the invariant excludes stale addresses. Builtin functions are
    an argument that may call the public operations of the manager.
  \<^item> \<open>Service\<close>, \<open>Service_Correct\<close>: services with their flags as 32 bit words, every option of
    a service section, starting, stopping, reaping, \<^verbatim>\<open>exec\<close>, and the service manager. Effects
    on the outside are lists in order.
  \<^item> \<open>Init_Parser\<close>: dispatch of the lines of a script to the parsers of sections, imports, files
    and directories; a script becomes the action it describes.
  \<^item> \<open>Init_Main\<close>: the environment of services, waiting for properties, control messages, the
    restart of services, the triggers queued at boot and a turn of the main loop, which never
    sleeps through work.
  \<^item> \<open>Init_Boot\<close>: the kernel command line, the device tree, the choice and the loading of the
    SELinux policy, the interval of \<^verbatim>\<open>watchdogd\<close> and the device lines of \<^verbatim>\<open>ueventd.rc\<close>. SELinux ends in
    the mode that the build and the command line give, or the device reboots.
  \<^item> \<open>First_Stage\<close>: the first stage mount with both versions of verified boot. Partitions are mounted
    in order, only when all required devices are found, and only from verified devices.
  \<^item> \<open>Kernel_Calls\<close>: the helpers that create sockets, directories and files, with their calls to
    the kernel as a list; the kernel answers a call knowing all earlier ones.
  \<^item> \<open>Builtins\<close>, \<open>Builtins_Correct\<close>: every builtin command and the builtin actions of the main
    program on one state, composed into the function that the action manager runs
    (\<open>run_builtin\<close>). A property set by a command goes through the property service and its
    change is passed on to the action manager. The safety of the action manager is proved for
    these builtins, with the actions of configuration files they read.

  \<^bold>\<open>Zygote.\<close>
  \<^item> \<open>Android_Runtime\<close>: the options that the native runtime gives to the virtual machine, read from
    system properties, and the call of the first Java method. Quoted options stay with their
    quoting option.
  \<^item> \<open>App_Process\<close>, \<open>Zygote_Init\<close>: the program that init starts as zygote and the Java method it calls.
    The command line passes through both; classes are preloaded without privileges; zygote
    restricts itself before it has children.

  \<^bold>\<open>The kernel.\<close>
  \<^item> \<open>Pid_Map\<close>, \<open>Pid_Map_Correct\<close>: the bitmaps of process numbers of a namespace, allocation,
    freeing and the walk over the numbers in use. An allocation takes a free number or finds
    all numbers that are not reserved in use.
  \<^item> \<open>Pid_Struct\<close>: \<^verbatim>\<open>struct pid\<close> with its numbers in nested namespaces, the hash table and the lists of
    tasks. An allocation takes a number on every level or changes nothing, and freeing undoes it.

  \<^item> \<open>Mempolicy\<close>, \<open>Mempolicy_Node\<close>, \<open>Mempolicy_Calls\<close>: memory policies, their creation and rebinding, the
    choice of a node, node masks from and to user space, and the pairs of nodes of a migration.
    \<open>Mempolicy_Correct\<close> and \<open>Mempolicy_Rebind\<close> show that interleaving takes the nodes in turn, that masks are read
    exactly, that policies stay within the allowed nodes, that rebinding in two steps is
    rebinding at once, and that a migration moves every node once.
  \<^item> \<open>Mempolicy_Shared\<close>: the tree of policies of shared memory as a binary tree, with the balancing of
    \<^verbatim>\<open>rbtree.c\<close> as an argument that keeps the order. Replacing a range changes the pages of the range only.
  \<^item> \<open>Mempolicy_String\<close>: policies as mount options; what is written reads back.
  \<^item> \<open>Mempolicy_Alloc\<close>: what the allocation of pages asks of the page allocator, with its retry loop, the calls
    \<^verbatim>\<open>migrate_pages\<close> and \<^verbatim>\<open>get_mempolicy\<close>, and the policy of a new file. Requests respect the policy, and pages are moved only
    with permission.

  \<^bold>\<open>Bounds and fuel.\<close> No definition uses fuel. Loops over the area, the reader's retry loop, the retry loop of
  page allocation, the search for a loop device and the import of property files and scripts are partial functions; for those of the
  area totality is proved from the invariant. The scan of the bitmaps counts down the number of turns
  the source computes before its loop. Serial numbers, lengths on the wire, flags, user and group ids have the width
  of the source. Areas have the size \<^verbatim>\<open>PA_SIZE\<close> and allocation fails beyond it.

  \<^bold>\<open>Arguments of the model.\<close> Answers of the kernel (opening and mapping files, labels, access
  decisions, \<^verbatim>\<open>fork\<close>, clocks), of \<^verbatim>\<open>android-base\<close> (\<^verbatim>\<open>ParseInt\<close>, \<^verbatim>\<open>Split\<close>, \<^verbatim>\<open>Trim\<close>,
  \<^verbatim>\<open>GetProperty\<close> inside init), of \<^verbatim>\<open>fs_mgr\<close> and \<^verbatim>\<open>libavb\<close>, and of the user database are arguments.

  \<^bold>\<open>Not modelled.\<close> Logging and timing; the steps of the main program before its loop; the endless
  loops of \<^verbatim>\<open>ueventd\<close> and \<^verbatim>\<open>watchdogd\<close>, which only call the kernel; the signal handler.
  Of \<^verbatim>\<open>pid.c\<close> the accessors that take the current task; of \<^verbatim>\<open>mempolicy.c\<close> the walk over page tables and \<^verbatim>\<open>mbind\<close>,
  which split and merge areas by code outside the repository; locks and the grace period of
  read-copy-update, so that each operation is atomic.
  The other kernel, runtime, SELinux and framework files are excerpts of systems whose other
  parts are not there.
  Memory order of the atomic operations is taken to be sequential; the barriers of the source
  are what makes this so.
\<close>

end
